(* ===== verification/Prelude.thy ===== *)
theory Prelude
  imports
    Main
    "HOL-Library.Word"
    "HOL-Library.List_Lexorder"
    "HOL-Library.Char_ord"
    "HOL-Library.Signed_Division"
begin

text \<open>
  What every component shares: the machine types of the Go program, Go strings as byte
  sequences, slices and indexing with the run-time bounds check written out, and the
  collections of rewrite rules the component proofs use.

  \<^item> \<open>byte\<close> is Go's \<open>byte\<close>, \<open>bytes\<close> a \<open>[]byte\<close>.
  \<^item> A Go \<open>string\<close> is a HOL \<open>string\<close>: a \<open>char\<close> is one byte, so \<open>length\<close> is Go's
    \<open>len\<close>. \<open>bytes_of\<close> and \<open>string_of\<close> are the conversions \<open>[]byte(s)\<close> and
    \<open>string(b)\<close>.
  \<^item> A \<open>time.Duration\<close> is an \<open>int\<close> of nanoseconds.
  \<^item> \<open>slice_of\<close> and \<open>index_of\<close> return \<open>None\<close> where Go panics.
\<close>

unbundle bit_operations_syntax

section \<open>Machine types\<close>

type_synonym byte = "8 word"
type_synonym bytes = "8 word list"
type_synonym uint16 = "16 word"
type_synonym uint32 = "32 word"
type_synonym duration = int

named_theorems byte_simps "bit masks of bytes as arithmetic on nat"

abbreviation second :: duration where
  "second \<equiv> 1000000000"

abbreviation millisecond :: duration where
  "millisecond \<equiv> 1000000"

section \<open>Bytes and bits\<close>

lemma mask7_byte: "(127 :: byte) = mask 7"
  by (simp add: mask_eq_exp_minus_1)

lemma exp7_byte: "(128 :: byte) = 2 ^ 7"
  by simp

lemma unat_byte_less: "unat (b :: byte) < 256"
  using unsigned_less [of b] by simp

lemma low7_set_high [byte_simps]: "(w OR 128) AND 127 = (w AND 127 :: byte)"
  by (rule bit_eqI) (auto simp: mask7_byte exp7_byte bit_simps simp del: mask_numeral power_numeral)

lemma high_set_high [byte_simps]: "(w OR 128) AND 128 = (128 :: byte)"
  by (rule bit_eqI) (auto simp: exp7_byte bit_simps simp del: power_numeral)

lemma unat_low7 [byte_simps]: "unat (w AND 127 :: byte) = unat w mod 128"
proof -
  have "w AND 127 = take_bit 7 w"
    by (simp only: mask7_byte take_bit_eq_mask)
  then show ?thesis
    by (simp add: unsigned_take_bit_eq take_bit_eq_mod unat_mod)
qed

lemma bit7_iff: "bit (w :: byte) 7 \<longleftrightarrow> 128 \<le> unat w"
proof -
  have "bit (unat w) 7 = bit w 7"
    by (auto simp: bit_unsigned_iff)
  then have "bit w 7 \<longleftrightarrow> odd (unat w div 128)"
    by (simp add: bit_iff_odd [of "unat w"])
  moreover have "unat w div 128 = (if 128 \<le> unat w then 1 else 0)"
    using unat_byte_less [of w] by (auto simp: div_nat_eqI)
  ultimately show ?thesis
    by simp
qed

lemma high_clear_iff [byte_simps]: "(w AND 128 = (0 :: byte)) \<longleftrightarrow> unat w < 128"
  unfolding exp7_byte and_exp_eq_0_iff_not_bit bit7_iff by (rule not_le)

lemma unat_of_nat_byte [byte_simps]: "n < 256 \<Longrightarrow> unat (of_nat n :: byte) = n"
  by (simp add: unat_of_nat)

section \<open>Big-endian 16-bit integers\<close>

text \<open>\<open>binary.BigEndian.AppendUint16\<close> and \<open>binary.BigEndian.Uint16\<close>.\<close>

definition appendUint16 :: "bytes \<Rightarrow> uint16 \<Rightarrow> bytes" where
  "appendUint16 dst v = dst @ [ucast (drop_bit 8 v), ucast v]"

definition be16 :: "byte \<Rightarrow> byte \<Rightarrow> uint16" where
  "be16 hi lo = push_bit 8 (ucast hi) OR ucast lo"

fun uint16_of :: "bytes \<Rightarrow> uint16" where
  "uint16_of (hi # lo # _) = be16 hi lo"
| "uint16_of _ = 0"

lemma be16_split [simp]: "be16 (ucast (drop_bit 8 v)) (ucast v) = v"
  unfolding be16_def by (rule bit_eqI) (auto simp: bit_simps)

lemma unat_be16: "unat (be16 a b) = 256 * unat a + unat b"
proof -
  have "push_bit 8 (ucast a :: uint16) AND ucast b = 0"
    by (rule bit_eqI) (auto simp: bit_simps dest: bit_imp_le_length)
  then have "(push_bit 8 (ucast a) OR ucast b :: uint16) = push_bit 8 (ucast a) + ucast b"
    by (simp add: disjunctive_add bit_eq_iff bit_simps)
  then show ?thesis
    using unat_byte_less [of a] unat_byte_less [of b]
    by (simp add: be16_def unat_word_ariths push_bit_eq_mult unsigned_ucast_eq take_bit_eq_mod)
qed

lemma length_appendUint16 [simp]: "length (appendUint16 dst v) = length dst + 2"
  by (simp add: appendUint16_def)

lemma unat_of_nat_uint16: "n < 65536 \<Longrightarrow> unat (of_nat n :: uint16) = n"
  by (simp add: unat_of_nat)

section \<open>Strings as byte sequences\<close>

definition bytes_of :: "string \<Rightarrow> bytes" where
  "bytes_of s = map of_char s"

definition string_of :: "bytes \<Rightarrow> string" where
  "string_of bs = map (\<lambda>b. char_of (unat b)) bs"

lemma unat_of_char: "unat (of_char c :: byte) = of_char c"
proof -
  have lt: "(of_char c :: nat) < 256"
    using of_char_mod_256 [of c, where 'a = nat] by (metis mod_less_divisor zero_less_numeral)
  have "(of_char c :: byte) = of_nat (of_char c)"
    by (simp add: of_nat_of_char)
  with lt show ?thesis
    by (simp add: unat_of_nat)
qed

lemma length_bytes_of [simp]: "length (bytes_of s) = length s"
  by (simp add: bytes_of_def)

lemma length_string_of [simp]: "length (string_of b) = length b"
  by (simp add: string_of_def)

lemma string_of_bytes_of [simp]: "string_of (bytes_of s) = s"
  by (induction s) (simp_all add: string_of_def bytes_of_def unat_of_char)

lemma bytes_of_Nil_iff [simp]: "bytes_of s = [] \<longleftrightarrow> s = []"
  by (simp add: bytes_of_def)

section \<open>Slices and indexing with the bounds check\<close>

definition slice_of :: "'a list \<Rightarrow> nat \<Rightarrow> nat \<Rightarrow> 'a list option" where
  "slice_of xs lo hi =
     (if lo \<le> hi \<and> hi \<le> length xs then Some (take (hi - lo) (drop lo xs)) else None)"

definition slice_from :: "'a list \<Rightarrow> nat \<Rightarrow> 'a list option" where
  "slice_from xs lo = slice_of xs lo (length xs)"

definition index_of :: "'a list \<Rightarrow> nat \<Rightarrow> 'a option" where
  "index_of xs i = (if i < length xs then Some (xs ! i) else None)"

lemma slice_of_Some [simp]:
  "lo \<le> hi \<Longrightarrow> hi \<le> length xs \<Longrightarrow> slice_of xs lo hi = Some (take (hi - lo) (drop lo xs))"
  by (simp add: slice_of_def)

lemma slice_from_Some [simp]: "lo \<le> length xs \<Longrightarrow> slice_from xs lo = Some (drop lo xs)"
  by (simp add: slice_from_def)

lemma index_of_Some [simp]: "i < length xs \<Longrightarrow> index_of xs i = Some (xs ! i)"
  by (simp add: index_of_def)

section \<open>Self-delimiting encodings\<close>

text \<open>
  Reading a stream item by item until the decoder fails. The first argument bounds the
  number of items; a decoder that consumes at least one byte needs no more than the length
  of the stream.
\<close>

fun decodeStream :: "nat \<Rightarrow> (bytes \<Rightarrow> 'e + 'a \<times> bytes) \<Rightarrow> bytes \<Rightarrow> 'a list \<times> 'e option" where
  "decodeStream 0 dec rd = ([], None)"
| "decodeStream (Suc n) dec rd =
     (case dec rd of
        Inl e \<Rightarrow> ([], Some e)
      | Inr (x, rest) \<Rightarrow> (let (xs, e) = decodeStream n dec rest in (x # xs, e)))"

text \<open>
  The contract between an encoder and the reader at the other end of a stream: the reader
  recovers a valid item whatever bytes follow it. Nothing more is needed for the encoding
  to be injective and prefix free and for a stream of items to be read back in order.
\<close>

locale self_delimiting =
  fixes valid :: "'a \<Rightarrow> bool"
    and enc :: "'a \<Rightarrow> bytes"
    and dec :: "bytes \<Rightarrow> 'e + 'a \<times> bytes"
  assumes dec_enc: "valid x \<Longrightarrow> dec (enc x @ rest) = Inr (x, rest)"
begin

lemma enc_prefix_free:
  assumes "valid x" "valid y" "enc x @ r = enc y @ s"
  shows "x = y \<and> r = s"
  using dec_enc [OF assms(1), of r, unfolded assms(3)] dec_enc [OF assms(2), of s]
  by (metis Inr_inject prod.inject)

lemma enc_inj: "valid x \<Longrightarrow> valid y \<Longrightarrow> enc x = enc y \<Longrightarrow> x = y"
  using enc_prefix_free [of x y "[]" "[]"] by simp

lemma decodeStream_enc:
  "list_all valid xs \<Longrightarrow> dec tail = Inl e \<Longrightarrow> length xs < n \<Longrightarrow>
   decodeStream n dec (concat (map enc xs) @ tail) = (xs, Some e)"
proof (induction xs arbitrary: n)
  case Nil
  then show ?case by (cases n) simp_all
next
  case (Cons x xs)
  then obtain m where "n = Suc m" by (cases n) auto
  then have "decodeStream m dec (concat (map enc xs) @ tail) = (xs, Some e)"
    using Cons.prems by (intro Cons.IH) simp_all
  moreover have "dec (enc x @ concat (map enc xs) @ tail) = Inr (x, concat (map enc xs) @ tail)"
    using Cons.prems by (intro dec_enc) simp
  ultimately show ?case using \<open>n = Suc m\<close> by simp
qed

end

end
