(* ===== verification/Wire.thy ===== *)
theory Wire
  imports Prelude
begin

text \<open>
  The MQTT 5 wire format of \<open>internal/mqttclient/client.go\<close>: variable length integers,
  packet framing, the packets the client encodes (CONNECT, PUBLISH, SUBSCRIBE, PUBACK)
  and the ones it parses (CONNACK, PUBLISH, SUBACK), each definition under the name of
  its Go function. A \<open>bufio.Reader\<close> is the list of bytes still to be read, so a read
  returns the rest of the stream. An \<open>error\<close> result is \<open>Inl\<close>; \<open>IndexPanic\<close> is the
  run-time panic of an index or slice out of range, and the lemmas show it unreachable.
  Lengths and offsets are \<open>nat\<close>: the Go \<open>int\<close>s here never go negative, and none passes
  \<open>2 ^ 32\<close>.
\<close>

section \<open>Packet types, errors, messages\<close>

definition packetCONNECT :: byte where "packetCONNECT = 1"
definition packetCONNACK :: byte where "packetCONNACK = 2"
definition packetPUBLISH :: byte where "packetPUBLISH = 3"
definition packetPUBACK :: byte where "packetPUBACK = 4"
definition packetSUBSCRIBE :: byte where "packetSUBSCRIBE = 8"
definition packetSUBACK :: byte where "packetSUBACK = 9"
definition packetPINGREQ :: byte where "packetPINGREQ = 12"
definition packetPINGRESP :: byte where "packetPINGRESP = 13"
definition packetDISCONNECT :: byte where "packetDISCONNECT = 14"

definition maxPacketSize :: nat where
  "maxPacketSize = 64 * 2 ^ 20"

lemmas packet_types [byte_simps] =
  packetCONNECT_def packetCONNACK_def packetPUBLISH_def packetPUBACK_def packetSUBSCRIBE_def
  packetSUBACK_def packetPINGREQ_def packetPINGRESP_def packetDISCONNECT_def

datatype wire_error =
    EOF
  | UnexpectedEOF
  | MalformedVarInt
  | MalformedRemainingLength
  | PacketTooLarge nat
  | InvalidTopic
  | ShortConnack
  | ConnackRejected byte
  | ShortSuback
  | SubackNoReason
  | ShortPublish
  | InvalidPublishTopic
  | UnsupportedIncomingQoS byte
  | ShortPublishPacketID
  | InvalidPublishProperties
  | IndexPanic

record Message =
  msgTopic :: string
  msgPayload :: bytes
  msgQoS :: byte
  msgRetain :: bool

section \<open>Variable length integers\<close>

function appendVarInt :: "bytes \<Rightarrow> nat \<Rightarrow> bytes" where
  "appendVarInt dst v =
     (let encoded = (of_nat (v mod 128) :: byte);
          v' = v div 128;
          encoded' = (if v' > 0 then encoded OR 128 else encoded);
          dst' = dst @ [encoded']
      in if v' = 0 then dst' else appendVarInt dst' v')"
  by pat_completeness auto
termination
  by (relation "measure snd") auto

declare appendVarInt.simps [simp del]

text \<open>
  The loop \<open>for i := 0; i < 4; i++\<close> of \<open>readVarInt\<close>: the first argument counts the
  iterations that are left.
\<close>

fun readVarIntLoop :: "nat \<Rightarrow> nat \<Rightarrow> nat \<Rightarrow> bytes \<Rightarrow> wire_error + nat \<times> bytes" where
  "readVarIntLoop 0 acc multiplier rd = Inl MalformedRemainingLength"
| "readVarIntLoop (Suc left) acc multiplier [] = Inl EOF"
| "readVarIntLoop (Suc left) acc multiplier (encoded # rd) =
     (let acc' = acc + unat (encoded AND 127) * multiplier
      in if encoded AND 128 = 0 then Inr (acc', rd)
         else readVarIntLoop left acc' (multiplier * 128) rd)"

definition readVarInt :: "bytes \<Rightarrow> wire_error + nat \<times> bytes" where
  "readVarInt rd = readVarIntLoop 4 0 1 rd"

text \<open>\<open>parseVarIntBytes\<close> reads from a slice by index and counts what it consumed.\<close>

function parseVarIntLoop ::
    "bytes \<Rightarrow> nat \<Rightarrow> nat \<Rightarrow> nat \<Rightarrow> nat \<Rightarrow> wire_error + nat \<times> nat" where
  "parseVarIntLoop data i acc consumed multiplier =
     (if i < 4 then
        (if i \<ge> length data then Inl UnexpectedEOF
         else
           (let encoded = data ! i;
                acc' = acc + unat (encoded AND 127) * multiplier;
                consumed' = consumed + 1
            in if encoded AND 128 = 0 then Inr (acc', consumed')
               else parseVarIntLoop data (i + 1) acc' consumed' (multiplier * 128)))
      else Inl MalformedVarInt)"
  by pat_completeness auto
termination
  by (relation "measure (\<lambda>(data, i, acc, consumed, multiplier). 4 - i)") auto

declare parseVarIntLoop.simps [simp del]

definition parseVarIntBytes :: "bytes \<Rightarrow> wire_error + nat \<times> nat" where
  "parseVarIntBytes data = parseVarIntLoop data 0 0 0 1"

section \<open>Framing\<close>

definition makePacket :: "byte \<Rightarrow> bytes \<Rightarrow> bytes" where
  "makePacket header body = appendVarInt [header] (length body) @ body"

definition appendUTF8 :: "bytes \<Rightarrow> string \<Rightarrow> bytes" where
  "appendUTF8 dst s = appendUint16 dst (of_nat (length s)) @ bytes_of s"

definition appendBinary :: "bytes \<Rightarrow> bytes \<Rightarrow> bytes" where
  "appendBinary dst v = appendUint16 dst (of_nat (length v)) @ v"

text \<open>\<open>io.ReadFull\<close>: all of the bytes or an error, which tells nothing read from a short read.\<close>

definition ReadFull :: "bytes \<Rightarrow> nat \<Rightarrow> wire_error + bytes \<times> bytes" where
  "ReadFull rd n =
     (if n \<le> length rd then Inr (take n rd, drop n rd)
      else if rd = [] then Inl EOF else Inl UnexpectedEOF)"

definition readPacket :: "bytes \<Rightarrow> wire_error + (byte \<times> byte \<times> bytes) \<times> bytes" where
  "readPacket rd =
     (case rd of
        [] \<Rightarrow> Inl EOF
      | first # rd1 \<Rightarrow>
          (case readVarInt rd1 of
             Inl e \<Rightarrow> Inl e
           | Inr (remaining, rd2) \<Rightarrow>
               if remaining > maxPacketSize then Inl (PacketTooLarge remaining)
               else
                 (case ReadFull rd2 remaining of
                    Inl e \<Rightarrow> Inl e
                  | Inr (body, rd3) \<Rightarrow>
                      Inr ((drop_bit 4 first, first AND 15, body), rd3))))"

section \<open>Packets the client parses\<close>

definition validateConnack :: "bytes \<Rightarrow> wire_error + unit" where
  "validateConnack body =
     (if length body < 3 then Inl ShortConnack
      else case index_of body 1 of
             None \<Rightarrow> Inl IndexPanic
           | Some reason \<Rightarrow> if reason \<noteq> 0 then Inl (ConnackRejected reason) else Inr ())"

definition parseSuback :: "bytes \<Rightarrow> wire_error + uint16 \<times> byte" where
  "parseSuback body =
     (if length body < 4 then Inl ShortSuback
      else case (slice_of body 0 2, slice_from body 2) of
             (Some idb, Some rest) \<Rightarrow>
               (case parseVarIntBytes rest of
                  Inl e \<Rightarrow> Inl e
                | Inr (propertiesLen, consumed) \<Rightarrow>
                    (let offset = 2 + consumed + propertiesLen
                     in if offset \<ge> length body then Inl SubackNoReason
                        else case index_of body offset of
                               None \<Rightarrow> Inl IndexPanic
                             | Some reason \<Rightarrow> Inr (uint16_of idb, reason)))
           | _ \<Rightarrow> Inl IndexPanic)"

definition incomingQoS :: "byte \<Rightarrow> byte" where
  "incomingQoS flags = drop_bit 1 flags AND 3"

text \<open>
  The packet identifier of an incoming PUBLISH: read and stepped over only for QoS 1.
\<close>

definition parsePublishID :: "byte \<Rightarrow> bytes \<Rightarrow> nat \<Rightarrow> wire_error + uint16 \<times> nat" where
  "parsePublishID qos body offset =
     (if qos = 1 then
        (if offset + 2 > length body then Inl ShortPublishPacketID
         else case slice_of body offset (offset + 2) of
                None \<Rightarrow> Inl IndexPanic
              | Some idb \<Rightarrow> Inr (uint16_of idb, offset + 2))
      else Inr (0, offset))"

definition parsePublish :: "byte \<Rightarrow> bytes \<Rightarrow> wire_error + Message \<times> uint16" where
  "parsePublish flags body =
     (if length body < 3 then Inl ShortPublish
      else case slice_of body 0 2 of
        None \<Rightarrow> Inl IndexPanic
      | Some lenb \<Rightarrow>
          (let topicLen = unat (uint16_of lenb); offset = 2
           in if topicLen = 0 \<or> offset + topicLen > length body then Inl InvalidPublishTopic
              else case slice_of body offset (offset + topicLen) of
                None \<Rightarrow> Inl IndexPanic
              | Some topicb \<Rightarrow>
                  (let qos = incomingQoS flags
                   in if qos > 1 then Inl (UnsupportedIncomingQoS qos)
                      else case parsePublishID qos body (offset + topicLen) of
                        Inl e \<Rightarrow> Inl e
                      | Inr (packetID, offset1) \<Rightarrow>
                          (case slice_from body offset1 of
                             None \<Rightarrow> Inl IndexPanic
                           | Some rest \<Rightarrow>
                               (case parseVarIntBytes rest of
                                  Inl e \<Rightarrow> Inl e
                                | Inr (propertiesLen, consumed) \<Rightarrow>
                                    (let offset2 = offset1 + consumed
                                     in if propertiesLen < 0 \<or> offset2 + propertiesLen > length body
                                        then Inl InvalidPublishProperties
                                        else case slice_from body (offset2 + propertiesLen) of
                                          None \<Rightarrow> Inl IndexPanic
                                        | Some payload \<Rightarrow>
                                            Inr (\<lparr>msgTopic = string_of topicb, msgPayload = payload, msgQoS = qos,
                                                  msgRetain = (flags AND 1 \<noteq> 0)\<rparr>,
                                                 packetID)))))))"

section \<open>Packets the client sends\<close>

definition encodePublish ::
    "string \<Rightarrow> bytes \<Rightarrow> byte \<Rightarrow> bool \<Rightarrow> uint16 \<Rightarrow> wire_error + bytes" where
  "encodePublish topic payload qos retain packetID =
     (if topic = [] \<or> length topic > 65535 then Inl InvalidTopic
      else
        (let body = appendUTF8 [] topic;
             body = (if qos = 1 then appendUint16 body packetID else body);
             body = body @ [0];
             body = body @ payload;
             header = push_bit 4 packetPUBLISH OR push_bit 1 (qos AND 3);
             header = (if retain then header OR 1 else header)
         in Inr (makePacket header body)))"

definition encodeSubscribe :: "string \<Rightarrow> byte \<Rightarrow> uint16 \<Rightarrow> bytes" where
  "encodeSubscribe topic qos packetID =
     (let body = appendUint16 [] packetID;
          body = body @ [0];
          body = appendUTF8 body topic;
          body = body @ [qos AND 3]
      in makePacket (push_bit 4 packetSUBSCRIBE OR 2) body)"

definition encodePuback :: "uint16 \<Rightarrow> bytes" where
  "encodePuback packetID = makePacket (push_bit 4 packetPUBACK) (appendUint16 [] packetID)"

definition pingreqPacket :: bytes where
  "pingreqPacket = [push_bit 4 packetPINGREQ, 0]"

definition disconnectPacket :: bytes where
  "disconnectPacket = [push_bit 4 packetDISCONNECT, 2, 0, 0]"

text \<open>
  \<open>mqttclient.Config\<close>; \<open>OnMessage\<close> is only ever compared with \<open>nil\<close> and started in a
  goroutine of its own, so the model keeps whether it is set.
\<close>

record Config =
  BrokerURL :: string
  ClientID :: string
  Username :: string
  Password :: string
  KeepAlive :: duration
  ConnectTimeout :: duration
  PublishTimeout :: duration
  ReconnectMin :: duration
  ReconnectMax :: duration
  WillTopic :: string
  WillPayload :: bytes
  WillQoS :: byte
  WillRetain :: bool
  CAFile :: string
  CertFile :: string
  KeyFile :: string
  ServerName :: string
  InsecureSkipVerify :: bool
  OnMessage :: bool

text \<open>A configuration for the witnesses.\<close>

definition exampleConfig :: Config where
  "exampleConfig =
     \<lparr>BrokerURL = ''mqtt://h'', ClientID = ''codexbar-mqtt-m4'', Username = ''u'', Password = ''pw'',
      KeepAlive = 30 * second, ConnectTimeout = 10 * second, PublishTimeout = 15 * second,
      ReconnectMin = second, ReconnectMax = 30 * second,
      WillTopic = ''a/b'', WillPayload = bytes_of ''offline'', WillQoS = 1, WillRetain = True,
      CAFile = [], CertFile = [], KeyFile = [], ServerName = [], InsecureSkipVerify = False,
      OnMessage = False\<rparr>"

definition connectFlags :: "Config \<Rightarrow> byte" where
  "connectFlags cfg =
     (let flags = 2;
          flags = (if WillTopic cfg \<noteq> [] then
                     (let flags = flags OR (4 OR push_bit 3 (WillQoS cfg AND 3))
                      in if WillRetain cfg then flags OR 32 else flags)
                   else flags);
          flags = (if Password cfg \<noteq> [] then flags OR 64 else flags);
          flags = (if Username cfg \<noteq> [] then flags OR 128 else flags)
      in flags)"

definition keepAliveSeconds :: "Config \<Rightarrow> int" where
  "keepAliveSeconds cfg =
     (let k = KeepAlive cfg sdiv second;
          k = (if k < 1 then 1 else k)
      in if k > 65535 then 65535 else k)"

definition encodeConnect :: "Config \<Rightarrow> bytes" where
  "encodeConnect cfg =
     (let vh = appendUTF8 [] ''MQTT'';
          vh = vh @ [5];
          vh = vh @ [connectFlags cfg];
          vh = appendUint16 vh (of_int (keepAliveSeconds cfg));
          vh = vh @ [0];
          payload = appendUTF8 [] (ClientID cfg);
          payload = (if WillTopic cfg \<noteq> [] then
                       appendBinary (appendUTF8 (payload @ [0]) (WillTopic cfg)) (WillPayload cfg)
                     else payload);
          payload = (if Username cfg \<noteq> [] then appendUTF8 payload (Username cfg) else payload);
          payload = (if Password cfg \<noteq> [] then appendBinary payload (bytes_of (Password cfg))
                     else payload)
      in makePacket (push_bit 4 packetCONNECT) (vh @ payload))"

section \<open>Variable length integers: round trips\<close>

lemma appendVarInt_rec:
  "appendVarInt dst v =
     (if v < 128 then dst @ [of_nat v]
      else appendVarInt (dst @ [of_nat (v mod 128) OR 128]) (v div 128))"
  by (subst appendVarInt.simps) (simp add: Let_def div_eq_0_iff)

lemma appendVarInt_append: "appendVarInt dst v = dst @ appendVarInt [] v"
proof (induction v arbitrary: dst rule: less_induct)
  case (less v)
  show ?case
  proof (cases "v < 128")
    case True
    then show ?thesis
      by (simp add: appendVarInt_rec [of _ v])
  next
    case False
    then have IH: "appendVarInt d (v div 128) = d @ appendVarInt [] (v div 128)" for d
      by (intro less.IH) simp
    have step: "appendVarInt d v = d @ (of_nat (v mod 128) OR 128) # appendVarInt [] (v div 128)" for d
      using False by (simp add: appendVarInt_rec [of d v] IH [of "d @ _"] del: of_nat_mod)
    show ?thesis
      by (simp only: step append.simps)
  qed
qed

definition varint :: "nat \<Rightarrow> bytes" where
  "varint v = appendVarInt [] v"

lemma appendVarInt_varint: "appendVarInt dst v = dst @ varint v"
  unfolding varint_def by (rule appendVarInt_append)

lemma varint_small: "v < 128 \<Longrightarrow> varint v = [of_nat v]"
  by (simp add: varint_def appendVarInt_rec)

lemma varint_step: "\<not> v < 128 \<Longrightarrow> varint v = (of_nat (v mod 128) OR 128) # varint (v div 128)"
  by (simp add: varint_def appendVarInt_rec [of "[]" v] appendVarInt_append [of "[_]"] del: of_nat_mod)

lemma low_bits_digit:
  "unat ((of_nat (v mod 128) OR 128 :: byte) AND 127) = v mod 128"
proof -
  have "v mod 128 < 256"
    by (rule less_trans [OF mod_less_divisor]) simp_all
  then have "unat (of_nat (v mod 128) :: byte) = v mod 128"
    by (rule unat_of_nat_byte)
  then show ?thesis
    by (simp only: low7_set_high unat_low7 mod_mod_trivial)
qed

lemma readVarIntLoop_step:
  assumes "\<not> v < 128"
  shows "readVarIntLoop (Suc left) acc m (varint v @ rd) =
     readVarIntLoop left (acc + v mod 128 * m) (m * 128) (varint (v div 128) @ rd)"
proof -
  let ?e = "of_nat (v mod 128) OR 128 :: byte"
  have "?e AND 128 \<noteq> 0"
    by (simp only: high_set_high) simp
  then show ?thesis
    by (simp only: varint_step [OF assms] append_Cons readVarIntLoop.simps Let_def low_bits_digit if_False)
qed

lemma readVarIntLoop_varint:
  "readVarIntLoop (Suc left) acc m (varint v @ rd) =
     (if v < 128 ^ Suc left then Inr (acc + v * m, rd) else Inl MalformedRemainingLength)"
proof (induction left arbitrary: acc m v)
  case 0
  show ?case
    by (cases "v < 128") (simp_all add: varint_small readVarIntLoop_step unat_low7 high_clear_iff unat_of_nat_byte)
next
  case (Suc left)
  show ?case
  proof (cases "v < 128")
    case True
    then have "v < 128 ^ Suc (Suc left)"
      by (rule less_le_trans) simp
    with True show ?thesis
      by (simp add: varint_small unat_low7 high_clear_iff unat_of_nat_byte)
  next
    case False
    have lt: "v div 128 < 128 ^ Suc left \<longleftrightarrow> v < 128 ^ Suc (Suc left)"
      by (simp add: div_less_iff_less_mult mult.commute)
    have "v * m = (v mod 128 + v div 128 * 128) * m"
      by simp
    then have sum: "acc + v mod 128 * m + v div 128 * (m * 128) = acc + v * m"
      by (simp only: algebra_simps)
    show ?thesis
      by (simp only: readVarIntLoop_step [OF False] Suc.IH lt sum)
  qed
qed

lemma readVarInt_varint:
  "readVarInt (varint v @ rd) =
     (if v < 2 ^ 28 then Inr (v, rd) else Inl MalformedRemainingLength)"
proof -
  have four: "Suc 3 = (4 :: nat)" and exp: "(128 :: nat) ^ 4 = 2 ^ 28"
    by simp_all
  show ?thesis
    using readVarIntLoop_varint [of 3 0 1 v rd] unfolding four exp readVarInt_def by simp
qed

text \<open>
  The parser over a slice is the reader over a stream: same value, and what it counts as
  consumed is what the reader took.
\<close>

fun slice_result :: "nat \<Rightarrow> nat \<Rightarrow> wire_error + nat \<times> bytes \<Rightarrow> wire_error + nat \<times> nat" where
  "slice_result n consumed (Inr (v, rest)) = Inr (v, consumed + (n - length rest))"
| "slice_result n consumed (Inl EOF) = Inl UnexpectedEOF"
| "slice_result n consumed (Inl _) = Inl MalformedVarInt"

lemma readVarIntLoop_shrinks:
  "readVarIntLoop left acc m rd = Inr (v, rest) \<Longrightarrow> length rest < length rd"
  by (induction left acc m rd rule: readVarIntLoop.induct) (auto simp: Let_def split: if_splits)

lemma readVarIntLoop_error:
  "readVarIntLoop left acc m rd = Inl e \<Longrightarrow> e = EOF \<or> e = MalformedRemainingLength"
  by (induction left acc m rd rule: readVarIntLoop.induct) (auto simp: Let_def split: if_splits)

lemma parseVarIntLoop_read:
  "i \<le> 4 \<Longrightarrow> parseVarIntLoop data i acc consumed m =
     slice_result (length data - i) consumed (readVarIntLoop (4 - i) acc m (drop i data))"
proof (induction data i acc consumed m rule: parseVarIntLoop.induct)
  case (1 data i acc consumed m)
  show ?case
  proof (cases "i < 4 \<and> i < length data")
    case False
    then consider "i = 4" | "i < 4" "length data \<le> i"
      using 1(2) by linarith
    then show ?thesis
    proof cases
      case 1
      then show ?thesis by (simp add: parseVarIntLoop.simps [of data 4])
    next
      case 2
      then have "4 - i = Suc (3 - i)" by simp
      with 2 show ?thesis by (simp add: parseVarIntLoop.simps [of data i])
    qed
  next
    case True
    then have d: "drop i data = data ! i # drop (Suc i) data"
      by (simp add: Cons_nth_drop_Suc)
    from True have f: "4 - i = Suc (3 - i)"
      by arith
    show ?thesis
    proof (cases "data ! i AND 128 = 0")
      case True
      with d f \<open>i < 4 \<and> i < length data\<close> show ?thesis
        by (simp add: parseVarIntLoop.simps [of data i] Let_def Suc_diff_le)
    next
      case c: False
      let ?acc = "acc + unat (data ! i AND 127) * m"
      have IH: "parseVarIntLoop data (i + 1) ?acc (consumed + 1) (m * 128) =
          slice_result (length data - (i + 1)) (consumed + 1)
            (readVarIntLoop (4 - (i + 1)) ?acc (m * 128) (drop (i + 1) data))"
        using True c by (intro 1(1)) simp_all
      have len: "length (drop (i + 1) data) = length data - (i + 1)"
        by simp
      show ?thesis
        using True c d f IH readVarIntLoop_shrinks [of "3 - i" ?acc "m * 128" "drop (i + 1) data"]
          readVarIntLoop_error [of "3 - i" ?acc "m * 128" "drop (i + 1) data"]
        by (cases "readVarIntLoop (3 - i) ?acc (m * 128) (drop (i + 1) data)")
          (auto simp: parseVarIntLoop.simps [of data i] Let_def)
    qed
  qed
qed

lemma parseVarIntBytes_read:
  "parseVarIntBytes data = slice_result (length data) 0 (readVarInt data)"
  by (simp add: parseVarIntBytes_def readVarInt_def parseVarIntLoop_read)

lemma parseVarIntBytes_varint:
  "v < 2 ^ 28 \<Longrightarrow> parseVarIntBytes (varint v @ rd) = Inr (v, length (varint v))"
  by (simp add: parseVarIntBytes_read readVarInt_varint)

section \<open>Framing\<close>

lemma makePacket_varint: "makePacket header body = header # varint (length body) @ body"
  by (simp add: makePacket_def appendVarInt_varint)

lemma maxPacketSize_less: "maxPacketSize < 2 ^ 28"
  by (simp add: maxPacketSize_def)

lemma readPacket_makePacket:
  "readPacket (makePacket header body @ rd) =
     (if length body \<le> maxPacketSize then
        Inr ((drop_bit 4 header, header AND 15, body), rd)
      else if length body < 2 ^ 28 then Inl (PacketTooLarge (length body))
      else Inl MalformedRemainingLength)"
  using maxPacketSize_less
  by (auto simp: readPacket_def makePacket_varint readVarInt_varint ReadFull_def simp del: power_numeral)

lemma readPacket_shrinks:
  "readPacket rd = Inr (p, rest) \<Longrightarrow> length rest < length rd"
  by (auto simp: readPacket_def readVarInt_def ReadFull_def
      dest!: readVarIntLoop_shrinks split: list.splits sum.splits if_splits)

lemma readPacket_no_panic: "readPacket rd \<noteq> Inl IndexPanic"
  by (auto simp: readPacket_def readVarInt_def ReadFull_def dest!: readVarIntLoop_error
      split: list.splits sum.splits if_splits)

section \<open>Length-prefixed fields\<close>

lemma appendUTF8_bytes: "appendUTF8 dst s = appendBinary dst (bytes_of s)"
  by (simp add: appendUTF8_def appendBinary_def)

lemma appendBinary_append: "appendBinary dst v = dst @ appendBinary [] v"
  by (simp add: appendBinary_def appendUint16_def)

lemma length_appendBinary [simp]: "length (appendBinary dst v) = length dst + 2 + length v"
  by (simp add: appendBinary_def)

lemma appendUint16_append: "appendUint16 dst v = dst @ appendUint16 [] v"
  by (simp add: appendUint16_def)

lemma uint16_of_append [simp]: "uint16_of (appendUint16 [] v @ rest) = v"
  by (simp add: appendUint16_def)

lemma uint16_of_appendUint16 [simp]: "uint16_of (appendUint16 [] v) = v"
  by (simp add: appendUint16_def)

lemma take_appendUint16 [simp]: "take 2 (appendUint16 [] v @ rest) = appendUint16 [] v"
  by (simp add: appendUint16_def)

lemma drop_appendUint16 [simp]: "drop 2 (appendUint16 [] v @ rest) = rest"
  by (simp add: appendUint16_def)

lemma appendBinary_Nil: "appendBinary [] v = appendUint16 [] (of_nat (length v)) @ v"
  by (simp add: appendBinary_def)

lemmas field_simps' = appendUTF8_bytes appendBinary_Nil unat_of_nat_uint16

section \<open>PUBLISH\<close>

lemma byte_le_1_cases: "(q :: byte) \<le> 1 \<Longrightarrow> q = 0 \<or> q = 1"
  by unat_arith

definition publishHeader :: "byte \<Rightarrow> bool \<Rightarrow> byte" where
  "publishHeader qos retain =
     (let header = push_bit 4 packetPUBLISH OR push_bit 1 (qos AND 3)
      in if retain then header OR 1 else header)"

definition publishBody :: "string \<Rightarrow> bytes \<Rightarrow> byte \<Rightarrow> uint16 \<Rightarrow> bytes" where
  "publishBody topic payload qos packetID =
     appendUint16 [] (of_nat (length topic)) @ bytes_of topic @
     (if qos = 1 then appendUint16 [] packetID else []) @ 0 # payload"

lemma encodePublish_eq:
  "encodePublish topic payload qos retain packetID =
     (if topic = [] \<or> length topic > 65535 then Inl InvalidTopic
      else Inr (makePacket (publishHeader qos retain) (publishBody topic payload qos packetID)))"
  by (simp add: encodePublish_def publishHeader_def publishBody_def Let_def appendUTF8_def
      appendUint16_def)

lemma publishHeader_fields:
  assumes "qos \<le> 1"
  shows "drop_bit 4 (publishHeader qos retain) = packetPUBLISH"
    and "incomingQoS (publishHeader qos retain AND 15) = qos"
    and "((publishHeader qos retain AND 15) AND 1 \<noteq> 0) = retain"
  using byte_le_1_cases [OF assms]
  by (auto simp: publishHeader_def packetPUBLISH_def incomingQoS_def Let_def)

lemma parsePublish_body:
  assumes "qos \<le> 1" "topic \<noteq> []" "length topic \<le> 65535" "incomingQoS flags = qos"
  shows "parsePublish flags (publishBody topic payload qos packetID) =
    Inr (\<lparr>msgTopic = topic, msgPayload = payload, msgQoS = qos, msgRetain = (flags AND 1 \<noteq> 0)\<rparr>,
         if qos = 1 then packetID else 0)"
proof -
  let ?body = "publishBody topic payload qos packetID"
  define n where "n = length topic"
  define pid where "pid = (if qos = 1 then packetID else 0)"
  define off where "off = 2 + n + (if qos = 1 then 2 else 0)"
  have n: "unat (of_nat n :: uint16) = n" "0 < n"
    using assms(2,3) by (simp_all add: n_def unat_of_nat_uint16)
  have len: "length ?body = off + 1 + length payload"
    by (simp add: publishBody_def off_def n_def)
  have le: "2 + n \<le> off"
    by (simp add: off_def)
  have id: "parsePublishID qos ?body (2 + n) = Inr (pid, off)"
    by (simp add: parsePublishID_def slice_of_def publishBody_def pid_def off_def n_def)
  have rest: "drop off ?body = 0 # payload" "drop (off + 1) ?body = payload"
    by (simp_all add: publishBody_def off_def n_def)
  have v0: "parseVarIntBytes (0 # payload) = Inr (0, 1)"
    using parseVarIntBytes_varint [of 0 payload] by (simp add: varint_small)
  have t: "take 2 ?body = appendUint16 [] (of_nat n)" "take n (drop 2 ?body) = bytes_of topic"
    by (simp_all add: publishBody_def n_def)
  show ?thesis
    using assms(1,4) n le unfolding pid_def [symmetric]
    by (simp add: parsePublish_def t len id [simplified] rest [simplified] v0 slice_from_def)
qed

section \<open>Parsers: bounds and errors\<close>

lemma parseVarIntBytes_bounds:
  assumes "parseVarIntBytes data = Inr (v, consumed)"
  shows "0 < consumed \<and> consumed \<le> length data"
proof -
  from assms obtain rest where r: "readVarInt data = Inr (v, rest)" and c: "consumed = length data - length rest"
    by (cases "readVarInt data") (auto simp: parseVarIntBytes_read elim: slice_result.elims)
  from r have "length rest < length data"
    by (auto simp: readVarInt_def dest: readVarIntLoop_shrinks)
  with c show ?thesis by simp
qed

lemma parseVarIntBytes_error:
  "parseVarIntBytes data = Inl e \<Longrightarrow> e = UnexpectedEOF \<or> e = MalformedVarInt"
  by (cases "readVarInt data")
    (auto simp: parseVarIntBytes_read readVarInt_def dest!: readVarIntLoop_error)

lemma parseVarIntBytes_no_panic [simp]: "parseVarIntBytes data \<noteq> Inl IndexPanic"
  by (auto dest: parseVarIntBytes_error)

lemma parseSuback_no_panic: "parseSuback body \<noteq> Inl IndexPanic"
  by (auto simp: parseSuback_def Let_def split: sum.splits option.splits if_splits)

lemma parsePublishID_bounds:
  "parsePublishID qos body off = Inr (pid, off') \<Longrightarrow> off \<le> length body \<Longrightarrow> off \<le> off' \<and> off' \<le> length body"
  by (auto simp: parsePublishID_def split: if_splits option.splits)

lemma parsePublishID_no_panic: "off \<le> length body \<Longrightarrow> parsePublishID qos body off \<noteq> Inl IndexPanic"
  by (auto simp: parsePublishID_def split: if_splits option.splits)

lemma parsePublish_no_panic: "parsePublish flags body \<noteq> Inl IndexPanic"
  by (auto simp: parsePublish_def Let_def dest!: parsePublishID_bounds 
      dest: parsePublishID_no_panic [THEN notE, rotated]
      split: sum.splits option.splits if_splits prod.splits)

lemma parsePublish_Inr:
  assumes "parsePublish flags body = Inr (m, pid)"
  shows "msgTopic m \<noteq> []" and "msgQoS m \<le> 1"
    and "msgTopic m = string_of (take (unat (uint16_of (take 2 body))) (drop 2 body))"
    and "\<exists>k. k \<le> length body \<and> msgPayload m = drop k body"
  using assms
  by (auto simp: parsePublish_def Let_def string_of_def not_less dest!: parsePublishID_bounds
      split: sum.splits option.splits if_splits prod.splits)

lemma varint_nonempty [simp]: "varint v \<noteq> []"
  by (cases "v < 128") (simp_all add: varint_small varint_step del: of_nat_mod)

lemma parseSuback_layout:
  assumes "length props < 2 ^ 28"
  shows "parseSuback (appendUint16 [] pid @ varint (length props) @ props @ reason # tail) = Inr (pid, reason)"
  using assms
  by (simp add: parseSuback_def parseVarIntBytes_varint slice_of_def slice_from_def Let_def nth_append)

lemma validateConnack_no_panic: "validateConnack body \<noteq> Inl IndexPanic"
  by (auto simp: validateConnack_def split: if_splits option.splits)

lemma validateConnack_ok_iff: "validateConnack body = Inr () \<longleftrightarrow> 3 \<le> length body \<and> body ! 1 = 0"
  by (auto simp: validateConnack_def)

section \<open>Streams of packets and of variable length integers\<close>

definition packetOf :: "byte \<times> byte \<times> bytes \<Rightarrow> bytes" where
  "packetOf = (\<lambda>(packetType, flags, body). makePacket (push_bit 4 packetType OR flags) body)"

definition packetValid :: "byte \<times> byte \<times> bytes \<Rightarrow> bool" where
  "packetValid = (\<lambda>(packetType, flags, body).
     packetType < 16 \<and> flags < 16 \<and> length body \<le> maxPacketSize)"

lemma less_16_bit: "w < (16 :: byte) \<Longrightarrow> bit w n \<Longrightarrow> n < 4"
  using less_mask_eq [of w 4] by (auto simp: bit_simps dest: arg_cong [where f = "\<lambda>v. bit v n"])

lemma header_fields:
  assumes "t < (16 :: byte)" "f < (16 :: byte)"
  shows "drop_bit 4 (push_bit 4 t OR f) = t" "(push_bit 4 t OR f) AND 15 = f"
proof -
  have m: "(15 :: byte) = mask 4" by (simp add: mask_eq_exp_minus_1)
  show "drop_bit 4 (push_bit 4 t OR f) = t"
    by (rule bit_eqI) (use assms in \<open>auto simp: bit_simps dest: less_16_bit bit_imp_le_length\<close>)
  show "(push_bit 4 t OR f) AND 15 = f"
    unfolding m by (rule bit_eqI) (use assms in \<open>auto simp: bit_simps dest: less_16_bit\<close>)
qed

interpretation packets: self_delimiting packetValid packetOf readPacket
proof unfold_locales
  fix x rest
  assume "packetValid x"
  then show "readPacket (packetOf x @ rest) = Inr (x, rest)"
    by (cases x) (simp add: packetValid_def packetOf_def readPacket_makePacket header_fields del: drop_bit_or)
qed

interpretation varints: self_delimiting "\<lambda>v. v < 2 ^ 28" varint readVarInt
  by unfold_locales (simp add: readVarInt_varint)

section \<open>Properties\<close>

text \<open>
  C11: What \<open>encodePublish\<close> produces for a QoS 0 or 1 message is read back by \<open>readPacket\<close> and
  \<open>parsePublish\<close> as the same topic, payload, QoS and retain flag (and, at QoS 1, the same packet
  identifier), with whatever follows on the stream left unread.
\<close>
theorem publish_roundtrip:
  assumes "encodePublish topic payload qos retain packetID = Inr packet"
    and "qos \<le> 1" and "length packet \<le> maxPacketSize"
  shows "\<exists>flags body. readPacket (packet @ rd) = Inr ((packetPUBLISH, flags, body), rd) \<and>
    parsePublish flags body =
      Inr (\<lparr>msgTopic = topic, msgPayload = payload, msgQoS = qos, msgRetain = retain\<rparr>,
           if qos = 1 then packetID else 0)"
proof -
  let ?h = "publishHeader qos retain" and ?b = "publishBody topic payload qos packetID"
  from assms(1) have t: "topic \<noteq> []" "length topic \<le> 65535" and p: "packet = makePacket ?h ?b"
    by (auto simp: encodePublish_eq split: if_splits)
  from p assms(3) have "length ?b \<le> maxPacketSize"
    by (simp add: makePacket_varint)
  then have "readPacket (packet @ rd) = Inr ((packetPUBLISH, ?h AND 15, ?b), rd)"
    by (simp add: p readPacket_makePacket publishHeader_fields [OF assms(2)])
  moreover have "parsePublish (?h AND 15) ?b =
      Inr (\<lparr>msgTopic = topic, msgPayload = payload, msgQoS = qos, msgRetain = retain\<rparr>,
           if qos = 1 then packetID else 0)"
    using parsePublish_body [OF assms(2) t publishHeader_fields(2) [OF assms(2)]]
    by (simp only: publishHeader_fields(3) [OF assms(2)])
  ultimately show ?thesis by blast
qed

theorem publish_roundtrip_witness:
  "\<exists>flags body. readPacket ([51, 11, 0, 3, 97, 47, 98, 0, 7, 0, 1, 2, 3] @ [208, 0]) =
       Inr ((packetPUBLISH, flags, body), [208, 0]) \<and>
     parsePublish flags body =
       Inr (\<lparr>msgTopic = ''a/b'', msgPayload = [1, 2, 3], msgQoS = 1, msgRetain = True\<rparr>,
            if (1 :: byte) = 1 then 7 else 0)"
proof (rule publish_roundtrip)
  show "encodePublish ''a/b'' [1, 2, 3] 1 True 7 =
      Inr [51, 11, 0, 3, 97, 47, 98, 0, 7, 0, 1, 2, 3]"
    by (simp add: encodePublish_eq makePacket_varint publishHeader_def publishBody_def
        packetPUBLISH_def appendUint16_def bytes_of_def varint_small)
qed (simp_all add: maxPacketSize_def)

text \<open>
  A variable length integer below \<open>2 ^ 28\<close> is read back exactly, with the rest of the
  stream untouched; a larger one, which \<open>appendVarInt\<close> writes in more than four bytes, is
  refused as malformed.
\<close>
theorem varint_roundtrip:
  "readVarInt (appendVarInt [] v @ rd) =
     (if v < 2 ^ 28 then Inr (v, rd) else Inl MalformedRemainingLength)"
  using readVarInt_varint [of v rd] by (simp only: varint_def)

text \<open>
  The two variable-integer parsers of the client, the one over the connection
  (\<open>readVarInt\<close>) and the one over a packet body (\<open>parseVarIntBytes\<close>), agree on every input:
  the same value, a count of consumed bytes that is what the reader took from the stream, and
  an error from one exactly when the other fails.
\<close>
theorem varint_parsers_agree:
  "parseVarIntBytes data =
     (case readVarInt data of
        Inr (v, rest) \<Rightarrow> Inr (v, length data - length rest)
      | Inl e \<Rightarrow> Inl (if e = EOF then UnexpectedEOF else MalformedVarInt))"
  using readVarIntLoop_error [of 4 0 1 data]
  by (cases "readVarInt data") (auto simp: parseVarIntBytes_read readVarInt_def)

text \<open>
  C4: Framing: \<open>readPacket\<close> recovers type nibble, flags and body of what \<open>makePacket\<close> framed
  for every body up to 64 MiB, and refuses a larger body, as too large or, from \<open>2 ^ 28\<close>
  bytes on, as malformed.
\<close>
theorem packet_framing:
  "readPacket (makePacket header body @ rd) =
     (if length body \<le> maxPacketSize then
        Inr ((drop_bit 4 header, header AND 15, body), rd)
      else if length body < 2 ^ 28 then Inl (PacketTooLarge (length body))
      else Inl MalformedRemainingLength)"
  by (rule readPacket_makePacket)

text \<open>
  C12: No input from the broker makes a parser of the client index or slice out of range:
  neither the packet reader nor the parsers of CONNACK, PUBLISH and SUBACK ever panic.
\<close>
theorem parsers_never_panic:
  "readPacket rd \<noteq> Inl IndexPanic \<and> validateConnack body \<noteq> Inl IndexPanic \<and>
   parsePublish flags body \<noteq> Inl IndexPanic \<and> parseSuback body \<noteq> Inl IndexPanic"
  by (simp add: readPacket_no_panic validateConnack_no_panic parsePublish_no_panic
      parseSuback_no_panic)

text \<open>
  A SUBACK laid out as MQTT 5 prescribes (packet identifier, properties of any content
  behind their length, reason code) is parsed to its identifier and its first reason code.
\<close>
theorem suback_parsed:
  assumes "length props < 2 ^ 28"
  shows "parseSuback (appendUint16 [] packetID @ appendVarInt [] (length props) @ props @
      reason # rest) = Inr (packetID, reason)"
  using parseSuback_layout [OF assms] by (simp only: varint_def)

theorem suback_parsed_witness:
  "parseSuback (appendUint16 [] 258 @ appendVarInt [] (length ([31, 0, 0] :: bytes)) @ [31, 0, 0] @
      128 # []) = Inr (258, 128)"
  by (rule suback_parsed) simp

text \<open>
  A stream of packets is read back in order: any list of framed packets followed by a
  tail the reader refuses is decoded to exactly those packets and the tail's error.
\<close>
theorem packet_stream_decoded:
  assumes "list_all packetValid packets" and "readPacket tail = Inl e" and "length packets < n"
  shows "decodeStream n readPacket (concat (map packetOf packets) @ tail) = (packets, Some e)"
  by (rule packets.decodeStream_enc [OF assms])

theorem packet_stream_decoded_witness:
  "decodeStream 3 readPacket
     (concat (map packetOf [(packetPINGRESP, 0, []), (packetPUBACK, 0, [1, 2])]) @ []) =
     ([(packetPINGRESP, 0, []), (packetPUBACK, 0, [1, 2])], Some EOF)"
  by (rule packet_stream_decoded)
    (simp_all add: packetValid_def byte_simps maxPacketSize_def readPacket_def)

end
