(* ===== verification/Wire_Spec.thy ===== *)
theory Wire_Spec
  imports Wire
begin

text \<open>
  A reference reader of CONNECT and SUBSCRIBE packets, written from the packet layout of
  MQTT 5 and independent of the encoder, and the proof that it reads back what
  \<open>encodeConnect\<close> and \<open>encodeSubscribe\<close> were given. The reader is a specification: it has
  no counterpart under \<open>src/\<close>, where only the client side of the protocol is implemented.
\<close>

section \<open>A reference reader of the packets the client sends\<close>

text \<open>What a broker reads, from the layout of MQTT 5 (sections 3.1 and 3.8).\<close>

fun takeField :: "bytes \<Rightarrow> (bytes \<times> bytes) option" where
  "takeField (hi # lo # rest) =
     (let n = unat (be16 hi lo)
      in if n \<le> length rest then Some (take n rest, drop n rest) else None)"
| "takeField _ = None"

fun takeProperties :: "bytes \<Rightarrow> bytes option" where
  "takeProperties bs =
     (case readVarInt bs of
        Inl _ \<Rightarrow> None
      | Inr (n, rest) \<Rightarrow> if n \<le> length rest then Some (drop n rest) else None)"

definition takeFieldIf :: "bool \<Rightarrow> bytes \<Rightarrow> (bytes option \<times> bytes) option" where
  "takeFieldIf present bs =
     (if present then map_option (\<lambda>(f, rest). (Some f, rest)) (takeField bs) else Some (None, bs))"

record Connect =
  protocolName :: bytes
  protocolLevel :: byte
  cleanStart :: bool
  keepAlive :: uint16
  clientID :: bytes
  willTopic :: "bytes option"
  willPayload :: "bytes option"
  willQoS :: byte
  willRetain :: bool
  username :: "bytes option"
  password :: "bytes option"

definition decodeConnectPayload ::
    "bytes \<Rightarrow> byte \<Rightarrow> byte \<Rightarrow> uint16 \<Rightarrow> bytes \<Rightarrow> Connect option" where
  "decodeConnectPayload name level flags ka bs =
     Option.bind (takeField bs) (\<lambda>(cid, bs).
     Option.bind (if bit flags 2 then takeProperties bs else Some bs) (\<lambda>bs.
     Option.bind (takeFieldIf (bit flags 2) bs) (\<lambda>(wt, bs).
     Option.bind (takeFieldIf (bit flags 2) bs) (\<lambda>(wp, bs).
     Option.bind (takeFieldIf (bit flags 7) bs) (\<lambda>(un, bs).
     Option.bind (takeFieldIf (bit flags 6) bs) (\<lambda>(pw, bs).
       if bs = [] then
         Some \<lparr>protocolName = name, protocolLevel = level, cleanStart = bit flags 1,
               keepAlive = ka, clientID = cid, willTopic = wt, willPayload = wp,
               willQoS = drop_bit 3 flags AND 3, willRetain = bit flags 5,
               username = un, password = pw\<rparr>
       else None))))))"

definition decodeConnect :: "bytes \<Rightarrow> Connect option" where
  "decodeConnect body =
     Option.bind (takeField body) (\<lambda>(name, bs).
       case bs of
         level # flags # hi # lo # bs \<Rightarrow>
           Option.bind (takeProperties bs) (decodeConnectPayload name level flags (be16 hi lo))
       | _ \<Rightarrow> None)"

lemma takeField_appendBinary [simp]:
  "length v \<le> 65535 \<Longrightarrow> takeField (appendBinary [] v @ rest) = Some (v, rest)"
  by (simp add: appendBinary_Nil appendUint16_def unat_of_nat_uint16)

lemma takeProperties_none [simp]: "takeProperties (0 # rest) = Some rest"
  using readVarInt_varint [of 0 rest] by (simp add: varint_small)

lemma takeFieldIf_appendBinary [simp]:
  "length v \<le> 65535 \<Longrightarrow> takeFieldIf True (appendBinary [] v @ rest) = Some (Some v, rest)"
  by (simp add: takeFieldIf_def)

lemma takeFieldIf_False [simp]: "takeFieldIf False bs = Some (None, bs)"
  by (simp add: takeFieldIf_def)

lemma byte_and_3_cases: "w AND 3 = 0 \<or> w AND 3 = 1 \<or> w AND 3 = 2 \<or> w AND 3 = (3::byte)"
proof -
  have "w AND 3 \<le> 3" by (rule word_and_le1)
  then show ?thesis by unat_arith
qed

lemma connectFlags_bits:
  "bit (connectFlags cfg) 1"
  "bit (connectFlags cfg) 2 \<longleftrightarrow> WillTopic cfg \<noteq> []"
  "bit (connectFlags cfg) 5 \<longleftrightarrow> WillTopic cfg \<noteq> [] \<and> WillRetain cfg"
  "bit (connectFlags cfg) 6 \<longleftrightarrow> Password cfg \<noteq> []"
  "bit (connectFlags cfg) 7 \<longleftrightarrow> Username cfg \<noteq> []"
  "drop_bit 3 (connectFlags cfg) AND 3 = (if WillTopic cfg \<noteq> [] then WillQoS cfg AND 3 else 0)"
  using byte_and_3_cases [of "WillQoS cfg"]
  by (auto simp: connectFlags_def Let_def bit_Suc simp del: push_bit_and push_bit_or)

definition connectPayload :: "Config \<Rightarrow> bytes" where
  "connectPayload cfg =
     appendBinary [] (bytes_of (ClientID cfg)) @
     (if WillTopic cfg \<noteq> [] then
        0 # appendBinary [] (bytes_of (WillTopic cfg)) @ appendBinary [] (WillPayload cfg) else []) @
     (if Username cfg \<noteq> [] then appendBinary [] (bytes_of (Username cfg)) else []) @
     (if Password cfg \<noteq> [] then appendBinary [] (bytes_of (Password cfg)) else [])"

definition connectBody :: "Config \<Rightarrow> bytes" where
  "connectBody cfg =
     appendBinary [] (bytes_of ''MQTT'') @ 5 # connectFlags cfg #
     appendUint16 [] (of_int (keepAliveSeconds cfg)) @ 0 # connectPayload cfg"

lemma encodeConnect_eq: "encodeConnect cfg = makePacket (push_bit 4 packetCONNECT) (connectBody cfg)"
  by (simp add: encodeConnect_def connectBody_def connectPayload_def Let_def appendUTF8_bytes
      appendBinary_def appendUint16_def)

definition connectFits :: "Config \<Rightarrow> bool" where
  "connectFits cfg \<longleftrightarrow>
     length (ClientID cfg) \<le> 65535 \<and> length (WillTopic cfg) \<le> 65535 \<and>
     length (WillPayload cfg) \<le> 65535 \<and> length (Username cfg) \<le> 65535 \<and>
     length (Password cfg) \<le> 65535"

definition connectView :: "Config \<Rightarrow> Connect" where
  "connectView cfg =
     \<lparr>protocolName = bytes_of ''MQTT'', protocolLevel = 5, cleanStart = True,
      keepAlive = of_int (keepAliveSeconds cfg), clientID = bytes_of (ClientID cfg),
      willTopic = (if WillTopic cfg \<noteq> [] then Some (bytes_of (WillTopic cfg)) else None),
      willPayload = (if WillTopic cfg \<noteq> [] then Some (WillPayload cfg) else None),
      willQoS = (if WillTopic cfg \<noteq> [] then WillQoS cfg AND 3 else 0),
      willRetain = (WillTopic cfg \<noteq> [] \<and> WillRetain cfg),
      username = (if Username cfg \<noteq> [] then Some (bytes_of (Username cfg)) else None),
      password = (if Password cfg \<noteq> [] then Some (bytes_of (Password cfg)) else None)\<rparr>"

lemma decodeConnectPayload_connectPayload:
  "connectFits cfg \<Longrightarrow>
   decodeConnectPayload (bytes_of ''MQTT'') 5 (connectFlags cfg) (of_int (keepAliveSeconds cfg))
     (connectPayload cfg) = Some (connectView cfg)"
  using takeFieldIf_appendBinary [of _ "[]"]
  by (simp add: decodeConnectPayload_def connectPayload_def connectView_def connectFits_def
      connectFlags_bits connectFlags_bits(1) [simplified] del: takeField.simps takeProperties.simps)

lemma decodeConnect_connectBody:
  "connectFits cfg \<Longrightarrow> decodeConnect (connectBody cfg) = Some (connectView cfg)"
  by (simp add: decodeConnect_def connectBody_def appendUint16_def decodeConnectPayload_connectPayload
      del: takeField.simps takeProperties.simps)

lemma length_connectBody: "connectFits cfg \<Longrightarrow> length (connectBody cfg) \<le> maxPacketSize"
  by (auto simp: connectBody_def connectPayload_def connectFits_def maxPacketSize_def)

lemma keepAliveSeconds_range: "1 \<le> keepAliveSeconds cfg \<and> keepAliveSeconds cfg \<le> 65535"
  by (simp add: keepAliveSeconds_def Let_def)

definition decodeSubscribe :: "bytes \<Rightarrow> (uint16 \<times> bytes \<times> byte) option" where
  "decodeSubscribe body =
     (case body of
        hi # lo # bs \<Rightarrow>
          Option.bind (takeProperties bs) (\<lambda>bs.
          Option.bind (takeField bs) (\<lambda>(filter, bs).
            case bs of [options] \<Rightarrow> Some (be16 hi lo, filter, options) | _ \<Rightarrow> None))
      | _ \<Rightarrow> None)"

lemma encodeSubscribe_eq:
  "encodeSubscribe topic qos pid =
     makePacket (push_bit 4 packetSUBSCRIBE OR 2)
       (appendUint16 [] pid @ 0 # appendBinary [] (bytes_of topic) @ [qos AND 3])"
  by (simp add: encodeSubscribe_def Let_def appendUTF8_bytes appendBinary_def appendUint16_def)

section \<open>Properties\<close>

text \<open>
  C13: A broker that reads the CONNECT packet by the layout of MQTT 5 recovers the whole
  configuration: protocol name and level, clean start, the keep-alive clamped to 1 to 65535
  seconds, client identifier, will and credentials, each present exactly when it is set,
  provided no field is longer than its 16-bit length prefix can say.
\<close>
theorem connect_roundtrip:
  assumes "connectFits cfg"
  shows "\<exists>body. readPacket (encodeConnect cfg @ rd) = Inr ((packetCONNECT, 0, body), rd) \<and>
    decodeConnect body = Some (connectView cfg)"
proof -
  have "drop_bit 4 (push_bit 4 packetCONNECT) = packetCONNECT" "push_bit 4 packetCONNECT AND 15 = 0"
    by (simp_all add: packetCONNECT_def)
  then show ?thesis
    using decodeConnect_connectBody [OF assms] length_connectBody [OF assms]
    by (simp add: encodeConnect_eq readPacket_makePacket)
qed

theorem connect_roundtrip_witness:
  "\<exists>body. readPacket (encodeConnect exampleConfig @ []) = Inr ((packetCONNECT, 0, body), []) \<and>
    decodeConnect body = Some (connectView exampleConfig)"
  by (rule connect_roundtrip) (simp add: connectFits_def exampleConfig_def)

text \<open>
  A broker that reads the SUBSCRIBE packet recovers packet identifier, topic filter and
  requested QoS, for every filter \<open>Subscribe\<close> lets through.
\<close>
theorem subscribe_roundtrip:
  assumes "length topic \<le> 65535" and "qos \<le> 1"
  shows "\<exists>body. readPacket (encodeSubscribe topic qos packetID @ rd) =
      Inr ((packetSUBSCRIBE, 2, body), rd) \<and>
    decodeSubscribe body = Some (packetID, bytes_of topic, qos)"
proof -
  have "drop_bit 4 (push_bit 4 packetSUBSCRIBE OR 2) = packetSUBSCRIBE"
    "(push_bit 4 packetSUBSCRIBE OR 2) AND 15 = (2 :: byte)"
    by (simp_all add: packetSUBSCRIBE_def)
  moreover have "qos AND 3 = qos"
    using byte_le_1_cases [OF assms(2)] by auto
  ultimately show ?thesis
    using assms(1)
    by (simp add: encodeSubscribe_eq readPacket_makePacket maxPacketSize_def decodeSubscribe_def
        appendUint16_def del: takeField.simps takeProperties.simps)
qed

theorem subscribe_roundtrip_witness:
  "\<exists>body. readPacket (encodeSubscribe ''a/#'' 1 9 @ []) = Inr ((packetSUBSCRIBE, 2, body), []) \<and>
    decodeSubscribe body = Some (9, bytes_of ''a/#'', 1)"
  by (rule subscribe_roundtrip) simp_all

end
