(* ===== verification/Client.thy ===== *)
theory Client
  imports Wire "HOL-Library.AList"
begin

text \<open>
  The connected MQTT client of \<open>internal/mqttclient/client.go\<close>: \<open>Publish\<close>, \<open>Subscribe\<close>,
  \<open>Disconnect\<close>, \<open>readLoop\<close>, \<open>pingLoop\<close>, \<open>writePacket\<close>, \<open>fail\<close> and \<open>nextPacketID\<close>, as one
  state and a step function over events.

  Goroutines interleave between the points where the code synchronises: a call of
  \<open>Publish\<close> is one event up to its connected check, one for taking an identifier and entering
  its channel into the map of pending acknowledgements, one for encoding and writing, one for
  the \<open>select\<close>, one for its deferred \<open>delete\<close>; \<open>fail\<close> is one event for each of its critical
  sections. Every order of these events is a run of the model. A call's channel \<open>ack\<close> is
  named by the number of the call; its buffer of one result is \<open>buffers\<close>.

  The environment chooses the events: what the broker sends, when a timer fires or a context
  ends, what \<open>conn.Write\<close> returns (the list of its results; when the list is used up the
  connection takes the rest of the packet).
\<close>

section \<open>State\<close>

datatype client_error =
    ErrNotConnected
  | UnsupportedQoS byte
  | InvalidSubscriptionTopic
  | UnsupportedSubscriptionQoS byte
  | PubackTimeout
  | SubackTimeout
  | CtxErr
  | PubackRejected byte
  | SubackRejected byte
  | WriteFailed
  | WriteZero
  | WireErr wire_error

datatype request =
    PublishReq string byte bool bytes
  | SubscribeReq string byte

text \<open>Where a call of \<open>Publish\<close> or \<open>Subscribe\<close> stands, with the identifier it took.\<close>

datatype phase =
    Checked
  | Registered "uint16 option"
  | Waiting uint16
  | Failing "uint16 option" client_error
  | Leaving "uint16 option" "client_error option"
  | Returned "uint16 option" "client_error option"

text \<open>How far \<open>fail\<close> has come: \<open>Open\<close> is before it, \<open>Done\<close> has \<open>close(c.done)\<close> behind it.\<close>

datatype fail_phase = Open | Marked | PendingFlushed | SubsFlushed | Done

datatype write_result = Wrote nat | WriteErr nat

type_synonym ackResult = "client_error option"

record Client =
  cfg :: Config
  connected :: bool
  failPhase :: fail_phase
  packetID :: uint32
  pending :: "(uint16 \<times> nat) list"
  subacks :: "(uint16 \<times> nat) list"
  buffers :: "nat \<Rightarrow> ackResult option"
  calls :: "nat \<Rightarrow> (request \<times> phase) option"
  sent :: bytes
  delivered :: "Message list"
  reading :: bool
  pinging :: bool

text \<open>The client that \<open>Dial\<close> returns.\<close>

definition newClient :: "Config \<Rightarrow> Client" where
  "newClient c =
     \<lparr>cfg = c, connected = True, failPhase = Open, packetID = 0, pending = [], subacks = [],
      buffers = (\<lambda>_. None), calls = (\<lambda>_. None), sent = [], delivered = [],
      reading = True, pinging = True\<rparr>"

section \<open>Packet identifiers\<close>

text \<open>
  \<open>c.packetID.Add(1)\<close> on a 32-bit counter, cut to 16 bits, until the result is not 0.
\<close>

lemma ucast_add_uint16: "(ucast (c + d :: uint32) :: uint16) = ucast c + ucast d"
  by (rule word_unat_eq_iff [THEN iffD2])
    (simp add: unat_word_ariths unsigned_ucast_eq take_bit_eq_mod mod_mod_cancel mod_simps)

lemma ucast_succ_uint16: "(ucast (c + 1 :: uint32) :: uint16) = ucast c + 1"
  by (simp add: ucast_add_uint16)

function nextPacketID :: "uint32 \<Rightarrow> uint16 \<times> uint32" where
  "nextPacketID counter =
     (let counter' = counter + 1;
          pid = (ucast counter' :: uint16)
      in if pid \<noteq> 0 then (pid, counter') else nextPacketID counter')"
  by pat_completeness auto
termination
  by (relation "measure (\<lambda>c. if (ucast (c + 1) :: uint16) = 0 then 1 else 0)")
    (auto simp: ucast_succ_uint16)

declare nextPacketID.simps [simp del]

section \<open>Failing and writing\<close>

text \<open>
  The first critical section of \<open>fail\<close>, under \<open>closeOnce\<close>: \<open>connected = false\<close>, the context is
  cancelled, the connection closed. A later call changes nothing.
\<close>

definition failMark :: "Client \<Rightarrow> Client" where
  "failMark c = (if failPhase c = Open then c\<lparr>connected := False, failPhase := Marked\<rparr> else c)"

text \<open>The non-blocking send on a channel of capacity 1: a full buffer keeps what it holds.\<close>

definition trySend :: "ackResult \<Rightarrow> nat \<Rightarrow> (nat \<Rightarrow> ackResult option) \<Rightarrow> (nat \<Rightarrow> ackResult option)" where
  "trySend r i bufs = (case bufs i of None \<Rightarrow> bufs(i := Some r) | Some _ \<Rightarrow> bufs)"

definition flushAcks ::
    "(uint16 \<times> nat) list \<Rightarrow> (nat \<Rightarrow> ackResult option) \<Rightarrow> (nat \<Rightarrow> ackResult option)" where
  "flushAcks m bufs = fold (\<lambda>(_, i). trySend (Some ErrNotConnected) i) m bufs"

text \<open>
  \<open>for written < len(packet)\<close>: the error the loop ends with and the bytes it put on the
  connection.
\<close>

fun writeLoop :: "write_result list \<Rightarrow> bytes \<Rightarrow> client_error option \<times> bytes" where
  "writeLoop results [] = (None, [])"
| "writeLoop [] rest = (None, rest)"
| "writeLoop (WriteErr n # results) rest = (Some WriteFailed, take n rest)"
| "writeLoop (Wrote n # results) rest =
     (if n = 0 then (Some WriteZero, [])
      else (let (e, out) = writeLoop results (drop n rest) in (e, take n rest @ out)))"

lemma writeLoop_all [simp]: "writeLoop [] rest = (None, rest)"
  by (cases rest) simp_all

definition writePacket ::
    "write_result list \<Rightarrow> bytes \<Rightarrow> Client \<Rightarrow> client_error option \<times> Client" where
  "writePacket results packet c =
     (if \<not> connected c then (Some ErrNotConnected, c)
      else (let (e, out) = writeLoop results packet in (e, c\<lparr>sent := sent c @ out\<rparr>)))"

section \<open>Publish and Subscribe\<close>

definition setPhase :: "nat \<Rightarrow> phase \<Rightarrow> Client \<Rightarrow> Client" where
  "setPhase i ph c = c\<lparr>calls := (calls c)(i := map_option (\<lambda>(r, _). (r, ph)) (calls c i))\<rparr>"

text \<open>Entry of a call: the connected check and the checks of the arguments, in the code's order.\<close>

definition requestCheck :: "Client \<Rightarrow> request \<Rightarrow> client_error option" where
  "requestCheck c r =
     (if \<not> connected c then Some ErrNotConnected
      else case r of
        PublishReq topic qos retain payload \<Rightarrow>
          if qos > 1 then Some (UnsupportedQoS qos) else None
      | SubscribeReq topic qos \<Rightarrow>
          if topic = [] \<or> length topic > 65535 then Some InvalidSubscriptionTopic
          else if qos > 1 then Some (UnsupportedSubscriptionQoS qos) else None)"

definition enterCall :: "nat \<Rightarrow> request \<Rightarrow> Client \<Rightarrow> Client" where
  "enterCall i r c =
     c\<lparr>calls := (calls c)(i \<mapsto>
        (r, case requestCheck c r of None \<Rightarrow> Checked | Some e \<Rightarrow> Returned None (Some e)))\<rparr>"

text \<open>
  A QoS 1 publish and every subscribe take an identifier and enter their channel, made
  empty, into the map; a QoS 0 publish does neither.
\<close>

definition registerCall :: "nat \<Rightarrow> request \<Rightarrow> Client \<Rightarrow> Client" where
  "registerCall i r c =
     (case r of
        PublishReq topic qos retain payload \<Rightarrow>
          if qos = 1 then
            (let (pid, counter) = nextPacketID (packetID c)
             in setPhase i (Registered (Some pid))
                  (c\<lparr>packetID := counter, buffers := (buffers c)(i := None),
                     pending := AList.update pid i (pending c)\<rparr>))
          else setPhase i (Registered None) c
      | SubscribeReq topic qos \<Rightarrow>
          (let (pid, counter) = nextPacketID (packetID c)
           in setPhase i (Registered (Some pid))
                (c\<lparr>packetID := counter, buffers := (buffers c)(i := None),
                   subacks := AList.update pid i (subacks c)\<rparr>)))"

definition requestPacket :: "request \<Rightarrow> uint16 option \<Rightarrow> wire_error + bytes" where
  "requestPacket r idOpt =
     (let pid = (case idOpt of None \<Rightarrow> 0 | Some pid \<Rightarrow> pid)
      in case r of
           PublishReq topic qos retain payload \<Rightarrow> encodePublish topic payload qos retain pid
         | SubscribeReq topic qos \<Rightarrow> Inr (encodeSubscribe topic qos pid))"

definition sendRequest ::
    "write_result list \<Rightarrow> nat \<Rightarrow> request \<Rightarrow> uint16 option \<Rightarrow> Client \<Rightarrow> Client" where
  "sendRequest results i r idOpt c =
     (case requestPacket r idOpt of
        Inl e \<Rightarrow> setPhase i (Leaving idOpt (Some (WireErr e))) c
      | Inr packet \<Rightarrow>
          (case writePacket results packet c of
             (Some e, c') \<Rightarrow> setPhase i (Failing idOpt e) (failMark c')
           | (None, c') \<Rightarrow>
               (case idOpt of
                  None \<Rightarrow> setPhase i (Leaving None None) c'
                | Some pid \<Rightarrow> setPhase i (Waiting pid) c')))"

text \<open>The deferred \<open>delete(c.pending, packetID)\<close> (\<open>c.subacks\<close>) of a call that took an identifier.\<close>

definition leaveCall :: "nat \<Rightarrow> request \<Rightarrow> uint16 option \<Rightarrow> ackResult \<Rightarrow> Client \<Rightarrow> Client" where
  "leaveCall i r idOpt res c =
     setPhase i (Returned idOpt res)
       (case (idOpt, r) of
          (None, _) \<Rightarrow> c
        | (Some pid, PublishReq _ _ _ _) \<Rightarrow> c\<lparr>pending := AList.delete pid (pending c)\<rparr>
        | (Some pid, SubscribeReq _ _) \<Rightarrow> c\<lparr>subacks := AList.delete pid (subacks c)\<rparr>)"

definition timeoutError :: "request \<Rightarrow> client_error" where
  "timeoutError r = (case r of PublishReq _ _ _ _ \<Rightarrow> PubackTimeout | SubscribeReq _ _ \<Rightarrow> SubackTimeout)"

section \<open>The read loop\<close>

text \<open>\<open>c.fail(err); return\<close> in \<open>readLoop\<close>.\<close>

definition stopReading :: "Client \<Rightarrow> Client" where
  "stopReading c = (failMark c)\<lparr>reading := False\<rparr>"

definition deliverAck :: "(uint16 \<times> nat) list \<Rightarrow> uint16 \<Rightarrow> ackResult \<Rightarrow> Client \<Rightarrow> Client" where
  "deliverAck m pid r c =
     (case map_of m pid of
        None \<Rightarrow> c
      | Some i \<Rightarrow> c\<lparr>buffers := trySend r i (buffers c)\<rparr>)"

definition pubackResult :: "bytes \<Rightarrow> ackResult" where
  "pubackResult body =
     (if length body \<ge> 3 \<and> body ! 2 \<ge> 128 then Some (PubackRejected (body ! 2)) else None)"

definition handlePuback :: "bytes \<Rightarrow> Client \<Rightarrow> Client" where
  "handlePuback body c =
     (if length body < 2 then stopReading c
      else deliverAck (pending c) (uint16_of (take 2 body)) (pubackResult body) c)"

definition handleSuback :: "bytes \<Rightarrow> Client \<Rightarrow> Client" where
  "handleSuback body c =
     (case parseSuback body of
        Inl e \<Rightarrow> stopReading c
      | Inr (pid, reason) \<Rightarrow>
          deliverAck (subacks c) pid (if reason \<ge> 128 then Some (SubackRejected reason) else None) c)"

definition handlePublish :: "write_result list \<Rightarrow> byte \<Rightarrow> bytes \<Rightarrow> Client \<Rightarrow> Client" where
  "handlePublish results flags body c =
     (case parsePublish flags body of
        Inl e \<Rightarrow> stopReading c
      | Inr (message, pid) \<Rightarrow>
          (case (if msgQoS message = 1 then writePacket results (encodePuback pid) c else (None, c)) of
             (Some e, c') \<Rightarrow> stopReading c'
           | (None, c') \<Rightarrow>
               if OnMessage (cfg c') then c'\<lparr>delivered := delivered c' @ [message]\<rparr> else c'))"

definition handlePacket ::
    "write_result list \<Rightarrow> byte \<times> byte \<times> bytes \<Rightarrow> Client \<Rightarrow> Client" where
  "handlePacket results p c =
     (case p of (packetType, flags, body) \<Rightarrow>
        if packetType = packetPUBACK then handlePuback body c
        else if packetType = packetPINGRESP then c
        else if packetType = packetSUBACK then handleSuback body c
        else if packetType = packetDISCONNECT then stopReading c
        else if packetType = packetPUBLISH then handlePublish results flags body c
        else c)"

section \<open>Steps\<close>

text \<open>
  \<^item> \<open>Enter i r\<close>, \<open>Register i\<close>, \<open>Send i ws\<close>: a call up to its \<open>select\<close>;
  \<^item> \<open>TakeAck i\<close>, \<open>Timeout i\<close>, \<open>CtxDone i\<close>, \<open>SeeDone i\<close>: the four cases of the \<open>select\<close>;
  \<^item> \<open>AfterFail i\<close>: a call whose write failed comes back from \<open>fail\<close>, which returns only
    when its body has run; \<open>Leave i\<close>: the deferred delete and the return;
  \<^item> \<open>Read ws p\<close>, \<open>ReadError\<close>: the read loop gets a packet or an error;
  \<^item> \<open>Ping ws\<close>, \<open>PingStop\<close>: a tick of the ping loop, its end;
  \<^item> \<open>DisconnectCall ws\<close>: \<open>Disconnect\<close> up to its wait for \<open>done\<close>;
  \<^item> \<open>FlushPending\<close>, \<open>FlushSubs\<close>, \<open>CloseDone\<close>: the rest of the body of \<open>fail\<close>.
\<close>

datatype event =
    Enter nat request
  | Register nat
  | Send nat "write_result list"
  | TakeAck nat
  | Timeout nat
  | CtxDone nat
  | SeeDone nat
  | AfterFail nat
  | Leave nat
  | Read "write_result list" "byte \<times> byte \<times> bytes"
  | ReadError
  | Ping "write_result list"
  | PingStop
  | DisconnectCall "write_result list"
  | FlushPending
  | FlushSubs
  | CloseDone

fun step :: "event \<Rightarrow> Client \<Rightarrow> Client option" where
  "step (Enter i r) c = (if calls c i = None then Some (enterCall i r c) else None)"
| "step (Register i) c =
     (case calls c i of Some (r, Checked) \<Rightarrow> Some (registerCall i r c) | _ \<Rightarrow> None)"
| "step (Send i results) c =
     (case calls c i of
        Some (r, Registered idOpt) \<Rightarrow> Some (sendRequest results i r idOpt c)
      | _ \<Rightarrow> None)"
| "step (TakeAck i) c =
     (case (calls c i, buffers c i) of
        (Some (r, Waiting pid), Some res) \<Rightarrow>
          Some (setPhase i (Leaving (Some pid) res) (c\<lparr>buffers := (buffers c)(i := None)\<rparr>))
      | _ \<Rightarrow> None)"
| "step (Timeout i) c =
     (case calls c i of
        Some (r, Waiting pid) \<Rightarrow> Some (setPhase i (Leaving (Some pid) (Some (timeoutError r))) c)
      | _ \<Rightarrow> None)"
| "step (CtxDone i) c =
     (case calls c i of
        Some (r, Waiting pid) \<Rightarrow> Some (setPhase i (Leaving (Some pid) (Some CtxErr)) c)
      | _ \<Rightarrow> None)"
| "step (SeeDone i) c =
     (case calls c i of
        Some (r, Waiting pid) \<Rightarrow>
          if failPhase c = Done
          then Some (setPhase i (Leaving (Some pid) (Some ErrNotConnected)) c) else None
      | _ \<Rightarrow> None)"
| "step (AfterFail i) c =
     (case calls c i of
        Some (r, Failing idOpt e) \<Rightarrow>
          if failPhase c = Done then Some (setPhase i (Leaving idOpt (Some e)) c) else None
      | _ \<Rightarrow> None)"
| "step (Leave i) c =
     (case calls c i of
        Some (r, Leaving idOpt res) \<Rightarrow> Some (leaveCall i r idOpt res c)
      | _ \<Rightarrow> None)"
| "step (Read results p) c = (if reading c then Some (handlePacket results p c) else None)"
| "step ReadError c = (if reading c then Some (stopReading c) else None)"
| "step (Ping results) c =
     (if pinging c then
        (case writePacket results pingreqPacket c of
           (Some e, c') \<Rightarrow> Some ((failMark c')\<lparr>pinging := False\<rparr>)
         | (None, c') \<Rightarrow> Some c')
      else None)"
| "step PingStop c = (if pinging c \<and> failPhase c \<noteq> Open then Some (c\<lparr>pinging := False\<rparr>) else None)"
| "step (DisconnectCall results) c =
     Some (failMark (snd (writePacket results disconnectPacket c)))"
| "step FlushPending c =
     (if failPhase c = Marked
      then Some (c\<lparr>buffers := flushAcks (pending c) (buffers c), pending := [],
                   failPhase := PendingFlushed\<rparr>)
      else None)"
| "step FlushSubs c =
     (if failPhase c = PendingFlushed
      then Some (c\<lparr>buffers := flushAcks (subacks c) (buffers c), subacks := [],
                   failPhase := SubsFlushed\<rparr>)
      else None)"
| "step CloseDone c =
     (if failPhase c = SubsFlushed then Some (c\<lparr>failPhase := Done\<rparr>) else None)"

fun run :: "event list \<Rightarrow> Client \<Rightarrow> Client option" where
  "run [] c = Some c"
| "run (e # es) c = (case step e c of None \<Rightarrow> None | Some c' \<Rightarrow> run es c')"

section \<open>Packet identifiers: never 0, all distinct over a full cycle\<close>

definition nextID :: "uint16 \<Rightarrow> uint16" where
  "nextID i = (if i + 1 = 0 then 1 else i + 1)"

lemma nextPacketID_low:
  "fst (nextPacketID c) = nextID (ucast c)"
  "(ucast (snd (nextPacketID c)) :: uint16) = nextID (ucast c)"
proof -
  have "fst (nextPacketID c) = nextID (ucast c) \<and>
      (ucast (snd (nextPacketID c)) :: uint16) = nextID (ucast c)"
  proof (cases "(ucast c :: uint16) + 1 = 0")
    case False
    then show ?thesis
      by (simp add: nextPacketID.simps [of c] ucast_succ_uint16 nextID_def Let_def)
  next
    case True
    define d where "d = c + 1"
    from True have d: "(ucast d :: uint16) = 0"
      by (simp add: d_def ucast_succ_uint16)
    then have d1: "(ucast (d + 1) :: uint16) = 1"
      using ucast_succ_uint16 [of d] by simp
    have "nextPacketID c = nextPacketID d"
      using d by (simp add: nextPacketID.simps [of c] flip: d_def)
    moreover have "nextPacketID d = (1, d + 1)"
      using d1 by (simp add: nextPacketID.simps [of d])
    ultimately show ?thesis using True d1 by (simp add: nextID_def)
  qed
  then show "fst (nextPacketID c) = nextID (ucast c)"
    and "(ucast (snd (nextPacketID c)) :: uint16) = nextID (ucast c)" by simp_all
qed

lemma nextID_nonzero: "nextID i \<noteq> 0"
  by (simp add: nextID_def)

lemma nextID_cycle:
  assumes "i \<noteq> 0"
  shows "unat (nextID i) - 1 = (unat i - 1 + 1) mod 65535"
proof -
  have u: "unat i < 65536" "unat i \<noteq> 0"
    using unsigned_less [of i] assms by (simp_all add: unat_eq_0)
  show ?thesis
  proof (cases "unat i = 65535")
    case True
    then have "i + 1 = 0"
      by (simp add: word_unat_eq_iff unat_word_ariths)
    with True show ?thesis by (simp add: nextID_def)
  next
    case False
    with u have "unat (i + 1) = unat i + 1"
      by (simp add: unat_word_ariths)
    moreover from this have "i + 1 \<noteq> 0"
      by (metis add_is_0 one_neq_zero unat_0)
    ultimately show ?thesis
      using u False by (simp add: nextID_def)
  qed
qed

text \<open>The identifiers of \<open>n\<close> calls in a row.\<close>

fun packetIDs :: "nat \<Rightarrow> uint32 \<Rightarrow> uint16 list" where
  "packetIDs 0 c = []"
| "packetIDs (Suc n) c = (let (pid, c') = nextPacketID c in pid # packetIDs n c')"

lemma packetIDs_cycle:
  assumes "(ucast c :: uint16) \<noteq> 0" "k < n"
  shows "unat (packetIDs n c ! k) - 1 = (unat (ucast c :: uint16) + k) mod 65535 \<and> packetIDs n c ! k \<noteq> 0"
  using assms
proof (induction n arbitrary: c k)
  case 0
  then show ?case by simp
next
  case (Suc n)
  obtain pid c' where n: "nextPacketID c = (pid, c')" by (cases "nextPacketID c")
  then have pid: "pid = nextID (ucast c)" and c': "(ucast c' :: uint16) = nextID (ucast c)"
    using nextPacketID_low [of c] by simp_all
  have pos: "unat (ucast c :: uint16) \<noteq> 0"
    using Suc.prems(1) by (simp add: unat_eq_0)
  have cyc: "unat (nextID (ucast c)) - 1 = unat (ucast c :: uint16) mod 65535"
    using nextID_cycle [OF Suc.prems(1)] pos by simp
  show ?case
  proof (cases k)
    case 0
    with n pid cyc nextID_nonzero show ?thesis by simp
  next
    case (Suc j)
    have nz: "unat (nextID (ucast c)) \<noteq> 0"
      using nextID_nonzero by (simp add: unat_eq_0)
    have "unat (packetIDs n c' ! j) - 1 = (unat (ucast c' :: uint16) + j) mod 65535
        \<and> packetIDs n c' ! j \<noteq> 0"
      using Suc.prems(2) Suc nextID_nonzero c' by (intro Suc.IH) simp_all
    moreover have "(unat (nextID (ucast c)) + j) mod 65535 = (unat (ucast c :: uint16) + k) mod 65535"
      using cyc nz Suc by (metis (no_types, lifting) Suc_pred' add_Suc_right add_Suc mod_add_left_eq not_gr_zero One_nat_def)
    ultimately show ?thesis using n Suc c' by simp
  qed
qed

lemma length_packetIDs [simp]: "length (packetIDs n c) = n"
  by (induction n arbitrary: c) (auto split: prod.split)

lemma distinct_packetIDs:
  assumes "n \<le> 65535"
  shows "distinct (packetIDs n c)"
proof -
  have from_nonzero: "distinct (packetIDs n c)" if "(ucast c :: uint16) \<noteq> 0" "n \<le> 65535" for n c
  proof (rule distinct_conv_nth [THEN iffD2], intro allI impI)
    fix i j assume ij: "i < length (packetIDs n c)" "j < length (packetIDs n c)" "i \<noteq> j"
    have "(unat (ucast c :: uint16) + i) mod 65535 \<noteq> (unat (ucast c :: uint16) + j) mod 65535"
    proof
      assume "(unat (ucast c :: uint16) + i) mod 65535 = (unat (ucast c :: uint16) + j) mod 65535"
      then obtain p q where "i + 65535 * p = j + 65535 * q"
        by (auto simp: nat_mod_eq_iff)
      then have "(i + 65535 * p) mod 65535 = (j + 65535 * q) mod 65535"
        by simp
      with ij that(2) show False by simp
    qed
    then show "packetIDs n c ! i \<noteq> packetIDs n c ! j"
      using packetIDs_cycle [OF that(1), of i n] packetIDs_cycle [OF that(1), of j n] ij by auto
  qed
  show ?thesis
  proof (cases "n = 0 \<or> (ucast c :: uint16) \<noteq> 0")
    case True
    with assms from_nonzero show ?thesis by auto
  next
    case False
    then obtain m where m: "n = Suc m" by (cases n) auto
    obtain pid c' where n: "nextPacketID c = (pid, c')" by (cases "nextPacketID c")
    with nextPacketID_low [of c] False have one: "pid = 1" "(ucast c' :: uint16) = 1"
      by (simp_all add: nextID_def)
    have "pid \<notin> set (packetIDs m c')"
    proof
      assume "pid \<in> set (packetIDs m c')"
      then obtain k where k: "k < m" "packetIDs m c' ! k = 1"
        by (auto simp: in_set_conv_nth one)
      with packetIDs_cycle [of c' k m] one assms m show False by simp
    qed
    with n m one assms from_nonzero [of c' m] show ?thesis by simp
  qed
qed

section \<open>Writing\<close>

lemma writeLoop_prefix: "\<exists>rest. packet = snd (writeLoop results packet) @ rest"
proof (induction results packet rule: writeLoop.induct)
  case (4 n results b bs)
  show ?case
  proof (cases "n = 0")
    case False
    with 4 obtain rest where "drop n (b # bs) = snd (writeLoop results (drop n (b # bs))) @ rest"
      by blast
    with False show ?thesis
      by (auto simp: split_beta intro!: exI [of _ rest] simp del: drop.simps take.simps)
  qed simp
next
  case (3 n results b bs)
  show ?case by (auto intro!: exI [of _ "drop n (b # bs)"] simp del: take.simps drop.simps)
qed simp_all

lemma writeLoop_complete: "fst (writeLoop results packet) = None \<Longrightarrow> snd (writeLoop results packet) = packet"
  by (induction results packet rule: writeLoop.induct)
    (auto simp: split_beta split: if_splits simp del: take.simps drop.simps)

lemma writePacket_sent:
  "writePacket results packet c = (e, c') \<Longrightarrow> \<exists>out. c' = c\<lparr>sent := sent c @ out\<rparr>"
  by (cases "connected c") (auto simp: writePacket_def split: prod.splits intro: exI [of _ "[]"])

lemma writePacket_ok:
  "writePacket results packet c = (None, c') \<Longrightarrow> connected c \<and> sent c' = sent c @ packet"
  using writeLoop_complete [of results packet]
  by (auto simp: writePacket_def split: if_splits prod.splits)

section \<open>Runs\<close>

lemma run_append: "run (es @ fs) c = (case run es c of None \<Rightarrow> None | Some c' \<Rightarrow> run fs c')"
  by (induction es arbitrary: c) (auto split: option.splits)

lemma run_snoc: "run (es @ [e]) c = Some d \<longleftrightarrow> (\<exists>c'. run es c = Some c' \<and> step e c' = Some d)"
  by (auto simp: run_append split: option.splits)

fun phase_id :: "phase \<Rightarrow> uint16 option" where
  "phase_id Checked = None"
| "phase_id (Registered p) = p"
| "phase_id (Waiting p) = Some p"
| "phase_id (Failing p e) = p"
| "phase_id (Leaving p r) = p"
| "phase_id (Returned p r) = p"

fun phase_ok :: "phase \<Rightarrow> bool" where
  "phase_ok (Leaving (Some p) None) = True"
| "phase_ok (Returned (Some p) None) = True"
| "phase_ok _ = False"

fun phase_written :: "phase \<Rightarrow> bool" where
  "phase_written (Waiting p) = True"
| "phase_written ph = phase_ok ph"

fun is_publish :: "request \<Rightarrow> bool" where
  "is_publish (PublishReq _ _ _ _) = True"
| "is_publish (SubscribeReq _ _) = False"

text \<open>
  An acknowledgement with identifier \<open>pid\<close> and no error reason was read, after the call had
  registered.
\<close>

definition acked :: "event list \<Rightarrow> request \<Rightarrow> nat \<Rightarrow> uint16 \<Rightarrow> bool" where
  "acked es r i pid \<longleftrightarrow>
     (\<exists>before ws flags body after.
        es = before @ (if is_publish r then Read ws (packetPUBACK, flags, body)
                       else Read ws (packetSUBACK, flags, body)) # after \<and>
        Register i \<in> set before \<and>
        (if is_publish r then 2 \<le> length body \<and> uint16_of (take 2 body) = pid \<and> pubackResult body = None
         else \<exists>reason. parseSuback body = Inr (pid, reason) \<and> reason < 128))"

definition written :: "Client \<Rightarrow> request \<Rightarrow> uint16 \<Rightarrow> bool" where
  "written c r pid \<longleftrightarrow>
     (\<exists>packet before after. requestPacket r (Some pid) = Inr packet \<and> sent c = before @ packet @ after)"

definition call_inv :: "event list \<Rightarrow> Client \<Rightarrow> nat \<Rightarrow> bool" where
  "call_inv es c i \<longleftrightarrow>
     (\<forall>r ph pid. calls c i = Some (r, ph) \<longrightarrow> phase_id ph = Some pid \<longrightarrow>
        Register i \<in> set es \<and>
        (buffers c i = Some None \<longrightarrow> acked es r i pid) \<and>
        (phase_ok ph \<longrightarrow> acked es r i pid) \<and>
        (phase_written ph \<longrightarrow> written c r pid))"

definition maps_inv :: "Client \<Rightarrow> bool" where
  "maps_inv c \<longleftrightarrow>
     (\<forall>pid i. map_of (pending c) pid = Some i \<longrightarrow>
        (\<exists>r ph. calls c i = Some (r, ph) \<and> is_publish r \<and> phase_id ph = Some pid)) \<and>
     (\<forall>pid i. map_of (subacks c) pid = Some i \<longrightarrow>
        (\<exists>r ph. calls c i = Some (r, ph) \<and> \<not> is_publish r \<and> phase_id ph = Some pid))"

definition inv :: "event list \<Rightarrow> Client \<Rightarrow> bool" where
  "inv es c \<longleftrightarrow> maps_inv c \<and> (\<forall>i. call_inv es c i)"

lemma acked_mono: "acked es r i pid \<Longrightarrow> acked (es @ fs) r i pid"
  unfolding acked_def by (metis append.assoc append_Cons)

lemma written_mono: "written c r pid \<Longrightarrow> sent c' = sent c @ x \<Longrightarrow> written c' r pid"
  unfolding written_def by (metis append.assoc)

lemma call_inv_frame:
  assumes "call_inv es c i" "calls c' i = calls c i" "\<exists>x. sent c' = sent c @ x"
    and "buffers c' i = Some None \<Longrightarrow> buffers c i = Some None"
  shows "call_inv (es @ [e]) c' i"
  using assms unfolding call_inv_def by (auto intro: acked_mono written_mono)


text \<open>Steps that move no call, and steps that move one call to a phase with the same identifier.\<close>

definition quiet :: "Client \<Rightarrow> Client \<Rightarrow> bool" where
  "quiet c c' \<longleftrightarrow>
     calls c' = calls c \<and> (\<exists>x. sent c' = sent c @ x) \<and>
     (\<forall>j. buffers c' j = Some None \<longrightarrow> buffers c j = Some None) \<and>
     map_of (pending c') \<subseteq>\<^sub>m map_of (pending c) \<and> map_of (subacks c') \<subseteq>\<^sub>m map_of (subacks c)"

lemma quiet_maps_inv: "quiet c c' \<Longrightarrow> maps_inv c \<Longrightarrow> maps_inv c'"
  unfolding quiet_def maps_inv_def map_le_def by (metis domI)

lemma quiet_call_inv: "quiet c c' \<Longrightarrow> call_inv es c j \<Longrightarrow> call_inv (es @ [e]) c' j"
  by (rule call_inv_frame [where c = c]) (auto simp: quiet_def)

lemma inv_quiet: "inv es c \<Longrightarrow> quiet c c' \<Longrightarrow> inv (es @ [e]) c'"
  by (simp add: inv_def quiet_maps_inv quiet_call_inv)

lemma setPhase_fields [simp]:
  "sent (setPhase i ph c) = sent c" "buffers (setPhase i ph c) = buffers c"
  "pending (setPhase i ph c) = pending c" "subacks (setPhase i ph c) = subacks c"
  "calls (setPhase i ph c) j =
     (if j = i then map_option (\<lambda>(r, _). (r, ph)) (calls c i) else calls c j)"
  "failPhase (setPhase i ph c) = failPhase c" "connected (setPhase i ph c) = connected c"
  "delivered (setPhase i ph c) = delivered c" "cfg (setPhase i ph c) = cfg c"
  by (simp_all add: setPhase_def)

lemma inv_move:
  assumes "inv es c" "calls c i = Some (r, ph)" "quiet c c'" "phase_id ph' = phase_id ph"
    and "\<And>pid. phase_id ph = Some pid \<Longrightarrow> phase_ok ph' \<Longrightarrow> acked es r i pid"
    and "\<And>pid. phase_id ph = Some pid \<Longrightarrow> phase_written ph' \<Longrightarrow> written c' r pid"
  shows "inv (es @ [e]) (setPhase i ph' c')"
proof -
  have m: "maps_inv c'" and ci: "calls c' i = Some (r, ph)"
    using assms(1,2,3) quiet_maps_inv by (auto simp: inv_def quiet_def)
  have "maps_inv (setPhase i ph' c')"
    using m ci assms(4) unfolding maps_inv_def by (auto split: if_splits) (metis prod.inject option.inject)+
  moreover have "call_inv (es @ [e]) (setPhase i ph' c') j" for j
  proof (cases "j = i")
    case True
    have "call_inv es c i" using assms(1) by (simp add: inv_def)
    with True ci assms(2-6) show ?thesis
      by (auto simp: call_inv_def quiet_def intro: acked_mono) (auto simp: written_def)
  next
    case False
    have "call_inv es c j" using assms(1) by (simp add: inv_def)
    with False assms(3) show ?thesis
      by (auto intro!: call_inv_frame simp: quiet_def)
  qed
  ultimately show ?thesis by (simp add: inv_def)
qed


text \<open>Which operations are quiet.\<close>

lemma quiet_refl [simp]: "quiet c c"
  by (auto simp: quiet_def intro: exI [of _ "[]"])

lemma quiet_trans: "quiet a b \<Longrightarrow> quiet b c \<Longrightarrow> quiet a c"
  by (auto simp: quiet_def intro: map_le_trans)

lemma quiet_writePacket: "writePacket results packet c = (e, c') \<Longrightarrow> quiet c c'"
  by (auto dest!: writePacket_sent simp: quiet_def)

lemma quiet_failMark [simp]: "quiet c (failMark c') \<longleftrightarrow> quiet c c'"
  by (simp add: quiet_def failMark_def)

lemma quiet_stopReading [simp]: "quiet c (stopReading c') \<longleftrightarrow> quiet c c'"
  by (simp add: quiet_def stopReading_def failMark_def)

lemma quiet_fields [simp]:
  "quiet c (c'\<lparr>reading := b\<rparr>) \<longleftrightarrow> quiet c c'"
  "quiet c (c'\<lparr>pinging := b\<rparr>) \<longleftrightarrow> quiet c c'"
  "quiet c (c'\<lparr>failPhase := ph\<rparr>) \<longleftrightarrow> quiet c c'"
  "quiet c (c'\<lparr>delivered := ms\<rparr>) \<longleftrightarrow> quiet c c'"
  by (simp_all add: quiet_def)

lemma trySend_None: "trySend r i bufs j = Some None \<Longrightarrow> bufs j = Some None \<or> j = i \<and> r = None"
  by (auto simp: trySend_def split: option.splits if_splits)

lemma flushAcks_None: "flushAcks m bufs j = Some None \<Longrightarrow> bufs j = Some None"
  unfolding flushAcks_def
  by (induction m arbitrary: bufs) (auto dest!: trySend_None)

lemma quiet_handlePublish: "quiet c (handlePublish results flags body c)"
  unfolding handlePublish_def
  by (auto split: sum.splits option.splits prod.splits if_splits dest: quiet_writePacket)

lemma quiet_ack_error: "r \<noteq> None \<Longrightarrow> quiet c (deliverAck m pid r c)"
  by (auto simp: deliverAck_def quiet_def split: option.splits dest!: trySend_None intro: exI [of _ "[]"])

lemma quiet_flush:
  "quiet c (c\<lparr>buffers := flushAcks m (buffers c), pending := []\<rparr>)"
  "quiet c (c\<lparr>buffers := flushAcks m (buffers c), subacks := []\<rparr>)"
  by (auto simp: quiet_def dest: flushAcks_None intro: exI [of _ "[]"])

text \<open>The acknowledgement that lets a call succeed.\<close>

lemma inv_deliverAck:
  assumes inv: "inv es c"
    and m: "publish \<and> m = pending c \<or> \<not> publish \<and> m = subacks c"
    and ack: "\<And>i r. Register i \<in> set es \<Longrightarrow> is_publish r = publish \<Longrightarrow> acked (es @ [e]) r i pid"
  shows "inv (es @ [e]) (deliverAck m pid None c)"
proof (cases "map_of m pid")
  case None
  with inv show ?thesis by (simp add: deliverAck_def inv_quiet)
next
  case (Some i)
  let ?c = "c\<lparr>buffers := trySend None i (buffers c)\<rparr>"
  have maps: "maps_inv c" using inv by (simp add: inv_def)
  obtain r ph where ci: "calls c i = Some (r, ph)" "phase_id ph = Some pid" "is_publish r = publish"
    using m Some maps unfolding maps_inv_def by metis
  have "Register i \<in> set es"
    using inv ci by (auto simp: inv_def call_inv_def)
  with ci ack have ack: "acked (es @ [e]) r i pid" by simp
  have "call_inv (es @ [e]) ?c j" for j
  proof (cases "j = i")
    case True
    have "call_inv es c i" using inv by (simp add: inv_def)
    with True ci ack show ?thesis
      by (auto simp: call_inv_def written_def intro: acked_mono)
  next
    case False
    have "call_inv es c j" using inv by (simp add: inv_def)
    with False show ?thesis
      by (auto intro!: call_inv_frame [where c = c] dest: trySend_None intro: exI [of _ "[]"])
  qed
  moreover have "maps_inv ?c" using maps by (simp add: maps_inv_def)
  ultimately show ?thesis using Some by (simp add: deliverAck_def inv_def)
qed

lemma acked_puback:
  "Register i \<in> set es \<Longrightarrow> is_publish r \<Longrightarrow> 2 \<le> length body \<Longrightarrow> pubackResult body = None \<Longrightarrow>
   acked (es @ [Read ws (packetPUBACK, flags, body)]) r i (uint16_of (take 2 body))"
  unfolding acked_def
  by (rule exI [of _ es], rule exI [of _ ws], rule exI [of _ flags], rule exI [of _ body],
      rule exI [of _ "[]"]) simp

lemma acked_suback:
  "Register i \<in> set es \<Longrightarrow> \<not> is_publish r \<Longrightarrow> parseSuback body = Inr (pid, reason) \<Longrightarrow> reason < 128 \<Longrightarrow>
   acked (es @ [Read ws (packetSUBACK, flags, body)]) r i pid"
  unfolding acked_def
  by (rule exI [of _ es], rule exI [of _ ws], rule exI [of _ flags], rule exI [of _ body],
      rule exI [of _ "[]"]) simp

lemma inv_handlePuback:
  assumes "inv es c"
  shows "inv (es @ [Read ws (packetPUBACK, flags, body)]) (handlePuback body c)"
proof (cases "2 \<le> length body \<and> pubackResult body = None")
  case True
  with assms show ?thesis
    by (auto simp: handlePuback_def intro!: inv_deliverAck [where publish = True] acked_puback)
next
  case False
  with assms show ?thesis
    by (auto simp: handlePuback_def intro!: inv_quiet quiet_ack_error)
qed

lemma inv_handleSuback:
  assumes "inv es c"
  shows "inv (es @ [Read ws (packetSUBACK, flags, body)]) (handleSuback body c)"
proof (cases "parseSuback body")
  case (Inl e)
  with assms show ?thesis by (simp add: handleSuback_def inv_quiet)
next
  case (Inr p)
  obtain pid reason where p: "p = (pid, reason)" by (cases p)
  show ?thesis
  proof (cases "reason < 128")
    case True
    with assms Inr p show ?thesis
      by (auto simp: handleSuback_def intro!: inv_deliverAck [where publish = False] acked_suback)
  next
    case False
    with assms Inr p show ?thesis
      by (auto simp: handleSuback_def intro!: inv_quiet quiet_ack_error)
  qed
qed

lemma inv_handlePacket:
  assumes "inv es c"
  shows "inv (es @ [Read ws p]) (handlePacket ws p c)"
proof -
  obtain t flags body where p: "p = (t, flags, body)" by (cases p)
  have "packetPUBACK \<noteq> packetSUBACK" "packetSUBACK \<noteq> packetPINGRESP" by (simp_all add: byte_simps)
  then show ?thesis
    using assms
    by (auto simp: handlePacket_def p inv_handlePuback inv_handleSuback intro!: inv_quiet quiet_handlePublish)
qed


text \<open>Entering, registering, sending and leaving.\<close>

lemma inv_enterCall:
  assumes "inv es c" "calls c i = None"
  shows "inv (es @ [e]) (enterCall i r c)"
proof -
  have m: "maps_inv c" using assms by (simp add: inv_def)
  have fresh: "map_of (pending c) pid \<noteq> Some i" "map_of (subacks c) pid \<noteq> Some i" for pid
    using m assms(2) unfolding maps_inv_def by (metis option.distinct(1))+
  have "maps_inv (enterCall i r c)"
    using m fresh unfolding maps_inv_def by (auto simp: enterCall_def)
  moreover have "call_inv (es @ [e]) (enterCall i r c) j" for j
  proof (cases "j = i")
    case True
    then show ?thesis by (auto simp: call_inv_def enterCall_def split: option.splits)
  next
    case False
    with assms show ?thesis
      by (intro call_inv_frame [where c = c]) (auto simp: inv_def enterCall_def)
  qed
  ultimately show ?thesis by (simp add: inv_def)
qed

lemma registerCall_other:
  "j \<noteq> i \<Longrightarrow> calls (registerCall i r c) j = calls c j"
  "j \<noteq> i \<Longrightarrow> buffers (registerCall i r c) j = buffers c j"
  "sent (registerCall i r c) = sent c"
  by (auto simp: registerCall_def split: request.splits prod.splits)

lemma registerCall_own:
  assumes "calls c i = Some (r, ph)"
  shows "\<exists>idOpt. calls (registerCall i r c) i = Some (r, Registered idOpt) \<and>
    (idOpt \<noteq> None \<longrightarrow> buffers (registerCall i r c) i = None) \<and>
    map_of (pending (registerCall i r c)) =
      (case idOpt of Some pid \<Rightarrow> if is_publish r then (map_of (pending c))(pid \<mapsto> i) else map_of (pending c)
       | None \<Rightarrow> map_of (pending c)) \<and>
    map_of (subacks (registerCall i r c)) =
      (case idOpt of Some pid \<Rightarrow> if is_publish r then map_of (subacks c) else (map_of (subacks c))(pid \<mapsto> i)
       | None \<Rightarrow> map_of (subacks c))"
  using assms by (auto simp: registerCall_def update_conv' split: request.splits prod.splits)

lemma inv_registerCall:
  assumes inv: "inv es c" and ci: "calls c i = Some (r, Checked)"
  shows "inv (es @ [Register i]) (registerCall i r c)"
proof -
  let ?c = "registerCall i r c"
  obtain idOpt where own: "calls ?c i = Some (r, Registered idOpt)"
    "idOpt \<noteq> None \<longrightarrow> buffers ?c i = None"
    "map_of (pending ?c) =
      (case idOpt of Some pid \<Rightarrow> if is_publish r then (map_of (pending c))(pid \<mapsto> i) else map_of (pending c)
       | None \<Rightarrow> map_of (pending c))"
    "map_of (subacks ?c) =
      (case idOpt of Some pid \<Rightarrow> if is_publish r then map_of (subacks c) else (map_of (subacks c))(pid \<mapsto> i)
       | None \<Rightarrow> map_of (subacks c))"
    using registerCall_own [OF ci] by blast
  have old: "map_of (pending c) pid = Some j \<Longrightarrow> j \<noteq> i" "map_of (subacks c) pid = Some j \<Longrightarrow> j \<noteq> i" for pid j
    using inv ci by (fastforce simp: inv_def maps_inv_def)+
  have "maps_inv ?c"
    using inv own(1) old registerCall_other(1) [of _ i r c] unfolding maps_inv_def own(3,4) inv_def
    by (auto split: option.splits if_splits)
  moreover have "call_inv (es @ [Register i]) ?c j" for j
  proof (cases "j = i")
    case True
    with own show ?thesis by (auto simp: call_inv_def)
  next
    case False
    with inv show ?thesis
      by (intro call_inv_frame [where c = c]) (auto simp: inv_def registerCall_other)
  qed
  ultimately show ?thesis by (simp add: inv_def)
qed

lemma inv_sendRequest:
  assumes inv: "inv es c" and ci: "calls c i = Some (r, Registered idOpt)"
  shows "inv (es @ [e]) (sendRequest results i r idOpt c)"
proof (cases "requestPacket r idOpt")
  case (Inl err)
  with inv ci show ?thesis
    by (auto simp: sendRequest_def intro!: inv_move)
next
  case (Inr packet)
  obtain err c' where w: "writePacket results packet c = (err, c')" by (cases "writePacket results packet c")
  show ?thesis
  proof (cases err)
    case (Some x)
    with inv ci Inr w show ?thesis
      by (auto simp: sendRequest_def intro!: inv_move dest: quiet_writePacket)
  next
    case None
    then have "sent c' = sent c @ packet @ []" using writePacket_ok w by auto
    then have "idOpt = Some pid \<Longrightarrow> written c' r pid" for pid
      using Inr unfolding written_def by blast
    with None inv ci Inr w show ?thesis
      by (auto simp: sendRequest_def split: option.splits intro!: inv_move dest: quiet_writePacket)
  qed
qed

lemma inv_leaveCall:
  assumes "inv es c" "calls c i = Some (r, Leaving idOpt res)"
  shows "inv (es @ [e]) (leaveCall i r idOpt res c)"
proof -
  have ok: "phase_ok (Returned idOpt res) = phase_ok (Leaving idOpt res)"
    "phase_written (Returned idOpt res) = phase_ok (Leaving idOpt res)"
    by (cases idOpt; cases res; simp)+
  have wr: "phase_written (Leaving idOpt res) = phase_ok (Leaving idOpt res)"
    by (cases idOpt; cases res; simp)
  have own: "call_inv es c i" using assms(1) by (simp add: inv_def)
  let ?c = "case (idOpt, r) of
          (None, _) \<Rightarrow> c
        | (Some pid, PublishReq _ _ _ _) \<Rightarrow> c\<lparr>pending := AList.delete pid (pending c)\<rparr>
        | (Some pid, SubscribeReq _ _) \<Rightarrow> c\<lparr>subacks := AList.delete pid (subacks c)\<rparr>"
  have q: "quiet c ?c"
    by (auto simp: quiet_def delete_conv' map_le_def split: option.splits request.splits intro: exI [of _ "[]"])
  have "inv (es @ [e]) (setPhase i (Returned idOpt res) ?c)"
  proof (rule inv_move [OF assms q])
    fix pid assume "phase_id (Leaving idOpt res) = Some pid"
    with own assms(2) ok wr q
    show "phase_ok (Returned idOpt res) \<Longrightarrow> acked es r i pid"
      and "phase_written (Returned idOpt res) \<Longrightarrow> written ?c r pid"
      by (auto simp: call_inv_def quiet_def intro: written_mono)
  qed simp
  then show ?thesis by (simp only: leaveCall_def)
qed

lemma inv_select:
  assumes "inv es c" "calls c i = Some (r, Waiting pid)" "quiet c c'"
    and "res = None \<Longrightarrow> buffers c i = Some None"
  shows "inv (es @ [e]) (setPhase i (Leaving (Some pid) res) c')"
proof (rule inv_move [OF assms(1,2,3)])
  have own: "call_inv es c i" using assms(1) by (simp add: inv_def)
  fix pid' assume p: "phase_id (Waiting pid) = Some pid'"
  show "acked es r i pid'" if "phase_ok (Leaving (Some pid) res)"
    using that own assms(2,4) p by (cases res) (auto simp: call_inv_def)
  show "written c' r pid'" if "phase_written (Leaving (Some pid) res)"
    using own assms(2,3) p by (auto simp: call_inv_def quiet_def intro: written_mono)
qed simp

lemma inv_failing:
  assumes "inv es c" "calls c i = Some (r, Failing idOpt err)"
  shows "inv (es @ [e]) (setPhase i (Leaving idOpt (Some err)) c)"
  by (rule inv_move [OF assms quiet_refl]) simp_all

lemma quiet_disconnect: "quiet c (failMark (snd (writePacket results packet c)))"
  by (cases "writePacket results packet c") (simp add: quiet_writePacket)

lemma quiet_takeAck: "quiet c (c\<lparr>buffers := (buffers c)(i := None)\<rparr>)"
  by (auto simp: quiet_def intro: exI [of _ "[]"])

lemma inv_step:
  assumes "inv es c" "step e c = Some c'"
  shows "inv (es @ [e]) c'"
proof (cases e)
  case (Enter i r)
  with assms show ?thesis by (auto simp: inv_enterCall split: if_splits)
next
  case (Register i)
  with assms show ?thesis by (auto simp: inv_registerCall split: option.splits phase.splits)
next
  case (Send i results)
  with assms show ?thesis by (auto simp: inv_sendRequest split: option.splits phase.splits)
next
  case (TakeAck i)
  with assms show ?thesis
    by (auto split: option.splits phase.splits intro!: inv_select quiet_takeAck)
next
  case (Timeout i)
  with assms show ?thesis by (auto split: option.splits phase.splits intro!: inv_select)
next
  case (CtxDone i)
  with assms show ?thesis by (auto split: option.splits phase.splits intro!: inv_select)
next
  case (SeeDone i)
  with assms show ?thesis by (auto split: option.splits phase.splits if_splits intro!: inv_select)
next
  case (AfterFail i)
  with assms show ?thesis by (auto split: option.splits phase.splits if_splits intro!: inv_failing)
next
  case (Leave i)
  with assms show ?thesis by (auto split: option.splits phase.splits intro!: inv_leaveCall)
next
  case (Read results p)
  with assms show ?thesis by (auto split: if_splits intro!: inv_handlePacket)
next
  case (Ping results)
  with assms show ?thesis
    by (auto split: if_splits prod.splits option.splits intro!: inv_quiet dest: quiet_writePacket)
qed (use assms in \<open>auto split: if_splits intro!: inv_quiet quiet_disconnect quiet_flush\<close>)

lemma inv_newClient: "inv [] (newClient conf)"
  by (simp add: inv_def maps_inv_def call_inv_def newClient_def)

lemma inv_run: "run es (newClient conf) = Some c \<Longrightarrow> inv es c"
  by (induction es arbitrary: c rule: rev_induct) (auto simp: inv_newClient run_snoc intro: inv_step)


section \<open>After a failure\<close>

lemma setPhase_more [simp]:
  "reading (setPhase i ph c) = reading c" "pinging (setPhase i ph c) = pinging c"
  by (simp_all add: setPhase_def)

text \<open>\<open>connected\<close> is up exactly until \<open>fail\<close> begins; the ping loop runs on until it notices.\<close>

definition status_ok :: "Client \<Rightarrow> bool" where
  "status_ok c \<longleftrightarrow> (connected c \<longleftrightarrow> failPhase c = Open)"

lemma failMark_fields [simp]:
  "connected (failMark c) \<longleftrightarrow> connected c \<and> failPhase c \<noteq> Open"
  "failPhase (failMark c) = (if failPhase c = Open then Marked else failPhase c)"
  "sent (failMark c) = sent c" "calls (failMark c) = calls c" "buffers (failMark c) = buffers c"
  "pending (failMark c) = pending c" "subacks (failMark c) = subacks c"
  "delivered (failMark c) = delivered c"
  by (auto simp: failMark_def)

definition halted :: "Client \<Rightarrow> Client \<Rightarrow> bool" where
  "halted c c' \<longleftrightarrow>
     (status_ok c \<longrightarrow> status_ok c') \<and> (\<not> connected c \<longrightarrow> \<not> connected c' \<and> sent c' = sent c)"

lemma halted_refl [simp]: "halted c c"
  by (simp add: halted_def)

lemma halted_failMark: "halted c c' \<Longrightarrow> halted c (failMark c')"
  by (auto simp: halted_def status_ok_def)

lemma halted_setPhase [simp]: "halted c (setPhase i ph c') = halted c c'"
  by (simp add: halted_def status_ok_def)

lemma halted_fields [simp]:
  "halted c (c'\<lparr>reading := b\<rparr>) = halted c c'" "halted c (c'\<lparr>pinging := b\<rparr>) = halted c c'"
  "halted c (c'\<lparr>delivered := ms\<rparr>) = halted c c'" "halted c (c'\<lparr>buffers := bs\<rparr>) = halted c c'"
  "halted c (c'\<lparr>calls := cs\<rparr>) = halted c c'" "halted c (c'\<lparr>pending := m\<rparr>) = halted c c'"
  "halted c (c'\<lparr>subacks := m\<rparr>) = halted c c'" "halted c (c'\<lparr>packetID := n\<rparr>) = halted c c'"
  by (simp_all add: halted_def status_ok_def)

lemma halted_stopReading: "halted c c' \<Longrightarrow> halted c (stopReading c')"
  by (simp add: stopReading_def halted_failMark)

lemma halted_writePacket: "writePacket results packet c = (e, c') \<Longrightarrow> halted c c'"
  by (cases "connected c") (auto simp: writePacket_def halted_def status_ok_def split: prod.splits)

lemma halted_deliverAck [simp]: "halted c (deliverAck m pid r c)"
  by (simp add: deliverAck_def split: option.splits)

lemma halted_handlePublish: "halted c (handlePublish results flags body c)"
  unfolding handlePublish_def
  by (auto split: sum.splits option.splits prod.splits if_splits
      intro: halted_stopReading dest: halted_writePacket)

lemma halted_handlePacket: "halted c (handlePacket results p c)"
  by (auto simp: handlePacket_def handlePuback_def handleSuback_def halted_handlePublish
      split: prod.splits sum.splits intro!: halted_stopReading)

lemma halted_sendRequest: "halted c (sendRequest results i r idOpt c)"
  by (auto simp: sendRequest_def split: sum.splits prod.splits option.splits
      intro!: halted_failMark dest: halted_writePacket)

lemma halted_step: "step e c = Some c' \<Longrightarrow> halted c c'"
proof (cases e)
  case (Ping results)
  then show "step e c = Some c' \<Longrightarrow> halted c c'"
    by (auto split: if_splits prod.splits option.splits intro!: halted_failMark dest: halted_writePacket)
next
  case (DisconnectCall results)
  then show "step e c = Some c' \<Longrightarrow> halted c c'"
    by (cases "writePacket results disconnectPacket c") (auto intro!: halted_failMark dest: halted_writePacket)
qed (auto simp: enterCall_def registerCall_def leaveCall_def halted_sendRequest halted_handlePacket
    split: option.splits phase.splits request.splits prod.splits if_splits
    intro: halted_stopReading, auto simp: halted_def status_ok_def)

lemma halted_run: "run es c = Some c' \<Longrightarrow> \<not> connected c \<Longrightarrow> \<not> connected c' \<and> sent c' = sent c"
  by (induction es arbitrary: c) (auto simp: halted_def split: option.splits dest!: halted_step)

lemma status_run: "run es (newClient conf) = Some c \<Longrightarrow> status_ok c"
proof (induction es arbitrary: c rule: rev_induct)
  case Nil
  then show ?case by (auto simp: status_ok_def newClient_def)
next
  case (snoc e es)
  then show ?case by (auto simp: run_snoc halted_def dest!: halted_step)
qed

text \<open>What still runs once \<open>fail\<close> has begun: the rest of \<open>fail\<close>, and the call itself.\<close>

fun closing_event :: "nat \<Rightarrow> event \<Rightarrow> bool" where
  "closing_event i (Register j) \<longleftrightarrow> j = i"
| "closing_event i (Send j results) \<longleftrightarrow> j = i \<and> results = []"
| "closing_event i (SeeDone j) \<longleftrightarrow> j = i"
| "closing_event i (AfterFail j) \<longleftrightarrow> j = i"
| "closing_event i (Leave j) \<longleftrightarrow> j = i"
| "closing_event i FlushPending \<longleftrightarrow> True"
| "closing_event i FlushSubs \<longleftrightarrow> True"
| "closing_event i CloseDone \<longleftrightarrow> True"
| "closing_event i _ \<longleftrightarrow> False"

fun has_result :: "phase \<Rightarrow> bool" where
  "has_result (Leaving p r) = True"
| "has_result (Returned p r) = True"
| "has_result _ = False"

definition ends :: "nat \<Rightarrow> request \<Rightarrow> bool \<Rightarrow> Client \<Rightarrow> bool" where
  "ends i r err c \<longleftrightarrow>
     (\<exists>es c' idOpt res. (\<forall>e \<in> set es. closing_event i e) \<and> run es c = Some c' \<and>
        calls c' i = Some (r, Returned idOpt res) \<and> (err \<longrightarrow> res \<noteq> None))"

lemma ends_step:
  assumes "step e c = Some c'" "closing_event i e" "ends i r err c'"
  shows "ends i r err c"
proof -
  obtain es d idOpt res where "\<forall>e \<in> set es. closing_event i e" "run es c' = Some d"
    "calls d i = Some (r, Returned idOpt res)" "err \<longrightarrow> res \<noteq> None"
    using assms(3) unfolding ends_def by blast
  with assms(1,2) show ?thesis
    unfolding ends_def by (intro exI [of _ "e # es"]) auto
qed

lemma ends_Returned: "calls c i = Some (r, Returned idOpt res) \<Longrightarrow> (err \<longrightarrow> res \<noteq> None) \<Longrightarrow> ends i r err c"
  unfolding ends_def by (intro exI [of _ "[]"]) auto

lemma ends_Leaving:
  assumes "calls c i = Some (r, Leaving idOpt res)" "err \<longrightarrow> res \<noteq> None"
  shows "ends i r err c"
proof (rule ends_step [of "Leave i"])
  show "step (Leave i) c = Some (leaveCall i r idOpt res c)" using assms by simp
  show "ends i r err (leaveCall i r idOpt res c)"
    using assms by (intro ends_Returned [of _ _ _ idOpt res])
      (auto simp: leaveCall_def split: option.splits request.splits)
qed simp

lemma ends_Failing:
  assumes "calls c i = Some (r, Failing idOpt e)" "failPhase c = Done"
  shows "ends i r err c"
  by (rule ends_step [of "AfterFail i"]) (use assms in \<open>auto intro: ends_Leaving\<close>)

lemma ends_Waiting:
  assumes "calls c i = Some (r, Waiting pid)" "failPhase c = Done"
  shows "ends i r err c"
  by (rule ends_step [of "SeeDone i"]) (use assms in \<open>auto intro: ends_Leaving\<close>)

lemma ends_Registered:
  assumes "calls c i = Some (r, Registered idOpt)" "failPhase c = Done" "\<not> connected c"
  shows "ends i r err c"
proof (rule ends_step [of "Send i []"])
  show "step (Send i []) c = Some (sendRequest [] i r idOpt c)" using assms by simp
  show "ends i r err (sendRequest [] i r idOpt c)"
    using assms by (cases "requestPacket r idOpt")
      (auto simp: sendRequest_def writePacket_def intro: ends_Leaving ends_Failing)
qed simp

lemma ends_Checked:
  assumes "calls c i = Some (r, Checked)" "failPhase c = Done" "\<not> connected c"
  shows "ends i r err c"
proof (rule ends_step [of "Register i"])
  show "step (Register i) c = Some (registerCall i r c)" using assms by simp
  obtain idOpt where "calls (registerCall i r c) i = Some (r, Registered idOpt)"
    using registerCall_own [OF assms(1)] by blast
  moreover have "failPhase (registerCall i r c) = Done" "\<not> connected (registerCall i r c)"
    using assms by (auto simp: registerCall_def split: request.splits prod.splits)
  ultimately show "ends i r err (registerCall i r c)"
    by (rule ends_Registered)
qed simp

lemma ends_Done:
  assumes "calls c i = Some (r, ph)" "failPhase c = Done" "\<not> connected c"
  shows "ends i r (\<not> has_result ph) c"
  using assms
  by (cases ph) (auto intro: ends_Returned ends_Leaving ends_Failing ends_Waiting ends_Registered ends_Checked)

lemma ends_failed:
  assumes "calls c i = Some (r, ph)" "failPhase c \<noteq> Open" "\<not> connected c"
  shows "ends i r (\<not> has_result ph) c"
proof -
  have subs: "ends i r (\<not> has_result ph) c"
    if "calls c i = Some (r, ph)" "failPhase c = SubsFlushed" "\<not> connected c" for c
    by (rule ends_step [of CloseDone]) (use that in \<open>auto intro: ends_Done\<close>)
  have pend: "ends i r (\<not> has_result ph) c"
    if "calls c i = Some (r, ph)" "failPhase c = PendingFlushed" "\<not> connected c" for c
    by (rule ends_step [of FlushSubs]) (use that in \<open>auto intro: subs\<close>)
  have mark: "ends i r (\<not> has_result ph) c"
    if "calls c i = Some (r, ph)" "failPhase c = Marked" "\<not> connected c" for c
    by (rule ends_step [of FlushPending]) (use that in \<open>auto intro: pend\<close>)
  show ?thesis
    using assms by (cases "failPhase c") (auto intro: mark pend subs ends_Done)
qed

section \<open>Messages handed to the subscriber\<close>

definition delivered_inv :: "event list \<Rightarrow> Client \<Rightarrow> bool" where
  "delivered_inv es c \<longleftrightarrow>
     (\<forall>m \<in> set (delivered c). \<exists>ws flags body pid.
        Read ws (packetPUBLISH, flags, body) \<in> set es \<and> parsePublish flags body = Inr (m, pid) \<and>
        (msgQoS m = 1 \<longrightarrow> (\<exists>before after. sent c = before @ encodePuback pid @ after)))"

definition steady :: "Client \<Rightarrow> Client \<Rightarrow> bool" where
  "steady c c' \<longleftrightarrow> delivered c' = delivered c \<and> (\<exists>x. sent c' = sent c @ x)"

lemma delivered_inv_steady: "delivered_inv es c \<Longrightarrow> steady c c' \<Longrightarrow> delivered_inv (es @ fs) c'"
  unfolding delivered_inv_def steady_def by (metis UnCI append.assoc set_append)

lemma steady_refl [simp]: "steady c c"
  by (simp add: steady_def)

lemma steady_fields [simp]:
  "steady c (failMark c') = steady c c'" "steady c (setPhase i ph c') = steady c c'"
  "steady c (c'\<lparr>reading := b\<rparr>) = steady c c'" "steady c (c'\<lparr>pinging := b\<rparr>) = steady c c'"
  "steady c (c'\<lparr>buffers := bs\<rparr>) = steady c c'" "steady c (c'\<lparr>calls := cs\<rparr>) = steady c c'"
  "steady c (c'\<lparr>pending := m\<rparr>) = steady c c'" "steady c (c'\<lparr>subacks := m\<rparr>) = steady c c'"
  "steady c (c'\<lparr>packetID := n\<rparr>) = steady c c'" "steady c (c'\<lparr>failPhase := f\<rparr>) = steady c c'"
  "steady c (stopReading c') = steady c c'" "steady c (deliverAck m pid r c') = steady c c'"
  by (auto simp: steady_def stopReading_def deliverAck_def split: option.splits)

lemma steady_writePacket: "writePacket results packet c = (e, c') \<Longrightarrow> steady c c'"
  by (auto dest!: writePacket_sent simp: steady_def)

lemma delivered_handlePublish:
  assumes "delivered_inv es c"
  shows "delivered_inv (es @ [Read results (packetPUBLISH, flags, body)]) (handlePublish results flags body c)"
proof (cases "parsePublish flags body")
  case (Inl e)
  with assms show ?thesis by (auto simp: handlePublish_def intro: delivered_inv_steady)
next
  case (Inr p)
  obtain m pid where p: "p = (m, pid)" by (cases p)
  obtain e c' where w: "(if msgQoS m = 1 then writePacket results (encodePuback pid) c else (None, c)) = (e, c')"
    by fastforce
  then have st: "steady c c'" by (auto split: if_splits dest: steady_writePacket)
  with assms have d: "delivered_inv (es @ [Read results (packetPUBLISH, flags, body)]) c'"
    by (rule delivered_inv_steady)
  show ?thesis
  proof (cases "e = None \<and> OnMessage (cfg c')")
    case False
    with Inr p w d assms st show ?thesis
      by (auto simp: handlePublish_def split: option.splits intro: delivered_inv_steady)
  next
    case True
    have "msgQoS m = 1 \<Longrightarrow> sent c' = sent c @ encodePuback pid @ []"
      using w True writePacket_ok [of results "encodePuback pid" c c'] by auto
    then have "msgQoS m = 1 \<longrightarrow> (\<exists>before after. sent c' = before @ encodePuback pid @ after)"
      by blast
    with True Inr p w d show ?thesis
      by (fastforce simp: handlePublish_def delivered_inv_def)
  qed
qed

lemma delivered_inv_step:
  assumes d: "delivered_inv es c" and "step e c = Some c'"
  shows "delivered_inv (es @ [e]) c'"
proof (cases "\<exists>results flags body. e = Read results (packetPUBLISH, flags, body)")
  case True
  with assms show ?thesis
    by (auto simp: handlePacket_def byte_simps intro: delivered_handlePublish [unfolded packetPUBLISH_def] split: if_splits)
next
  case False
  have "steady c c'"
  proof (cases e)
    case (Read results p)
    with assms False show ?thesis
      by (cases p) (auto simp: handlePacket_def handlePuback_def handleSuback_def split: if_splits sum.splits)
  next
    case (DisconnectCall results)
    with assms show ?thesis
      by (cases "writePacket results disconnectPacket c") (auto dest: steady_writePacket)
  qed (use assms in \<open>auto simp: enterCall_def registerCall_def leaveCall_def sendRequest_def
      split: option.splits phase.splits request.splits prod.splits if_splits sum.splits
      dest!: steady_writePacket\<close>)
  with d show ?thesis by (rule delivered_inv_steady)
qed

lemma delivered_inv_run: "run es (newClient conf) = Some c \<Longrightarrow> delivered_inv es c"
  by (induction es arbitrary: c rule: rev_induct)
    (auto simp: run_snoc intro: delivered_inv_step, simp add: delivered_inv_def newClient_def)

text \<open>A request that needs an identifier never gets past its registration without one.\<close>

fun needs_id :: "request \<Rightarrow> bool" where
  "needs_id (PublishReq topic qos retain payload) \<longleftrightarrow> qos = 1"
| "needs_id (SubscribeReq topic qos) \<longleftrightarrow> True"

fun has_id :: "phase \<Rightarrow> bool" where
  "has_id (Registered None) = False"
| "has_id (Failing None e) = False"
| "has_id (Leaving None r) = False"
| "has_id (Returned None None) = False"
| "has_id _ = True"

lemma has_id_iff [simp]:
  "has_id (Registered p) \<longleftrightarrow> p \<noteq> None" "has_id (Failing p e) \<longleftrightarrow> p \<noteq> None"
  "has_id (Leaving p r) \<longleftrightarrow> p \<noteq> None"
  by (cases p; simp)+

definition ids_inv :: "Client \<Rightarrow> bool" where
  "ids_inv c \<longleftrightarrow> (\<forall>i r ph. calls c i = Some (r, ph) \<longrightarrow> needs_id r \<longrightarrow> has_id ph)"

lemma ids_inv_calls: "ids_inv c \<Longrightarrow> calls c' = calls c \<Longrightarrow> ids_inv c'"
  by (simp add: ids_inv_def)

lemma ids_inv_setPhase:
  "ids_inv c \<Longrightarrow> calls c' = calls c \<Longrightarrow> calls c i = Some (r, ph) \<Longrightarrow> (needs_id r \<Longrightarrow> has_id ph \<Longrightarrow> has_id ph') \<Longrightarrow>
   ids_inv (setPhase i ph' c')"
  by (auto simp: ids_inv_def)

lemma calls_writePacket: "writePacket results packet c = (e, c') \<Longrightarrow> calls c' = calls c"
  by (auto dest!: writePacket_sent)

lemma calls_handlePacket [simp]: "calls (handlePacket results p c) = calls c"
  by (cases p) (auto simp: handlePacket_def handlePuback_def handleSuback_def handlePublish_def
      deliverAck_def stopReading_def split: sum.splits option.splits prod.splits if_splits
      dest: calls_writePacket)

lemma ids_inv_step:
  assumes "ids_inv c" "step e c = Some c'"
  shows "ids_inv c'"
proof (cases e)
  case (Enter i r)
  with assms show ?thesis by (auto simp: enterCall_def ids_inv_def split: if_splits option.splits)
next
  case (Register i)
  with assms show ?thesis
    by (auto simp: registerCall_def split: option.splits phase.splits request.splits prod.splits
        intro!: ids_inv_setPhase)
next
  case (Send i results)
  with assms show ?thesis
    by (auto simp: sendRequest_def split: option.splits phase.splits sum.splits prod.splits
        intro!: ids_inv_setPhase dest: calls_writePacket)
next
  case (Leave i)
  with assms obtain r idOpt res where l: "calls c i = Some (r, Leaving idOpt res)"
    "c' = leaveCall i r idOpt res c"
    by (auto split: option.splits phase.splits)
  show ?thesis unfolding l leaveCall_def
    by (rule ids_inv_setPhase [OF assms(1) _ l(1)]) (auto split: option.splits request.splits)
next
  case (DisconnectCall results)
  with assms show ?thesis
    by (cases "writePacket results disconnectPacket c") (auto intro!: ids_inv_calls [of c] dest: calls_writePacket)
next
  case (Ping results)
  with assms show ?thesis
    by (auto split: option.splits if_splits prod.splits intro!: ids_inv_calls [of c] dest: calls_writePacket)
qed (use assms in \<open>auto split: option.splits phase.splits if_splits prod.splits
      intro!: ids_inv_setPhase elim: ids_inv_calls simp: stopReading_def\<close>)

lemma ids_inv_run: "run es (newClient conf) = Some c \<Longrightarrow> ids_inv c"
  by (induction es arbitrary: c rule: rev_induct)
    (auto simp: run_snoc intro: ids_inv_step, simp add: ids_inv_def newClient_def)

section \<open>QoS 0: written, and no identifier\<close>

definition writtenPlain :: "Client \<Rightarrow> request \<Rightarrow> bool" where
  "writtenPlain c r \<longleftrightarrow> (\<exists>packet before after. requestPacket r None = Inr packet \<and> sent c = before @ packet @ after)"

fun ended_plain :: "phase \<Rightarrow> bool" where
  "ended_plain (Leaving None None) = True"
| "ended_plain (Returned None None) = True"
| "ended_plain _ = False"

lemma ended_plain_iff [simp]:
  "ended_plain (Leaving p r) \<longleftrightarrow> p = None \<and> r = None" "ended_plain (Returned p r) \<longleftrightarrow> p = None \<and> r = None"
  by (cases p; cases r; simp)+

definition plain_inv :: "Client \<Rightarrow> bool" where
  "plain_inv c \<longleftrightarrow> (\<forall>i r ph. calls c i = Some (r, ph) \<longrightarrow> ended_plain ph \<longrightarrow> writtenPlain c r)"

definition extends :: "Client \<Rightarrow> Client \<Rightarrow> bool" where
  "extends c c' \<longleftrightarrow> calls c' = calls c \<and> (\<exists>x. sent c' = sent c @ x)"

lemma writtenPlain_mono: "writtenPlain c r \<Longrightarrow> sent c' = sent c @ x \<Longrightarrow> writtenPlain c' r"
  unfolding writtenPlain_def by (metis append.assoc)

lemma quiet_extends: "quiet c c' \<Longrightarrow> extends c c'"
  by (auto simp: quiet_def extends_def)

lemma plain_extends: "plain_inv c \<Longrightarrow> extends c c' \<Longrightarrow> plain_inv c'"
  by (auto simp: plain_inv_def extends_def intro: writtenPlain_mono)

lemma plain_setPhase:
  assumes "plain_inv c" "extends c c'" "calls c i = Some (r, ph)" "ended_plain ph' \<Longrightarrow> writtenPlain c' r"
  shows "plain_inv (setPhase i ph' c')"
proof -
  have "plain_inv c'" using plain_extends [OF assms(1,2)] .
  with assms(2-4) show ?thesis
    by (auto simp: plain_inv_def extends_def writtenPlain_def)
qed

lemma plain_move: "plain_inv c \<Longrightarrow> quiet c c' \<Longrightarrow> calls c i = Some (r, ph) \<Longrightarrow> \<not> ended_plain ph' \<Longrightarrow>
   plain_inv (setPhase i ph' c')"
  by (rule plain_setPhase) (auto intro: quiet_extends)

lemma plain_select:
  "plain_inv c \<Longrightarrow> calls c i = Some (r, ph) \<Longrightarrow> p \<noteq> None \<or> res \<noteq> None \<Longrightarrow> plain_inv (setPhase i (Leaving p res) c)"
  by (rule plain_move [of c]) auto

lemma plain_quiet: "plain_inv c \<Longrightarrow> quiet c c' \<Longrightarrow> plain_inv c'"
  by (blast intro: plain_extends quiet_extends)

lemma plain_deliverAck: "plain_inv c \<Longrightarrow> plain_inv (deliverAck m pid r c)"
  by (rule plain_extends) (auto simp: deliverAck_def extends_def split: option.splits)

lemma plain_handlePacket: "plain_inv c \<Longrightarrow> plain_inv (handlePacket results p c)"
proof (cases p)
  case (fields t flags body)
  assume c: "plain_inv c"
  then have "plain_inv (handlePuback body c)" "plain_inv (handleSuback body c)"
    by (auto simp: handlePuback_def handleSuback_def plain_deliverAck split: sum.splits intro: plain_quiet)
  moreover have "plain_inv (handlePublish results flags body c)" "plain_inv (stopReading c)"
    by (rule plain_quiet [OF c quiet_handlePublish]) (rule plain_quiet [OF c], simp)
  ultimately show ?thesis using c by (simp add: handlePacket_def fields)
qed

lemma plain_registerCall: "plain_inv c \<Longrightarrow> calls c i = Some (r, Checked) \<Longrightarrow> plain_inv (registerCall i r c)"
  by (auto simp: registerCall_def extends_def split: request.splits prod.splits intro!: plain_setPhase [of c])

lemma plain_sendRequest:
  assumes c: "plain_inv c" "calls c i = Some (r, Registered idOpt)"
  shows "plain_inv (sendRequest results i r idOpt c)"
proof (cases "requestPacket r idOpt")
  case (Inl err)
  with c show ?thesis by (auto simp: sendRequest_def intro!: plain_move [OF c(1) quiet_refl])
next
  case (Inr packet)
  obtain err c' where w: "writePacket results packet c = (err, c')" by (cases "writePacket results packet c")
  have q: "quiet c c'" by (rule quiet_writePacket [OF w])
  show ?thesis
  proof (cases err)
    case (Some x)
    with c Inr w q show ?thesis by (auto simp: sendRequest_def intro!: plain_move [OF c(1)])
  next
    case None
    then have "sent c' = sent c @ packet @ []" using writePacket_ok w by auto
    then have "idOpt = None \<Longrightarrow> writtenPlain c' r" using Inr unfolding writtenPlain_def by blast
    with None c Inr w q show ?thesis
      by (auto simp: sendRequest_def split: option.splits intro!: plain_setPhase [OF c(1) quiet_extends])
  qed
qed

lemma plain_leaveCall:
  assumes "plain_inv c" "calls c i = Some (r, Leaving idOpt res)"
  shows "plain_inv (leaveCall i r idOpt res c)"
proof -
  let ?c = "case (idOpt, r) of
          (None, _) \<Rightarrow> c
        | (Some pid, PublishReq _ _ _ _) \<Rightarrow> c\<lparr>pending := AList.delete pid (pending c)\<rparr>
        | (Some pid, SubscribeReq _ _) \<Rightarrow> c\<lparr>subacks := AList.delete pid (subacks c)\<rparr>"
  have x: "extends c ?c" by (auto simp: extends_def split: option.splits request.splits)
  have "ended_plain (Returned idOpt res) \<Longrightarrow> writtenPlain c r"
    using assms by (auto simp: plain_inv_def)
  then have "ended_plain (Returned idOpt res) \<Longrightarrow> writtenPlain ?c r"
    using x writtenPlain_mono unfolding extends_def by blast
  from plain_setPhase [OF assms(1) x assms(2) this] show ?thesis
    by (simp only: leaveCall_def)
qed

lemma plain_step:
  assumes "plain_inv c" "step e c = Some c'"
  shows "plain_inv c'"
proof (cases e)
  case (Enter i r)
  with assms show ?thesis
    by (auto simp: enterCall_def plain_inv_def writtenPlain_def split: if_splits option.splits)
next
  case (Register i)
  with assms show ?thesis by (auto simp: plain_registerCall split: option.splits phase.splits)
next
  case (Send i results)
  with assms show ?thesis by (auto simp: plain_sendRequest split: option.splits phase.splits)
next
  case (TakeAck i)
  with assms show ?thesis
    by (auto split: option.splits phase.splits intro!: plain_move [of c] quiet_takeAck)
next
  case (Leave i)
  with assms show ?thesis by (auto simp: plain_leaveCall split: option.splits phase.splits)
next
  case (Read results p)
  with assms show ?thesis by (auto simp: plain_handlePacket split: if_splits)
next
  case (Ping results)
  with assms show ?thesis
    by (auto split: if_splits prod.splits option.splits intro!: plain_quiet [of c] dest: quiet_writePacket)
qed (use assms in \<open>auto split: option.splits phase.splits if_splits
      intro!: plain_select intro: plain_quiet [of c] quiet_disconnect\<close>,
    auto intro!: plain_quiet [of c] simp: quiet_flush)

lemma plain_run: "run es (newClient conf) = Some c \<Longrightarrow> plain_inv c"
  by (induction es arbitrary: c rule: rev_induct)
    (auto simp: run_snoc intro: plain_step, simp add: plain_inv_def newClient_def)

text \<open>
  What a publish that returned no error has done, of any QoS: its whole packet is on the
  connection, and with QoS 1 its acknowledgement has been read since it registered.
\<close>

definition puback :: "event list \<Rightarrow> nat \<Rightarrow> uint16 \<Rightarrow> bool" where
  "puback es i pid \<longleftrightarrow>
     (\<exists>es1 ws flags body es2. es = es1 @ Read ws (packetPUBACK, flags, body) # es2 \<and>
        Register i \<in> set es1 \<and> 2 \<le> length body \<and> uint16_of (take 2 body) = pid \<and>
        (3 \<le> length body \<longrightarrow> body ! 2 < 128))"

lemma acked_puback_read: "acked es (PublishReq topic qos retain payload) i pid \<Longrightarrow> puback es i pid"
  unfolding acked_def puback_def
  by (fastforce simp: pubackResult_def not_le split: if_splits)

lemma returned_publish:
  assumes "run es (newClient conf) = Some c"
    and "calls c i = Some (PublishReq topic qos retain payload, Returned idOpt None)"
  shows "\<exists>packet before after. requestPacket (PublishReq topic qos retain payload) idOpt = Inr packet \<and>
      sent c = before @ packet @ after \<and> (qos = 1 \<longrightarrow> idOpt \<noteq> None) \<and>
      (\<forall>pid. idOpt = Some pid \<longrightarrow> puback es i pid)"
proof (cases idOpt)
  case None
  have "qos \<noteq> 1" using ids_inv_run [OF assms(1)] assms(2) None by (fastforce simp: ids_inv_def)
  moreover have "writtenPlain c (PublishReq topic qos retain payload)"
    using plain_run [OF assms(1)] assms(2) None by (fastforce simp: plain_inv_def)
  ultimately show ?thesis using None by (simp add: writtenPlain_def)
next
  case (Some pid)
  have "call_inv es c i" using inv_run [OF assms(1)] by (simp add: inv_def)
  with assms(2) Some have "acked es (PublishReq topic qos retain payload) i pid"
    "written c (PublishReq topic qos retain payload) pid"
    by (fastforce simp: call_inv_def)+
  then show ?thesis using Some acked_puback_read by (auto simp: written_def)
qed

section \<open>Properties\<close>

definition exampleRun :: "event list" where
  "exampleRun =
     [Enter 0 (PublishReq ''a'' 1 True [7]), Register 0, Send 0 [],
      Read [] (packetPUBACK, 0, [0, 1]), TakeAck 0, Leave 0]"

lemma ucast_1_uint16: "(ucast (1 :: uint32) :: uint16) = 1"
  by simp

lemma exampleRun_result:
  "\<exists>c. run exampleRun (newClient exampleConfig) = Some c \<and>
     calls c 0 = Some (PublishReq ''a'' 1 True [7], Returned (Some 1) None)"
  by (simp add: exampleRun_def newClient_def enterCall_def requestCheck_def registerCall_def
      nextPacketID.simps [of 0] setPhase_def sendRequest_def requestPacket_def encodePublish_eq
      writePacket_def handlePacket_def handlePuback_def deliverAck_def trySend_def pubackResult_def
      leaveCall_def packetPUBACK_def be16_def makePacket_varint split_beta)

text \<open>
  C14: Packet identifiers are never 0 and do not repeat before 65535 further calls have taken
  one: the identifiers of any 65535 consecutive calls are distinct, across the wrap-around of
  the 16-bit identifier and of the 32-bit counter behind it.
\<close>
theorem packet_ids_distinct:
  assumes "n \<le> 65535"
  shows "distinct (packetIDs n counter) \<and> 0 \<notin> set (packetIDs n counter)"
proof -
  have "0 \<notin> set (packetIDs n counter)" for n counter
    using nextPacketID_low(1) nextID_nonzero
    by (induction n arbitrary: counter) (auto split: prod.split, metis fst_conv)
  with distinct_packetIDs [OF assms] show ?thesis by blast
qed

theorem packet_ids_distinct_witness:
  "distinct (packetIDs 3 65533) \<and> 0 \<notin> set (packetIDs 3 65533)"
  by (rule packet_ids_distinct) simp

text \<open>
  C2: A QoS 1 \<open>Publish\<close> that returns \<open>nil\<close> is acknowledged: in every run of the client, however
  its goroutines interleave, the call took an identifier, the whole encoded packet is on the
  wire, and after the call had registered the read loop received a PUBACK with that
  identifier whose reason code, if it has one, is below 0x80.
\<close>
theorem publish_acknowledged:
  assumes "run es (newClient conf) = Some c"
    and "calls c i = Some (PublishReq topic 1 retain payload, Returned idOpt None)"
  shows "\<exists>pid packet before after. idOpt = Some pid \<and>
      encodePublish topic payload 1 retain pid = Inr packet \<and> sent c = before @ packet @ after \<and>
      (\<exists>es1 ws flags body es2. es = es1 @ Read ws (packetPUBACK, flags, body) # es2 \<and>
        Register i \<in> set es1 \<and> 2 \<le> length body \<and> uint16_of (take 2 body) = pid \<and>
        (3 \<le> length body \<longrightarrow> body ! 2 < 128))"
  using returned_publish [OF assms] by (cases idOpt) (auto simp: requestPacket_def puback_def)

theorem publish_acknowledged_witness:
  "\<exists>pid packet before after. Some 1 = Some pid \<and>
      encodePublish ''a'' [7] 1 True pid = Inr packet \<and>
      sent (the (run exampleRun (newClient exampleConfig))) = before @ packet @ after \<and>
      (\<exists>es1 ws flags body es2. exampleRun = es1 @ Read ws (packetPUBACK, flags, body) # es2 \<and>
        Register 0 \<in> set es1 \<and> 2 \<le> length body \<and> uint16_of (take 2 body) = pid \<and>
        (3 \<le> length body \<longrightarrow> body ! 2 < 128))"
proof (rule publish_acknowledged)
  show "run exampleRun (newClient exampleConfig) = Some (the (run exampleRun (newClient exampleConfig)))"
    and "calls (the (run exampleRun (newClient exampleConfig))) 0 =
      Some (PublishReq ''a'' 1 True [7], Returned (Some 1) None)"
    using exampleRun_result by auto
qed

text \<open>
  After a failure nothing more is written: once \<open>connected\<close> is down it stays down and no
  event of any goroutine, in any order, adds a byte to the connection.
\<close>
theorem no_bytes_after_failure:
  assumes "run es c = Some c'" and "\<not> connected c"
  shows "\<not> connected c' \<and> sent c' = sent c"
  by (rule halted_run [OF assms])

definition failedClient :: Client where
  "failedClient = failMark (newClient exampleConfig)"

theorem no_bytes_after_failure_witness:
  "\<not> connected (the (run [Ping [], FlushPending] failedClient)) \<and>
     sent (the (run [Ping [], FlushPending] failedClient)) = sent failedClient"
  by (rule no_bytes_after_failure [of "[Ping [], FlushPending]"])
    (simp_all add: failedClient_def newClient_def failMark_def writePacket_def)


definition hangingRun :: "event list" where
  "hangingRun =
     [Enter 0 (PublishReq ''a'' 1 True [7]), Register 0, Send 0 [], ReadError]"

lemma hangingRun_result:
  "\<exists>c. run hangingRun (newClient exampleConfig) = Some c \<and> \<not> connected c \<and>
     calls c 0 = Some (PublishReq ''a'' 1 True [7], Waiting 1)"
  by (simp add: hangingRun_def newClient_def enterCall_def requestCheck_def registerCall_def
      nextPacketID.simps [of 0] setPhase_def sendRequest_def requestPacket_def encodePublish_eq
      writePacket_def stopReading_def failMark_def makePacket_varint split_beta)


text \<open>
  C16: Every message handed to the subscriber came in a PUBLISH the read loop received and, when
  it is a QoS 1 message, its PUBACK was written in full before it was handed on.
\<close>
theorem delivered_messages_acknowledged:
  assumes "run es (newClient conf) = Some c" and "message \<in> set (delivered c)"
  shows "\<exists>ws flags body pid. Read ws (packetPUBLISH, flags, body) \<in> set es \<and>
    parsePublish flags body = Inr (message, pid) \<and>
    (msgQoS message = 1 \<longrightarrow> (\<exists>before after. sent c = before @ encodePuback pid @ after))"
  using delivered_inv_run [OF assms(1)] assms(2) by (simp add: delivered_inv_def)

lemma deliveringRun_result:
  "\<exists>c. run [Read [] (packetPUBLISH, 2, [0, 1, 97, 0, 5, 0, 9])]
       (newClient (exampleConfig\<lparr>OnMessage := True\<rparr>)) = Some c \<and>
     \<lparr>msgTopic = ''a'', msgPayload = [9], msgQoS = 1, msgRetain = False\<rparr> \<in> set (delivered c)"
proof -
  have "publishBody ''a'' [9] 1 5 = [0, 1, 97, 0, 5, 0, 9]"
    by (simp add: publishBody_def appendUint16_def bytes_of_def)
  then have "parsePublish 2 [0, 1, 97, 0, 5, 0, 9] =
      Inr (\<lparr>msgTopic = ''a'', msgPayload = [9], msgQoS = 1, msgRetain = False\<rparr>, 5)"
    using parsePublish_body [of 1 "''a''" 2 "[9]" 5] by (simp add: incomingQoS_def)
  then show ?thesis
    by (simp add: newClient_def handlePacket_def handlePublish_def writePacket_def split_beta byte_simps)
qed

theorem delivered_messages_acknowledged_witness:
  "\<exists>ws flags body pid. Read ws (packetPUBLISH, flags, body) \<in>
       set [Read [] (packetPUBLISH, 2, [0, 1, 97, 0, 5, 0, 9])] \<and>
     parsePublish flags body =
       Inr (\<lparr>msgTopic = ''a'', msgPayload = [9], msgQoS = 1, msgRetain = False\<rparr>, pid) \<and>
     (msgQoS \<lparr>msgTopic = ''a'', msgPayload = [9], msgQoS = 1, msgRetain = False\<rparr> = 1 \<longrightarrow>
       (\<exists>before after. sent (the (run [Read [] (packetPUBLISH, 2, [0, 1, 97, 0, 5, 0, 9])]
          (newClient (exampleConfig\<lparr>OnMessage := True\<rparr>)))) = before @ encodePuback pid @ after))"
  using deliveringRun_result by (intro delivered_messages_acknowledged) auto

end
