(* ===== verification/GoStrings.thy ===== *)
theory GoStrings
  imports Prelude
begin

text \<open>
  What the program uses of Go's \<open>strings\<close>, \<open>unicode/utf8\<close> and \<open>strconv\<close> packages. A string is
  a sequence of bytes; a \<open>range\<close> over it yields runes, decoded from UTF-8, and an invalid byte
  yields the replacement rune U+FFFD. \<open>chunks\<close> pairs each rune with the bytes it came from, so
  functions that test runes and return substrings are both exact.

  \<open>strings.ToLower\<close> is written for the runes whose lower case is an ASCII letter: the upper
  case ASCII letters, U+0130 and U+212A. Every other rune beyond ASCII stays as it is, where
  Go may map it to another rune beyond ASCII; the callers only tell ASCII letters, digits and
  a few signs apart from everything else, so they cannot see the difference.
\<close>

section \<open>Runes\<close>

type_synonym rune = nat

definition RuneError :: rune where
  "RuneError = 65533"

abbreviation byteval :: "char \<Rightarrow> nat" where
  "byteval c \<equiv> of_char c"

definition cont :: "nat \<Rightarrow> nat \<Rightarrow> nat \<Rightarrow> bool" where
  "cont lo hi b \<longleftrightarrow> lo \<le> b \<and> b \<le> hi"

text \<open>
  \<open>utf8.DecodeRune\<close> on the bytes of a non-empty string: the rune and how many bytes it takes.
\<close>

definition decodeRune :: "nat list \<Rightarrow> rune \<times> nat" where
  "decodeRune bs =
     (case bs of
        [] \<Rightarrow> (RuneError, 0)
      | b0 # _ \<Rightarrow>
          if b0 < 128 then (b0, 1)
          else
            (let (n, lo, hi) =
               (if 194 \<le> b0 \<and> b0 \<le> 223 then (2, 128, 191)
                else if b0 = 224 then (3, 160, 191)
                else if b0 = 237 then (3, 128, 159)
                else if 225 \<le> b0 \<and> b0 \<le> 239 then (3, 128, 191)
                else if b0 = 240 then (4, 144, 191)
                else if 241 \<le> b0 \<and> b0 \<le> 243 then (4, 128, 191)
                else if b0 = 244 then (4, 128, 143)
                else (1, 0, 0 :: nat))
             in if n = (1 :: nat) \<or> length bs < n \<or> \<not> cont lo hi (bs ! 1) then (RuneError, 1)
                else if n = 2 then ((b0 mod 32) * 64 + bs ! 1 mod 64, 2)
                else if \<not> cont 128 191 (bs ! 2) then (RuneError, 1)
                else if n = 3 then ((b0 mod 16) * 4096 + (bs ! 1 mod 64) * 64 + bs ! 2 mod 64, 3)
                else if \<not> cont 128 191 (bs ! 3) then (RuneError, 1)
                else ((b0 mod 8) * 262144 + (bs ! 1 mod 64) * 4096 + (bs ! 2 mod 64) * 64 + bs ! 3 mod 64, 4)))"

function chunks :: "string \<Rightarrow> (rune \<times> string) list" where
  "chunks [] = []"
| "chunks (c # cs) =
     (let (r, n) = decodeRune (map byteval (c # cs))
      in (r, c # take (n - 1) cs) # chunks (drop (n - 1) cs))"
  by pat_completeness auto
termination
  by (relation "measure length") auto

declare chunks.simps(2) [simp del]

definition runes :: "string \<Rightarrow> rune list" where
  "runes s = map fst (chunks s)"

lemma concat_chunks: "concat (map snd (chunks s)) = s"
  by (induction s rule: chunks.induct) (simp_all add: chunks.simps(2) split: prod.split)

lemma mod_sub:
  "192 \<le> b \<Longrightarrow> b < 224 \<Longrightarrow> b mod 32 = b - (192 :: nat)"
  "224 \<le> b \<Longrightarrow> b < 240 \<Longrightarrow> b mod 16 = b - (224 :: nat)"
  "240 \<le> b \<Longrightarrow> b < 248 \<Longrightarrow> b mod 8 = b - (240 :: nat)"
  "128 \<le> b \<Longrightarrow> b < 192 \<Longrightarrow> b mod 64 = b - (128 :: nat)"
  by (rule mod_nat_eqI; simp)+

text \<open>The valid sequences of two, three and four bytes and the rune each encodes.\<close>

fun multibyte :: "nat list \<Rightarrow> rune \<Rightarrow> bool" where
  "multibyte [b0, b1] r \<longleftrightarrow> 194 \<le> b0 \<and> b0 \<le> 223 \<and> cont 128 191 b1 \<and> r = (b0 - 192) * 64 + (b1 - 128)"
| "multibyte [b0, b1, b2] r \<longleftrightarrow>
     224 \<le> b0 \<and> b0 \<le> 239 \<and> cont (if b0 = 224 then 160 else 128) (if b0 = 237 then 159 else 191) b1 \<and>
     cont 128 191 b2 \<and> r = (b0 - 224) * 4096 + (b1 - 128) * 64 + (b2 - 128)"
| "multibyte [b0, b1, b2, b3] r \<longleftrightarrow>
     240 \<le> b0 \<and> b0 \<le> 244 \<and> cont (if b0 = 240 then 144 else 128) (if b0 = 244 then 143 else 191) b1 \<and>
     cont 128 191 b2 \<and> cont 128 191 b3 \<and>
     r = (b0 - 240) * 262144 + (b1 - 128) * 4096 + (b2 - 128) * 64 + (b3 - 128)"
| "multibyte _ r \<longleftrightarrow> False"

lemma decodeRune_multibyte: "multibyte bs r \<Longrightarrow> decodeRune (bs @ t) = (r, length bs)"
  by (cases "(bs, r)" rule: multibyte.cases)
    (auto simp: decodeRune_def cont_def mod_sub Let_def split: if_splits)

lemma decodeRune_inv:
  assumes "decodeRune bs = (r, n)" "bs \<noteq> []"
  shows "hd bs < 128 \<and> r = hd bs \<and> n = 1 \<or> 128 \<le> hd bs \<and> r = RuneError \<and> n = 1 \<or>
    multibyte (take n bs) r \<and> 2 \<le> n \<and> n \<le> length bs"
proof (cases bs)
  case (Cons b0 t)
  show ?thesis
  proof (cases t)
    case Nil
    with Cons assms show ?thesis by (auto simp: decodeRune_def Let_def split: if_splits)
  next
    case (Cons b1 t1)
    note c1 = \<open>bs = b0 # t\<close> Cons
    show ?thesis
    proof (cases t1)
      case Nil
      with c1 assms show ?thesis by (auto simp: decodeRune_def Let_def cont_def mod_sub split: if_splits)
    next
      case (Cons b2 t2)
      show ?thesis
      proof (cases t2)
        case Nil
        with c1 Cons assms show ?thesis
          by (auto simp: decodeRune_def Let_def cont_def mod_sub numeral_3_eq_3 split: if_splits)
      next
        case (Cons b3 t3)
        with c1 \<open>t1 = b2 # t2\<close> assms show ?thesis
          by (auto simp: decodeRune_def Let_def cont_def mod_sub numeral_3_eq_3 split: if_splits)
      qed
    qed
  qed
qed (use assms in simp)


lemma multibyte_high:
  assumes "multibyte bs r"
  shows "\<forall>b \<in> set bs. 128 \<le> b" "128 \<le> r" "2 \<le> length bs"
  using assms by (cases "(bs, r)" rule: multibyte.cases; auto simp: cont_def split: if_splits)+

lemma chunks_low: "byteval c < 128 \<Longrightarrow> chunks (c # cs) = (byteval c, [c]) # chunks cs"
  by (simp add: chunks.simps(2) decodeRune_def)

lemma chunks_multibyte:
  assumes "multibyte (map byteval p) r"
  shows "chunks (p @ t) = (r, p) # chunks t"
proof (cases p)
  case (Cons c cs)
  with decodeRune_multibyte [OF assms, of "map byteval t"] multibyte_high(3) [OF assms]
  show ?thesis by (simp add: chunks.simps(2))
qed (use assms in simp)

text \<open>
  Strings are built from ASCII bytes, valid sequences of two to four bytes, and bytes that
  start no valid sequence.
\<close>

lemma chunk_induct [case_names Nil ascii multi invalid]:
  assumes "P []"
    and "\<And>c t. byteval c < 128 \<Longrightarrow> P t \<Longrightarrow> P (c # t)"
    and "\<And>p r t. multibyte (map byteval p) r \<Longrightarrow> P t \<Longrightarrow> P (p @ t)"
    and "\<And>c t. 128 \<le> byteval c \<Longrightarrow> chunks (c # t) = (RuneError, [c]) # chunks t \<Longrightarrow> P t \<Longrightarrow> P (c # t)"
  shows "P s"
proof (induction s rule: length_induct)
  case (1 s)
  show ?case
  proof (cases s)
    case (Cons c cs)
    obtain r n where d: "decodeRune (map byteval s) = (r, n)" by (cases "decodeRune (map byteval s)")
    have "P cs" using 1 Cons by simp
    have "byteval c < 128 \<or> 128 \<le> byteval c \<and> r = RuneError \<and> n = 1 \<or>
        multibyte (map byteval (take n s)) r \<and> 2 \<le> n \<and> n \<le> length s"
      using decodeRune_inv [OF d] Cons by (auto simp flip: take_map)
    then consider "byteval c < 128" | "128 \<le> byteval c" "r = RuneError" "n = 1"
      | "multibyte (map byteval (take n s)) r" "2 \<le> n" "n \<le> length s"
      by blast
    then show ?thesis
    proof cases
      case 1
      with assms(2) \<open>P cs\<close> Cons show ?thesis by simp
    next
      case 2
      then have "chunks (c # cs) = (RuneError, [c]) # chunks cs"
        using d Cons by (simp add: chunks.simps(2))
      with 2 assms(4) \<open>P cs\<close> Cons show ?thesis by simp
    next
      case 3
      with 1 have "P (drop n s)" by simp
      with assms(3) [OF 3(1), of "drop n s"] show ?thesis by simp
    qed
  qed (use assms(1) in simp)
qed

definition asciiChar :: "char \<Rightarrow> bool" where
  "asciiChar c \<longleftrightarrow> byteval c < 128"

lemma chunks_ascii: "list_all asciiChar s \<Longrightarrow> chunks s = map (\<lambda>c. (byteval c, [c])) s"
  by (induction s) (simp_all add: chunks.simps(2) decodeRune_def asciiChar_def)

lemma runes_ascii: "list_all asciiChar s \<Longrightarrow> runes s = map byteval s"
  by (simp add: runes_def chunks_ascii comp_def)

section \<open>Case, spaces, trimming\<close>

definition lowerRune :: "rune \<Rightarrow> rune" where
  "lowerRune r =
     (if 65 \<le> r \<and> r \<le> 90 then r + 32
      else if r = 304 then 105
      else if r = 8490 then 107
      else r)"

definition isSpace :: "rune \<Rightarrow> bool" where
  "isSpace r \<longleftrightarrow>
     r = 32 \<or> (9 \<le> r \<and> r \<le> 13) \<or> r = 133 \<or> r = 160 \<or> r = 5760 \<or> (8192 \<le> r \<and> r \<le> 8202) \<or>
     r = 8232 \<or> r = 8233 \<or> r = 8239 \<or> r = 8287 \<or> r = 12288"

definition trimBy :: "('a \<Rightarrow> bool) \<Rightarrow> 'a list \<Rightarrow> 'a list" where
  "trimBy p xs = rev (dropWhile p (rev (dropWhile p xs)))"

definition TrimSpace :: "string \<Rightarrow> string" where
  "TrimSpace s = concat (map snd (trimBy (isSpace \<circ> fst) (chunks s)))"

definition ToLower :: "string \<Rightarrow> string" where
  "ToLower s =
     concat (map (\<lambda>(r, cs). if lowerRune r = r then cs else [char_of (lowerRune r)]) (chunks s))"

text \<open>\<open>strings.Trim\<close>, \<open>TrimLeft\<close>, \<open>TrimRight\<close> with an ASCII cutset work byte by byte.\<close>

definition Trim :: "string \<Rightarrow> string \<Rightarrow> string" where
  "Trim cutset s = trimBy (\<lambda>c. c \<in> set cutset) s"

definition TrimRight :: "string \<Rightarrow> string \<Rightarrow> string" where
  "TrimRight cutset s = rev (dropWhile (\<lambda>c. c \<in> set cutset) (rev s))"

definition HasPrefix :: "string \<Rightarrow> string \<Rightarrow> bool" where
  "HasPrefix s p \<longleftrightarrow> take (length p) s = p"

definition HasSuffix :: "string \<Rightarrow> string \<Rightarrow> bool" where
  "HasSuffix s p \<longleftrightarrow> length p \<le> length s \<and> drop (length s - length p) s = p"

definition TrimPrefix :: "string \<Rightarrow> string \<Rightarrow> string" where
  "TrimPrefix s p = (if HasPrefix s p then drop (length p) s else s)"

definition ContainsAny :: "string \<Rightarrow> string \<Rightarrow> bool" where
  "ContainsAny s cs \<longleftrightarrow> list_ex (\<lambda>c. c \<in> set cs) s"

section \<open>Splitting and joining\<close>

text \<open>\<open>strings.Split\<close> with a one-byte separator: the empty string is one empty piece.\<close>

fun Split :: "char \<Rightarrow> string \<Rightarrow> string list" where
  "Split sep [] = [[]]"
| "Split sep (c # cs) =
     (if c = sep then [] # Split sep cs
      else (case Split sep cs of [] \<Rightarrow> [[c]] | p # ps \<Rightarrow> (c # p) # ps))"

fun Join :: "string \<Rightarrow> string list \<Rightarrow> string" where
  "Join sep [] = []"
| "Join sep [p] = p"
| "Join sep (p # q # ps) = p @ sep @ Join sep (q # ps)"

lemma Split_nonempty [simp]: "Split sep s \<noteq> []"
  by (induction s) (auto split: list.splits)

lemma Split_no_sep: "sep \<notin> set s \<Longrightarrow> Split sep s = [s]"
  by (induction s) auto

lemma Split_sep_append: "sep \<notin> set p \<Longrightarrow> Split sep (p @ sep # s) = p # Split sep s"
  by (induction p) auto

lemma Split_Join:
  "ps \<noteq> [] \<Longrightarrow> list_all (\<lambda>p. sep \<notin> set p) ps \<Longrightarrow> Split sep (Join [sep] ps) = ps"
  by (induction "[sep]" ps rule: Join.induct) (simp_all add: Split_no_sep Split_sep_append)

lemma Join_inject:
  assumes "ps \<noteq> []" "qs \<noteq> []" "list_all (\<lambda>p. sep \<notin> set p) ps" "list_all (\<lambda>p. sep \<notin> set p) qs"
    and "Join [sep] ps = Join [sep] qs"
  shows "ps = qs"
  using assms by (metis Split_Join)

lemma Join_append:
  "ps \<noteq> [] \<Longrightarrow> qs \<noteq> [] \<Longrightarrow> Join sep (ps @ qs) = Join sep ps @ sep @ Join sep qs"
  by (induction sep ps rule: Join.induct) (cases qs, auto)+

lemma set_Join: "set (Join sep ps) \<subseteq> set sep \<union> (\<Union>p \<in> set ps. set p)"
  by (induction sep ps rule: Join.induct) auto

section \<open>Trimming lemmas\<close>

lemma dropWhile_hd: "\<not> p (hd xs) \<Longrightarrow> dropWhile p xs = xs"
  by (cases xs) auto

lemma trimBy_no: "\<not> p (hd xs) \<Longrightarrow> \<not> p (last xs) \<Longrightarrow> trimBy p xs = xs"
  by (cases "xs = []") (simp_all add: trimBy_def dropWhile_hd hd_rev)

lemma set_trimBy: "set (trimBy p xs) \<subseteq> set xs"
  unfolding trimBy_def by (auto dest!: set_dropWhileD)

lemma trimBy_ends:
  assumes "trimBy p xs \<noteq> []"
  shows "\<not> p (hd (trimBy p xs))" "\<not> p (last (trimBy p xs))"
proof -
  let ?ys = "dropWhile p xs"
  have ne: "dropWhile p (rev ?ys) \<noteq> []" using assms by (simp add: trimBy_def)
  then show "\<not> p (last (trimBy p xs))"
    by (simp add: trimBy_def last_rev hd_dropWhile)
  obtain zs where zs: "?ys = trimBy p xs @ zs"
    unfolding trimBy_def by (metis rev_append rev_rev_ident takeWhile_dropWhile_id)
  with assms have "hd (trimBy p xs) = hd ?ys" "?ys \<noteq> []" by auto
  then show "\<not> p (hd (trimBy p xs))" by (simp add: hd_dropWhile)
qed

lemma set_Trim: "set (Trim cutset s) \<subseteq> set s"
  by (simp add: Trim_def set_trimBy)

lemma Trim_ends:
  assumes "Trim cutset s \<noteq> []"
  shows "hd (Trim cutset s) \<notin> set cutset" "last (Trim cutset s) \<notin> set cutset"
  using trimBy_ends [of "\<lambda>c. c \<in> set cutset" s] assms by (simp_all add: Trim_def)

lemma Trim_no: "hd s \<notin> set cutset \<Longrightarrow> last s \<notin> set cutset \<Longrightarrow> Trim cutset s = s"
  by (simp add: Trim_def trimBy_no)

text \<open>What evaluates these functions on ASCII literals.\<close>

named_theorems string_eval

lemmas [string_eval] =
  chunks_ascii runes_ascii asciiChar_def char_of_def bit_0 lowerRune_def isSpace_def trimBy_def
  TrimSpace_def ToLower_def Trim_def

end
