(* ===== verification/Json.thy ===== *)
theory Json
  imports GoStrings
begin

text \<open>
  What the program uses of \<open>encoding/json\<close> and \<open>encoding/base64\<close>: the scanner that decides
  whether a text is valid JSON, the compact text of a value, the quoting of strings with
  HTML escapes, \<open>Unmarshal\<close>'s unquoting, and base64 for byte slices.

  A value keeps the text of its numbers and, for strings and keys, the text between the quotes
  with its escapes, as the scanner sees it.
\<close>

section \<open>Values and their text\<close>

datatype json =
    JNull
  | JBool bool
  | JNum string
  | JStr string
  | JArr "json list"
  | JObj "(string \<times> json) list"

definition quoted :: "string \<Rightarrow> string" where
  "quoted raw = CHR 0x22 # raw @ [CHR 0x22]"

fun renderJson :: "json \<Rightarrow> string" where
  "renderJson JNull = ''null''"
| "renderJson (JBool b) = (if b then ''true'' else ''false'')"
| "renderJson (JNum t) = t"
| "renderJson (JStr raw) = quoted raw"
| "renderJson (JArr vs) = ''['' @ Join '','' (map renderJson vs) @ '']''"
| "renderJson (JObj ms) =
     ''{'' @ Join '','' (map (\<lambda>(k, v). quoted k @ '':'' @ renderJson v) ms) @ ''}''"

section \<open>The scanner\<close>

definition jsonSpace :: "char \<Rightarrow> bool" where
  "jsonSpace c \<longleftrightarrow> byteval c \<in> {32, 9, 13, 10}"

definition skipSpace :: "string \<Rightarrow> string" where
  "skipSpace s = dropWhile jsonSpace s"

definition digit :: "char \<Rightarrow> bool" where
  "digit c \<longleftrightarrow> 48 \<le> byteval c \<and> byteval c \<le> 57"

definition hexChar :: "char \<Rightarrow> bool" where
  "hexChar c \<longleftrightarrow> digit c \<or> (97 \<le> byteval c \<and> byteval c \<le> 102) \<or> (65 \<le> byteval c \<and> byteval c \<le> 70)"

definition escapeChar :: "char \<Rightarrow> bool" where
  "escapeChar c \<longleftrightarrow> byteval c \<in> {98, 102, 110, 114, 116, 92, 47, 34}"

fun scanString :: "string \<Rightarrow> (string \<times> string) option" where
  "scanString [] = None"
| "scanString (c # cs) =
     (if byteval c = 34 then Some ([], cs)
      else if byteval c = 92 then
        (case cs of
           [] \<Rightarrow> None
         | e # cs1 \<Rightarrow>
             if escapeChar e then map_option (map_prod (\<lambda>r. c # e # r) id) (scanString cs1)
             else if byteval e = 117 then
               (case cs1 of
                  h1 # h2 # h3 # h4 # cs2 \<Rightarrow>
                    if hexChar h1 \<and> hexChar h2 \<and> hexChar h3 \<and> hexChar h4
                    then map_option (map_prod (\<lambda>r. c # e # h1 # h2 # h3 # h4 # r) id) (scanString cs2)
                    else None
                | _ \<Rightarrow> None)
             else None)
      else if byteval c < 32 then None
      else map_option (map_prod (\<lambda>r. c # r) id) (scanString cs))"

definition spanDigits :: "string \<Rightarrow> string \<times> string" where
  "spanDigits s = (takeWhile digit s, dropWhile digit s)"

definition scanSign :: "nat set \<Rightarrow> string \<Rightarrow> string \<times> string" where
  "scanSign signs s =
     (case s of c # cs \<Rightarrow> if byteval c \<in> signs then ([c], cs) else ([], s) | [] \<Rightarrow> ([], []))"

text \<open>The parts of a number: sign, integer part, fraction, exponent.\<close>

definition scanInt :: "string \<Rightarrow> (string \<times> string) option" where
  "scanInt s =
     (case s of
        [] \<Rightarrow> None
      | c # cs \<Rightarrow>
          if byteval c = 48 then Some ([c], cs)
          else if digit c then Some (spanDigits s)
          else None)"

definition scanFrac :: "string \<Rightarrow> (string \<times> string) option" where
  "scanFrac s =
     (case s of
        c # cs \<Rightarrow>
          if byteval c = 46 then
            (case spanDigits cs of (ds, rest) \<Rightarrow> if ds = [] then None else Some (c # ds, rest))
          else Some ([], s)
      | [] \<Rightarrow> Some ([], []))"

definition scanExp :: "string \<Rightarrow> (string \<times> string) option" where
  "scanExp s =
     (case s of
        c # cs \<Rightarrow>
          if byteval c = 101 \<or> byteval c = 69 then
            (let (sgn, cs1) = scanSign {43, 45} cs;
                 (ds, rest) = spanDigits cs1
             in if ds = [] then None else Some (c # sgn @ ds, rest))
          else Some ([], s)
      | [] \<Rightarrow> Some ([], []))"

definition scanNumber :: "string \<Rightarrow> (string \<times> string) option" where
  "scanNumber s =
     (let (sgn, s1) = scanSign {45} s
      in case scanInt s1 of
           None \<Rightarrow> None
         | Some (i, s2) \<Rightarrow>
             (case scanFrac s2 of
                None \<Rightarrow> None
              | Some (f, s3) \<Rightarrow>
                  (case scanExp s3 of
                     None \<Rightarrow> None
                   | Some (e, rest) \<Rightarrow> Some (sgn @ i @ f @ e, rest))))"

definition maxNestingDepth :: nat where
  "maxNestingDepth = 10000"

text \<open>
  Values, the elements of an array after the bracket or a comma, the members of an object. The
  first argument is fuel, the second how many brackets may still be opened.
\<close>

fun scanValue :: "nat \<Rightarrow> nat \<Rightarrow> string \<Rightarrow> (json \<times> string) option"
  and scanElements :: "nat \<Rightarrow> nat \<Rightarrow> string \<Rightarrow> (json list \<times> string) option"
  and scanMembers :: "nat \<Rightarrow> nat \<Rightarrow> string \<Rightarrow> ((string \<times> json) list \<times> string) option"
where
  "scanValue 0 d s = None"
| "scanValue (Suc n) d s =
     (case skipSpace s of
        [] \<Rightarrow> None
      | c # cs \<Rightarrow>
          if byteval c = 34 then map_option (map_prod JStr id) (scanString cs)
          else if byteval c = 91 then
            (if d = 0 then None
             else (case skipSpace cs of
                c1 # rest \<Rightarrow>
                  if byteval c1 = 93 then Some (JArr [], rest)
                  else map_option (map_prod JArr id) (scanElements n (d - 1) cs)
              | [] \<Rightarrow> None))
          else if byteval c = 123 then
            (if d = 0 then None
             else (case skipSpace cs of
                c1 # rest \<Rightarrow>
                  if byteval c1 = 125 then Some (JObj [], rest)
                  else map_option (map_prod JObj id) (scanMembers n (d - 1) cs)
              | [] \<Rightarrow> None))
          else if HasPrefix (c # cs) ''true'' then Some (JBool True, drop 3 cs)
          else if HasPrefix (c # cs) ''false'' then Some (JBool False, drop 4 cs)
          else if HasPrefix (c # cs) ''null'' then Some (JNull, drop 3 cs)
          else map_option (map_prod JNum id) (scanNumber (c # cs)))"
| "scanElements 0 d s = None"
| "scanElements (Suc n) d s =
     (case scanValue n d s of
        None \<Rightarrow> None
      | Some (v, s1) \<Rightarrow>
          (case skipSpace s1 of
             [] \<Rightarrow> None
           | c # cs \<Rightarrow>
               if byteval c = 44 then map_option (map_prod ((#) v) id) (scanElements n d cs)
               else if byteval c = 93 then Some ([v], cs)
               else None))"
| "scanMembers 0 d s = None"
| "scanMembers (Suc n) d s =
     (case skipSpace s of
        [] \<Rightarrow> None
      | q # s0 \<Rightarrow>
          if byteval q \<noteq> 34 then None
          else (case scanString s0 of
             None \<Rightarrow> None
           | Some (k, s1) \<Rightarrow>
               (case skipSpace s1 of
                  [] \<Rightarrow> None
                | c # s2 \<Rightarrow>
                    if byteval c \<noteq> 58 then None
                    else (case scanValue n d s2 of
                       None \<Rightarrow> None
                     | Some (v, s3) \<Rightarrow>
                         (case skipSpace s3 of
                            [] \<Rightarrow> None
                          | e # s4 \<Rightarrow>
                              if byteval e = 44 then map_option (map_prod ((#) (k, v)) id) (scanMembers n d s4)
                              else if byteval e = 125 then Some ([(k, v)], s4)
                              else None)))))"

definition parseJson :: "string \<Rightarrow> json option" where
  "parseJson s =
     (case scanValue (2 * length s + 2) maxNestingDepth s of
        None \<Rightarrow> None
      | Some (v, rest) \<Rightarrow> if skipSpace rest = [] then Some v else None)"

definition validJson :: "string \<Rightarrow> bool" where
  "validJson s \<longleftrightarrow> parseJson s \<noteq> None"

section \<open>Enough fuel\<close>

lemma length_skipSpace: "length (skipSpace s) \<le> length s"
  by (simp add: skipSpace_def length_dropWhile_le)

lemma skipSpace_Cons: "skipSpace s = c # cs \<Longrightarrow> length cs < length s"
  using length_skipSpace [of s] by simp

lemma scanString_shorter: "scanString s = Some (r, rest) \<Longrightarrow> length rest < length s"
  by (induction s arbitrary: r rest rule: scanString.induct)
    (fastforce split: if_splits list.splits)+

lemma scanInt_shorter: "scanInt s = Some (i, rest) \<Longrightarrow> length rest < length s"
  by (auto simp: scanInt_def spanDigits_def less_Suc_eq_le length_dropWhile_le split: list.splits if_splits)

lemma scanFrac_shorter: "scanFrac s = Some (i, rest) \<Longrightarrow> length rest \<le> length s"
  by (auto simp: scanFrac_def spanDigits_def le_SucI length_dropWhile_le split: list.splits if_splits)

lemma scanSign_shorter: "length (snd (scanSign signs s)) \<le> length s"
  by (simp add: scanSign_def split: list.splits)

lemma scanExp_shorter: "scanExp s = Some (i, rest) \<Longrightarrow> length rest \<le> length s"
  using scanSign_shorter [of "{43, 45}" "tl s"] length_dropWhile_le [of digit "snd (scanSign {43, 45} (tl s))"]
  by (auto simp: scanExp_def spanDigits_def Let_def split: list.splits if_splits prod.splits)

lemma scanNumber_shorter: "scanNumber s = Some (t, rest) \<Longrightarrow> length rest < length s"
  using scanSign_shorter [of "{45}" s]
  by (auto simp: scanNumber_def Let_def split: option.splits prod.splits
      dest!: scanInt_shorter scanFrac_shorter scanExp_shorter)

lemma scan_shorter:
  "scanValue n d s = Some (v, rest) \<Longrightarrow> length rest < length s"
  "scanElements n d s = Some (vs, rest) \<Longrightarrow> length rest < length s"
  "scanMembers n d s = Some (ms, rest) \<Longrightarrow> length rest < length s"
proof (induction n d s and n d s and n d s arbitrary: v rest and vs rest and ms rest
    rule: scanValue_scanElements_scanMembers.induct)
  case (2 n d s)
  show ?case
  proof (cases "skipSpace s")
    case (Cons c cs)
    with 2 skipSpace_Cons [OF Cons] show ?thesis
      by (auto split: if_splits list.splits dest!: scanString_shorter scanNumber_shorter skipSpace_Cons)
        (meson less_trans)+
  qed (use 2 in simp)
next
  case (4 n d s)
  then show ?case
    by (force split: if_splits list.splits option.splits dest!: skipSpace_Cons)
next
  case (6 n d s)
  then show ?case
    by (force split: if_splits list.splits option.splits dest!: skipSpace_Cons scanString_shorter)
qed simp_all

lemmas scan_unfold = scanValue.simps(2) scanElements.simps(2) scanMembers.simps(2)

declare scan_unfold [simp del]

text \<open>Fuel beyond twice the length of the text changes no result.\<close>

lemma scan_enough:
  "2 * length s + 1 \<le> n \<Longrightarrow> scanValue (Suc n) d s = scanValue n d s"
  "2 * length s + 2 \<le> n \<Longrightarrow> scanElements (Suc n) d s = scanElements n d s"
  "2 * length s + 2 \<le> n \<Longrightarrow> scanMembers (Suc n) d s = scanMembers n d s"
proof (induction n arbitrary: d s)
  case (Suc n)
  {
    case 1
    have "scanElements (Suc n) d' cs = scanElements n d' cs \<and> scanMembers (Suc n) d' cs = scanMembers n d' cs"
      if "skipSpace s = c # cs" for c cs d'
      using skipSpace_Cons [OF that] 1 by (intro conjI Suc.IH) simp_all
    then show ?case
      unfolding scan_unfold(1) [of "Suc n"] scan_unfold(1) [of n] by (simp cong: list.case_cong if_cong)
  next
    case 2
    have v: "scanValue (Suc n) d s = scanValue n d s"
      using 2 by (intro Suc.IH) simp
    have "scanElements (Suc n) d cs = scanElements n d cs"
      if "scanValue n d s = Some (w, s1)" "skipSpace s1 = c # cs" for w s1 c cs
      using scan_shorter(1) [OF that(1)] skipSpace_Cons [OF that(2)] 2 by (intro Suc.IH) simp_all
    then show ?case
      unfolding scan_unfold(2) [of "Suc n"] scan_unfold(2) [of n]
      by (simp add: v cong: list.case_cong option.case_cong if_cong prod.case_cong)
  next
    case 3
    have v: "scanValue (Suc n) d s2 = scanValue n d s2"
      if "skipSpace s = q # s0" "scanString s0 = Some (k, s1)" "skipSpace s1 = c # s2" for q s0 k s1 c s2
      using scanString_shorter [OF that(2)] skipSpace_Cons [OF that(1)] skipSpace_Cons [OF that(3)] 3
      by (intro Suc.IH) simp
    have "scanMembers (Suc n) d s4 = scanMembers n d s4"
      if "skipSpace s = q # s0" "scanString s0 = Some (k, s1)" "skipSpace s1 = c # s2"
        "scanValue n d s2 = Some (w, s3)" "skipSpace s3 = e # s4" for q s0 k s1 c s2 w s3 e s4
      using scanString_shorter [OF that(2)] skipSpace_Cons [OF that(1)] skipSpace_Cons [OF that(3)]
        scan_shorter(1) [OF that(4)] skipSpace_Cons [OF that(5)] 3
      by (intro Suc.IH) simp
    then show ?case
      unfolding scan_unfold(3) [of "Suc n"] scan_unfold(3) [of n]
      by (simp add: v cong: list.case_cong option.case_cong if_cong prod.case_cong)
  }
qed simp_all

section \<open>What is rendered is read back\<close>

definition delimiter :: "string \<Rightarrow> bool" where
  "delimiter u \<longleftrightarrow> (case u of [] \<Rightarrow> True | c # _ \<Rightarrow> byteval c \<in> {44, 93, 125, 32, 9, 10, 13})"

lemma delimiter_digit: "delimiter u \<Longrightarrow> takeWhile digit (s @ u) = takeWhile digit s \<and>
    dropWhile digit (s @ u) = dropWhile digit s @ u"
  by (induction s) (auto simp: delimiter_def digit_def split: list.splits)

abbreviation extend :: "string \<Rightarrow> (string \<times> string) option \<Rightarrow> (string \<times> string) option" where
  "extend u r \<equiv> map_option (\<lambda>(a, b). (a, b @ u)) r"

lemma scanInt_append: "delimiter u \<Longrightarrow> scanInt (s @ u) = extend u (scanInt s)"
  by (cases s; cases u) (auto simp: scanInt_def spanDigits_def delimiter_digit digit_def delimiter_def)

lemma scanFrac_append: "delimiter u \<Longrightarrow> scanFrac (s @ u) = extend u (scanFrac s)"
  using delimiter_digit [of u "tl s"]
  by (cases s; cases u) (auto simp: scanFrac_def spanDigits_def delimiter_def)

lemma scanSign_append:
  "delimiter u \<Longrightarrow> signs \<subseteq> {43, 45} \<Longrightarrow>
   scanSign signs (s @ u) = (fst (scanSign signs s), snd (scanSign signs s) @ u)"
  by (cases s; cases u) (auto simp: scanSign_def delimiter_def)

lemma scanExp_append: "delimiter u \<Longrightarrow> scanExp (s @ u) = extend u (scanExp s)"
proof (cases s)
  case Nil
  assume "delimiter u"
  with Nil show ?thesis by (cases u) (auto simp: scanExp_def delimiter_def)
next
  case (Cons c cs)
  assume "delimiter u"
  with Cons show ?thesis
    by (simp add: scanExp_def spanDigits_def scanSign_append delimiter_digit split_beta Let_def)
qed

lemma scanNumber_append:
  assumes "delimiter u"
  shows "scanNumber (s @ u) = extend u (scanNumber s)"
proof -
  obtain sgn s1 where s1: "scanSign {45} s = (sgn, s1)" by (cases "scanSign {45} s")
  then have su: "scanSign {45} (s @ u) = (sgn, s1 @ u)"
    using scanSign_append [OF assms, of "{45}" s] by simp
  note a = scanInt_append [OF assms] scanFrac_append [OF assms] scanExp_append [OF assms]
  show ?thesis
  proof (cases "scanInt s1")
    case (Some p)
    obtain i s2 where p: "p = (i, s2)" by (cases p)
    show ?thesis
    proof (cases "scanFrac s2")
      case (Some q)
      obtain f s3 where "q = (f, s3)" by (cases q)
      then show ?thesis
        using Some \<open>scanInt s1 = Some p\<close> p by (cases "scanExp s3") (auto simp: scanNumber_def s1 su a)
    qed (simp add: scanNumber_def s1 su a Some p)
  qed (simp add: scanNumber_def s1 su a)
qed

lemma scanString_append: "scanString s = Some (r, rest) \<Longrightarrow> scanString (s @ t) = Some (r, rest @ t)"
proof (induction s arbitrary: r rest rule: scanString.induct)
  case (2 c cs)
  consider "byteval c = 34" | "byteval c = 92" | "byteval c \<noteq> 34" "byteval c \<noteq> 92" by blast
  then show ?case
  proof cases
    case 2: 2
    with "2.prems" obtain e cs1 where cs: "cs = e # cs1" by (cases cs) simp_all
    show ?thesis
    proof (cases "escapeChar e")
      case True
      with "2.prems" 2 cs "2.IH"(1) [OF _ 2 cs True] show ?thesis by auto
    next
      case False
      with "2.prems" 2 cs obtain h1 h2 h3 h4 cs2 where h: "cs1 = h1 # h2 # h3 # h4 # cs2"
        by (auto split: list.splits if_splits)
      with "2.prems" 2 cs False "2.IH"(2) [OF _ 2 cs False _ h] show ?thesis
        by (auto split: if_splits)
    qed
  next
    case 3
    with "2.prems" "2.IH"(3) show ?thesis by (auto split: if_splits)
  qed (use "2.prems" in simp)
qed simp

text \<open>
  Well-formed values: the texts of numbers and strings are such as the scanner accepts, and
  brackets nest at most \<open>d\<close> deep.
\<close>

definition wfNum :: "string \<Rightarrow> bool" where
  "wfNum t \<longleftrightarrow> scanNumber t = Some (t, [])"

definition wfStr :: "string \<Rightarrow> bool" where
  "wfStr raw \<longleftrightarrow> scanString (raw @ [CHR 0x22]) = Some (raw, [])"

fun wfJson :: "nat \<Rightarrow> json \<Rightarrow> bool" where
  "wfJson d JNull \<longleftrightarrow> True"
| "wfJson d (JBool b) \<longleftrightarrow> True"
| "wfJson d (JNum t) \<longleftrightarrow> wfNum t"
| "wfJson d (JStr raw) \<longleftrightarrow> wfStr raw"
| "wfJson d (JArr vs) \<longleftrightarrow> 0 < d \<and> list_all (wfJson (d - 1)) vs"
| "wfJson d (JObj ms) \<longleftrightarrow> 0 < d \<and> list_all (\<lambda>(k, v). wfStr k \<and> wfJson (d - 1) v) ms"

lemma wfStr_scan: "wfStr raw \<Longrightarrow> scanString (raw @ CHR 0x22 # t) = Some (raw, t)"
  using scanString_append [of "raw @ [CHR 0x22]" raw "[]" t] by (simp add: wfStr_def)

lemma wfNum_scan: "wfNum t \<Longrightarrow> delimiter u \<Longrightarrow> scanNumber (t @ u) = Some (t, u)"
  by (simp add: wfNum_def scanNumber_append)

lemma wfNum_head: "wfNum t \<Longrightarrow> \<exists>c cs. t = c # cs \<and> (byteval c = 45 \<or> digit c)"
  by (cases t) (auto simp: wfNum_def scanNumber_def scanInt_def scanSign_def digit_def Let_def split: if_splits option.splits)

lemma render_head:
  "wfJson d j \<Longrightarrow> \<exists>c cs. renderJson j = c # cs \<and> \<not> jsonSpace c \<and> byteval c \<noteq> 93 \<and> byteval c \<noteq> 125"
proof (cases j)
  case (JNum t)
  assume "wfJson d j"
  with JNum obtain c cs where "t = c # cs" "byteval c = 45 \<or> digit c"
    using wfNum_head by force
  with JNum show ?thesis by (auto simp: jsonSpace_def digit_def)
qed (auto simp: jsonSpace_def quoted_def)

lemma skipSpace_id: "\<not> jsonSpace c \<Longrightarrow> skipSpace (c # cs) = c # cs"
  by (simp add: skipSpace_def)

lemma skipSpace_render: "wfJson d j \<Longrightarrow> skipSpace (renderJson j @ u) = renderJson j @ u"
  using render_head [of d j] by (auto simp: skipSpace_id)

lemma scan_num:
  assumes "wfNum t" "delimiter u"
  shows "scanValue (Suc n) d (t @ u) = Some (JNum t, u)"
proof -
  obtain c cs where t: "t = c # cs" and c: "byteval c = 45 \<or> digit c"
    using wfNum_head [OF assms(1)] by blast
  then have "\<not> jsonSpace c" "byteval c \<noteq> 34" "byteval c \<noteq> 91" "byteval c \<noteq> 123"
    "c \<noteq> CHR ''t''" "c \<noteq> CHR ''f''" "c \<noteq> CHR ''n''"
    by (auto simp: jsonSpace_def digit_def)
  with t wfNum_scan [OF assms] show ?thesis
    by (simp add: scan_unfold(1) skipSpace_id HasPrefix_def)
qed

definition reads :: "nat \<Rightarrow> json \<Rightarrow> bool" where
  "reads d v \<longleftrightarrow>
     (\<forall>u n. delimiter u \<longrightarrow> 2 * length (renderJson v) + 1 \<le> n \<longrightarrow>
        scanValue n d (renderJson v @ u) = Some (v, u))"

lemma readsI:
  assumes "\<And>u m. delimiter u \<Longrightarrow> 2 * length (renderJson v) \<le> m \<Longrightarrow>
    scanValue (Suc m) d (renderJson v @ u) = Some (v, u)"
  shows "reads d v"
  unfolding reads_def
proof (intro allI impI)
  fix u n assume "delimiter u" "2 * length (renderJson v) + 1 \<le> n"
  then show "scanValue n d (renderJson v @ u) = Some (v, u)"
    using assms [of u "n - 1"] by (cases n) auto
qed

lemma scan_elements:
  "vs \<noteq> [] \<Longrightarrow> list_all (reads d) vs \<Longrightarrow> 2 * length (Join '','' (map renderJson vs)) + 2 \<le> n \<Longrightarrow>
   scanElements n d (Join '','' (map renderJson vs) @ CHR '']'' # u) = Some (vs, u)"
proof (induction vs arbitrary: n)
  case (Cons v vs)
  then obtain m where n: "n = Suc m" by (cases n) auto
  show ?case
  proof (cases vs)
    case Nil
    with Cons.prems n show ?thesis
      by (simp add: reads_def scan_unfold(2) delimiter_def skipSpace_id jsonSpace_def)
  next
    case (Cons w ws)
    with Cons.prems n Cons.IH [of m] show ?thesis
      by (simp add: reads_def scan_unfold(2) delimiter_def skipSpace_id jsonSpace_def)
  qed
qed simp

abbreviation renderMember :: "string \<times> json \<Rightarrow> string" where
  "renderMember m \<equiv> (case m of (k, v) \<Rightarrow> quoted k @ '':'' @ renderJson v)"

lemma scan_members:
  "ms \<noteq> [] \<Longrightarrow> list_all (\<lambda>(k, v). wfStr k \<and> reads d v) ms \<Longrightarrow>
   2 * length (Join '','' (map renderMember ms)) + 2 \<le> n \<Longrightarrow>
   scanMembers n d (Join '','' (map renderMember ms) @ CHR ''}'' # u) = Some (ms, u)"
proof (induction ms arbitrary: n)
  case (Cons m ms)
  obtain k v where m: "m = (k, v)" by (cases m)
  from Cons.prems obtain l where n: "n = Suc l" by (cases n) auto
  show ?case
  proof (cases ms)
    case Nil
    with Cons.prems n m show ?thesis
      by (simp add: reads_def scan_unfold(3) delimiter_def skipSpace_id jsonSpace_def quoted_def wfStr_scan)
  next
    case (Cons w ws)
    with Cons.prems n m Cons.IH [of l] show ?thesis
      by (simp add: reads_def scan_unfold(3) delimiter_def skipSpace_id jsonSpace_def quoted_def wfStr_scan)
  qed
qed simp

lemma scan_render: "wfJson d j \<Longrightarrow> reads d j"
proof (induction j arbitrary: d)
  case JNull
  show ?case
    by (rule readsI) (simp add: scan_unfold(1) skipSpace_id jsonSpace_def HasPrefix_def)
next
  case (JBool b)
  show ?case
    by (rule readsI) (simp add: scan_unfold(1) skipSpace_id jsonSpace_def HasPrefix_def)
next
  case (JNum t)
  then show ?case
    by (intro readsI) (simp add: scan_num)
next
  case (JStr raw)
  then show ?case
    by (intro readsI) (simp add: scan_unfold(1) skipSpace_id jsonSpace_def quoted_def wfStr_scan)
next
  case (JArr vs)
  then have ih: "list_all (reads (d - 1)) vs" and d: "0 < d" by (auto simp: list_all_iff)
  show ?case
  proof (rule readsI)
    fix u m assume n: "2 * length (renderJson (JArr vs)) \<le> m"
    show "scanValue (Suc m) d (renderJson (JArr vs) @ u) = Some (JArr vs, u)"
    proof (cases vs)
      case Nil
      with d show ?thesis by (simp add: scan_unfold(1) skipSpace_id jsonSpace_def)
    next
      case (Cons w ws)
      let ?s = "Join '','' (map renderJson vs)"
      from Cons JArr.prems obtain c cs where c: "renderJson w = c # cs" "\<not> jsonSpace c" "byteval c \<noteq> 93"
        using render_head [of "d - 1" w] by auto
      then have "\<exists>cs'. ?s = c # cs'"
        using Cons by (cases ws) auto
      then obtain cs' where s: "?s = c # cs'" ..
      have "scanElements m (d - 1) (?s @ CHR '']'' # u) = Some (vs, u)"
        using Cons ih n by (intro scan_elements) (simp_all del: Join.simps)
      with s c d show ?thesis
        by (simp add: scan_unfold(1) skipSpace_id jsonSpace_def)
    qed
  qed
next
  case (JObj ms)
  then have ih: "list_all (\<lambda>(k, v). wfStr k \<and> reads (d - 1) v) ms" and d: "0 < d"
    by (fastforce simp: list_all_iff)+
  show ?case
  proof (rule readsI)
    fix u m assume n: "2 * length (renderJson (JObj ms)) \<le> m"
    show "scanValue (Suc m) d (renderJson (JObj ms) @ u) = Some (JObj ms, u)"
    proof (cases ms)
      case Nil
      with d show ?thesis by (simp add: scan_unfold(1) skipSpace_id jsonSpace_def)
    next
      case (Cons w ws)
      let ?s = "Join '','' (map renderMember ms)"
      have "\<exists>cs'. ?s = CHR 0x22 # cs'"
        using Cons by (cases ws; cases w) (auto simp: quoted_def)
      then obtain cs' where s: "?s = CHR 0x22 # cs'" ..
      have "scanMembers m (d - 1) (?s @ CHR ''}'' # u) = Some (ms, u)"
        using Cons ih n by (intro scan_members) (simp_all del: Join.simps)
      with s d show ?thesis
        by (simp add: scan_unfold(1) skipSpace_id jsonSpace_def)
    qed
  qed
qed

lemma parse_render: "wfJson maxNestingDepth j \<Longrightarrow> parseJson (renderJson j) = Some j"
  using scan_render [of maxNestingDepth j]
  by (auto simp: reads_def delimiter_def parseJson_def skipSpace_def dest!: spec [of _ "[]"])

end
