(* ===== verification/Sha256.thy ===== *)
theory Sha256
  imports Prelude
begin

text \<open>
  SHA-256 (FIPS 180-4), what \<open>crypto/sha256\<close> computes, and \<open>encoding/hex\<close>. The program derives
  the fleet identifier and the payload digest of an observation with them.
\<close>

unbundle bit_operations_syntax

section \<open>SHA-256\<close>

definition roundConstants :: "uint32 list" where
  "roundConstants =
     [1116352408, 1899447441, 3049323471, 3921009573, 961987163, 1508970993, 2453635748, 2870763221,
      3624381080, 310598401, 607225278, 1426881987, 1925078388, 2162078206, 2614888103, 3248222580,
      3835390401, 4022224774, 264347078, 604807628, 770255983, 1249150122, 1555081692, 1996064986,
      2554220882, 2821834349, 2952996808, 3210313671, 3336571891, 3584528711, 113926993, 338241895,
      666307205, 773529912, 1294757372, 1396182291, 1695183700, 1986661051, 2177026350, 2456956037,
      2730485921, 2820302411, 3259730800, 3345764771, 3516065817, 3600352804, 4094571909, 275423344,
      430227734, 506948616, 659060556, 883997877, 958139571, 1322822218, 1537002063, 1747873779,
      1955562222, 2024104815, 2227730452, 2361852424, 2428436474, 2756734187, 3204031479, 3329325298]"

definition initialHash :: "uint32 list" where
  "initialHash =
     [1779033703, 3144134277, 1013904242, 2773480762, 1359893119, 2600822924, 528734635, 1541459225]"

definition rotr :: "nat \<Rightarrow> uint32 \<Rightarrow> uint32" where
  "rotr n x = drop_bit n x OR push_bit (32 - n) x"

definition lowSigma0 :: "uint32 \<Rightarrow> uint32" where
  "lowSigma0 x = rotr 7 x XOR rotr 18 x XOR drop_bit 3 x"

definition lowSigma1 :: "uint32 \<Rightarrow> uint32" where
  "lowSigma1 x = rotr 17 x XOR rotr 19 x XOR drop_bit 10 x"

definition bigSigma0 :: "uint32 \<Rightarrow> uint32" where
  "bigSigma0 x = rotr 2 x XOR rotr 13 x XOR rotr 22 x"

definition bigSigma1 :: "uint32 \<Rightarrow> uint32" where
  "bigSigma1 x = rotr 6 x XOR rotr 11 x XOR rotr 25 x"

definition choose3 :: "uint32 \<Rightarrow> uint32 \<Rightarrow> uint32 \<Rightarrow> uint32" where
  "choose3 x y z = (x AND y) XOR (NOT x AND z)"

definition majority3 :: "uint32 \<Rightarrow> uint32 \<Rightarrow> uint32 \<Rightarrow> uint32" where
  "majority3 x y z = (x AND y) XOR (x AND z) XOR (y AND z)"

text \<open>The 64 words of the schedule, the newest first in the accumulator.\<close>

fun schedule :: "nat \<Rightarrow> uint32 list \<Rightarrow> uint32 list" where
  "schedule 0 ws = rev ws"
| "schedule (Suc n) ws =
     schedule n ((lowSigma1 (ws ! 1) + ws ! 6 + lowSigma0 (ws ! 14) + ws ! 15) # ws)"

definition nextState ::
    "uint32 \<Rightarrow> uint32 \<Rightarrow> uint32 \<Rightarrow> uint32 \<Rightarrow> uint32 \<Rightarrow> uint32 \<Rightarrow> uint32 \<Rightarrow> uint32 \<Rightarrow> uint32 \<Rightarrow> uint32 list" where
  "nextState t1 t2 a b c d e f g = [t1 + t2, a, b, c, d + t1, e, f, g]"

fun round256 :: "uint32 list \<Rightarrow> uint32 \<times> uint32 \<Rightarrow> uint32 list" where
  "round256 [a, b, c, d, e, f, g, h] (k, w) =
     nextState (h + bigSigma1 e + choose3 e f g + k + w) (bigSigma0 a + majority3 a b c) a b c d e f g"
| "round256 xs kw = xs"

definition compress :: "uint32 list \<Rightarrow> uint32 list \<Rightarrow> uint32 list" where
  "compress hs block =
     map2 (+) hs (fold (\<lambda>kw st. round256 st kw) (zip roundConstants (schedule 48 (rev block))) hs)"

fun words32 :: "bytes \<Rightarrow> uint32 list" where
  "words32 (a # b # c # d # bs) =
     (push_bit 24 (ucast a) + push_bit 16 (ucast b) + push_bit 8 (ucast c) + ucast d) # words32 bs"
| "words32 _ = []"

definition bytes32 :: "uint32 \<Rightarrow> bytes" where
  "bytes32 w = [ucast (drop_bit 24 w), ucast (drop_bit 16 w), ucast (drop_bit 8 w), ucast w]"

definition lengthBytes :: "nat \<Rightarrow> bytes" where
  "lengthBytes n = map (\<lambda>i. of_nat (8 * n div 256 ^ (7 - i))) [0..<8]"

definition padding :: "nat \<Rightarrow> bytes" where
  "padding n = 128 # replicate ((119 - n mod 64) mod 64) 0 @ lengthBytes n"

fun blocks :: "nat \<Rightarrow> uint32 list \<Rightarrow> uint32 list list" where
  "blocks 0 ws = []"
| "blocks (Suc n) ws = take 16 ws # blocks n (drop 16 ws)"

definition sha256 :: "bytes \<Rightarrow> bytes" where
  "sha256 m =
     (let ws = words32 (m @ padding (length m))
      in concat (map bytes32 (fold (\<lambda>b hs. compress hs b) (blocks (length ws div 16) ws) initialHash)))"

section \<open>Hexadecimal text\<close>

definition hexDigit :: "nat \<Rightarrow> char" where
  "hexDigit n = ''0123456789abcdef'' ! n"

definition hexEncode :: "bytes \<Rightarrow> string" where
  "hexEncode bs = concat (map (\<lambda>b. [hexDigit (unat b div 16), hexDigit (unat b mod 16)]) bs)"

lemma length_hexEncode [simp]: "length (hexEncode bs) = 2 * length bs"
  by (simp add: hexEncode_def length_concat comp_def sum_list_triv)

lemma set_hexEncode: "set (hexEncode bs) \<subseteq> set ''0123456789abcdef''"
proof -
  have "hexDigit n \<in> set ''0123456789abcdef''" if "n < 16" for n
    unfolding hexDigit_def using that by (intro nth_mem) simp
  moreover have "unat (b :: byte) div 16 < 16" for b
    by (rule less_mult_imp_div_less) (use unsigned_less [of b] in simp)
  ultimately have "set [hexDigit (unat b div 16), hexDigit (unat b mod 16)] \<subseteq> set ''0123456789abcdef''" for b :: byte
    by (metis (no_types, lifting) empty_subsetI insert_subset list.set(1) list.simps(15) mod_less_divisor zero_less_numeral)
  then show ?thesis unfolding hexEncode_def by (simp only: set_concat set_map) blast
qed

section \<open>Sizes\<close>

lemma length_round256: "length (round256 st kw) = length st"
  by (induction st kw rule: round256.induct) (simp_all add: nextState_def)

lemma length_fold_round256: "length (fold (\<lambda>kw st. round256 st kw) kws st) = length st"
  by (induction kws arbitrary: st) (simp_all add: length_round256)

lemma length_compress [simp]: "length (compress hs block) = length hs"
  by (simp add: compress_def length_fold_round256)

lemma length_fold_compress: "length (fold (\<lambda>b hs. compress hs b) bs hs) = length hs"
  by (induction bs arbitrary: hs) simp_all

lemma length_concat_bytes32: "length (concat (map bytes32 ws)) = 4 * length ws"
  by (induction ws) (simp_all add: bytes32_def)

lemma length_sha256 [simp]: "length (sha256 m) = 32"
  by (simp add: sha256_def length_concat_bytes32 length_fold_compress initialHash_def Let_def)

end
