(* ===== verification/Codec.thy ===== *)
theory Codec
  imports Json Sha256
begin

text \<open>
  Text inside JSON strings and the byte slices and numbers of a record: \<open>Marshal\<close>'s quoting with
  HTML escapes, \<open>Unmarshal\<close>'s unquoting, standard base64, decimal numbers.
\<close>

section \<open>Quoting\<close>

definition hexPair :: "nat \<Rightarrow> string" where
  "hexPair n = [hexDigit (n div 16), hexDigit (n mod 16)]"

definition quoteASCII :: "nat \<Rightarrow> string" where
  "quoteASCII b =
     (if b = 34 \<or> b = 92 then [CHR 0x5C, char_of b]
      else if b = 8 then [CHR 0x5C, CHR ''b'']
      else if b = 12 then [CHR 0x5C, CHR ''f'']
      else if b = 10 then [CHR 0x5C, CHR ''n'']
      else if b = 13 then [CHR 0x5C, CHR ''r'']
      else if b = 9 then [CHR 0x5C, CHR ''t'']
      else if b < 32 \<or> b = 60 \<or> b = 62 \<or> b = 38 then [CHR 0x5C, CHR ''u'', CHR ''0'', CHR ''0''] @ hexPair b
      else [char_of b])"

definition quoteChunk :: "rune \<times> string \<Rightarrow> string" where
  "quoteChunk p =
     (case p of (r, cs) \<Rightarrow>
        if r < 128 then quoteASCII r
        else if r = RuneError \<and> length cs = 1 then CHR 0x5C # ''ufffd''
        else if r = 8232 then CHR 0x5C # ''u2028''
        else if r = 8233 then CHR 0x5C # ''u2029''
        else cs)"

definition quoteText :: "string \<Rightarrow> string" where
  "quoteText s = concat (map quoteChunk (chunks s))"

section \<open>Unquoting\<close>

definition hexVal :: "char \<Rightarrow> nat" where
  "hexVal c =
     (if digit c then byteval c - 48
      else if 97 \<le> byteval c then byteval c - 87
      else byteval c - 55)"

definition hex4 :: "string \<Rightarrow> nat" where
  "hex4 ds = foldl (\<lambda>n c. n * 16 + hexVal c) 0 (take 4 ds)"

definition encodeRune :: "rune \<Rightarrow> string" where
  "encodeRune r =
     (let r = (if r > 1114111 \<or> (55296 \<le> r \<and> r \<le> 57343) then RuneError else r)
      in map char_of
        (if r < 128 then [r]
         else if r < 2048 then [192 + r div 64, 128 + r mod 64]
         else if r < 65536 then [224 + r div 4096, 128 + r div 64 mod 64, 128 + r mod 64]
         else [240 + r div 262144, 128 + r div 4096 mod 64, 128 + r div 64 mod 64, 128 + r mod 64]))"

definition isSurrogate :: "rune \<Rightarrow> bool" where
  "isSurrogate r \<longleftrightarrow> 55296 \<le> r \<and> r < 57344"

text \<open>\<open>utf16.DecodeRune\<close> on a high and a low surrogate.\<close>

definition decodeSurrogates :: "rune \<Rightarrow> rune \<Rightarrow> rune" where
  "decodeSurrogates r1 r2 =
     (if 55296 \<le> r1 \<and> r1 < 56320 \<and> 56320 \<le> r2 \<and> r2 < 57344
      then (r1 - 55296) * 1024 + (r2 - 56320) + 65536 else RuneError)"

text \<open>The rune of a second escape right behind the first, 0 when there is none.\<close>

definition nextEscape :: "string \<Rightarrow> rune option" where
  "nextEscape s =
     (case s of
        c # u # ds \<Rightarrow>
          if byteval c = 92 \<and> byteval u = 117 \<and> 4 \<le> length ds \<and> list_all hexChar (take 4 ds)
          then Some (hex4 ds) else None
      | _ \<Rightarrow> None)"

definition unescape1 :: "char \<Rightarrow> string" where
  "unescape1 e =
     (if byteval e = 98 then [char_of (8 :: nat)]
      else if byteval e = 102 then [char_of (12 :: nat)]
      else if byteval e = 110 then [char_of (10 :: nat)]
      else if byteval e = 114 then [char_of (13 :: nat)]
      else if byteval e = 116 then [char_of (9 :: nat)]
      else [e])"

function unquoteText :: "string \<Rightarrow> string" where
  "unquoteText [] = []"
| "unquoteText (c # cs) =
     (if byteval c = 92 then
        (case cs of
           [] \<Rightarrow> []
         | e # ds \<Rightarrow>
             if byteval e = 117 then
               (let r = hex4 ds; rest = drop 4 ds
                in if isSurrogate r then
                     (case nextEscape rest of
                        Some r2 \<Rightarrow>
                          if decodeSurrogates r r2 \<noteq> RuneError
                          then encodeRune (decodeSurrogates r r2) @ unquoteText (drop 6 rest)
                          else encodeRune RuneError @ unquoteText rest
                      | None \<Rightarrow> encodeRune RuneError @ unquoteText rest)
                   else encodeRune r @ unquoteText rest)
             else unescape1 e @ unquoteText ds)
      else
        (let (r, n) = decodeRune (map byteval (c # cs))
         in (if r = RuneError \<and> n = 1 then encodeRune RuneError else c # take (n - 1) cs) @
            unquoteText (drop (n - 1) cs)))"
  by pat_completeness auto
termination
  by (relation "measure length") auto

declare unquoteText.simps(2) [simp del]

section \<open>Base64 and numbers\<close>

definition base64Alphabet :: string where
  "base64Alphabet = ''ABCDEFGHIJKLMNOPQRSTUVWXYZabcdefghijklmnopqrstuvwxyz0123456789+/''"

definition base64Char :: "nat \<Rightarrow> char" where
  "base64Char n = base64Alphabet ! n"

definition base64Val :: "char \<Rightarrow> nat option" where
  "base64Val c =
     (let b = byteval c
      in if 65 \<le> b \<and> b \<le> 90 then Some (b - 65)
         else if 97 \<le> b \<and> b \<le> 122 then Some (b - 71)
         else if 48 \<le> b \<and> b \<le> 57 then Some (b + 4)
         else if b = 43 then Some 62
         else if b = 47 then Some 63
         else None)"

fun base64Encode :: "bytes \<Rightarrow> string" where
  "base64Encode [] = []"
| "base64Encode [a] = [base64Char (unat a div 4), base64Char (unat a mod 4 * 16), CHR ''='', CHR ''='']"
| "base64Encode [a, b] =
     [base64Char (unat a div 4), base64Char (unat a mod 4 * 16 + unat b div 16),
      base64Char (unat b mod 16 * 4), CHR ''='']"
| "base64Encode (a # b # c # bs) =
     [base64Char (unat a div 4), base64Char (unat a mod 4 * 16 + unat b div 16),
      base64Char (unat b mod 16 * 4 + unat c div 64), base64Char (unat c mod 64)] @ base64Encode bs"

fun base64Quanta :: "string \<Rightarrow> bytes option" where
  "base64Quanta [] = Some []"
| "base64Quanta (p # q # r # s # rest) =
     (case (base64Val p, base64Val q) of
        (Some v, Some w) \<Rightarrow>
          (let a = of_nat (v * 4 + w div 16)
           in if r = CHR ''='' then (if s = CHR ''='' \<and> rest = [] then Some [a] else None)
              else (case base64Val r of
                 None \<Rightarrow> None
               | Some x \<Rightarrow>
                   (let b = of_nat (w mod 16 * 16 + x div 4)
                    in if s = CHR ''='' then (if rest = [] then Some [a, b] else None)
                       else (case base64Val s of
                          None \<Rightarrow> None
                        | Some y \<Rightarrow> map_option (\<lambda>bs. a # b # of_nat (x mod 4 * 64 + y) # bs) (base64Quanta rest)))))
      | _ \<Rightarrow> None)"
| "base64Quanta _ = None"

definition base64Decode :: "string \<Rightarrow> bytes option" where
  "base64Decode s = base64Quanta (filter (\<lambda>c. byteval c \<noteq> 10 \<and> byteval c \<noteq> 13) s)"

definition digitChar :: "nat \<Rightarrow> char" where
  "digitChar d = char_of (48 + d)"

fun natString :: "nat \<Rightarrow> string" where
  "natString n = (if n < 10 then [digitChar n] else natString (n div 10) @ [digitChar (n mod 10)])"

declare natString.simps [simp del]

text \<open>\<open>strconv.ParseUint\<close> in base 10.\<close>

definition parseUint :: "string \<Rightarrow> nat option" where
  "parseUint s =
     (if s \<noteq> [] \<and> list_all digit s
      then (let n = foldl (\<lambda>n c. n * 10 + (byteval c - 48)) 0 s in if n < 2 ^ 64 then Some n else None)
      else None)"

section \<open>Quoted text passes the scanner\<close>

text \<open>A piece of text the scanner goes through without ending the string.\<close>

definition prepend :: "string \<Rightarrow> (string \<times> string) option \<Rightarrow> (string \<times> string) option" where
  "prepend p r = (case r of None \<Rightarrow> None | Some (raw, rest) \<Rightarrow> Some (p @ raw, rest))"

definition through :: "string \<Rightarrow> bool" where
  "through p \<longleftrightarrow> (\<forall>t. scanString (p @ t) = prepend p (scanString t))"

lemma prepend_Nil [simp]: "prepend [] r = r"
  by (simp add: prepend_def split: option.splits)

lemma prepend_prepend [simp]: "prepend p (prepend q r) = prepend (p @ q) r"
  by (simp add: prepend_def split: option.splits)

lemma map_prod_prepend:
  "map_option (map_prod (\<lambda>r. c # r) id) x = prepend [c] x"
  "map_option (map_prod (\<lambda>r. c # d # r) id) x = prepend [c, d] x"
  "map_option (map_prod (\<lambda>r. c # d # e # f # g # h # r) id) x = prepend [c, d, e, f, g, h] x"
  by (simp_all add: prepend_def split: option.splits)

lemma through_Nil: "through []"
  by (simp add: through_def)

lemma through_append: "through p \<Longrightarrow> through q \<Longrightarrow> through (p @ q)"
  by (simp add: through_def)

lemma through_concat: "list_all through ps \<Longrightarrow> through (concat ps)"
  by (induction ps) (simp_all add: through_Nil through_append)

definition plain :: "char \<Rightarrow> bool" where
  "plain c \<longleftrightarrow> 32 \<le> byteval c \<and> byteval c \<noteq> 34 \<and> byteval c \<noteq> 92"

lemma through_char: "plain c \<Longrightarrow> through [c]"
  by (simp add: through_def plain_def map_prod_prepend)

lemma through_escape: "byteval c = 92 \<Longrightarrow> escapeChar e \<Longrightarrow> through [c, e]"
  by (simp add: through_def map_prod_prepend)

lemma through_hex:
  "byteval c = 92 \<Longrightarrow> byteval u = 117 \<Longrightarrow> list_all hexChar [h1, h2, h3, h4] \<Longrightarrow> through [c, u, h1, h2, h3, h4]"
  by (simp add: through_def map_prod_prepend escapeChar_def)

lemma through_plain: "list_all plain p \<Longrightarrow> through p"
proof (induction p)
  case (Cons c p)
  with through_append [OF through_char [of c], of p] show ?case by simp
qed (simp add: through_Nil)

lemma through_wfStr: "through raw \<Longrightarrow> wfStr raw"
  by (simp add: through_def wfStr_def prepend_def)

lemma hexDigit_hexChar: "n < 16 \<Longrightarrow> hexChar (hexDigit n)"
proof -
  have "\<forall>n < 16. hexChar (hexDigit n)"
    by (simp add: hexDigit_def hexChar_def digit_def All_less_Suc numeral_eq_Suc)
  then show "n < 16 \<Longrightarrow> hexChar (hexDigit n)" by blast
qed

lemma through_quoteASCII: "b < 128 \<Longrightarrow> through (quoteASCII b)"
proof -
  assume b: "b < 128"
  show ?thesis
  proof (cases "b < 32 \<or> b = 34 \<or> b = 92 \<or> b = 60 \<or> b = 62 \<or> b = 38")
    case False
    with b show ?thesis by (simp add: quoteASCII_def through_char plain_def)
  next
    case True
    have "hexChar (hexDigit (b div 16))" "hexChar (hexDigit (b mod 16))"
      using b by (auto intro: hexDigit_hexChar)
    moreover have "hexChar CHR ''0''" by (simp add: hexChar_def digit_def)
    ultimately have "through ([CHR 0x5C, CHR ''u'', CHR ''0'', CHR ''0''] @ hexPair b)"
      unfolding hexPair_def append.simps by (intro through_hex) simp_all
    with True b show ?thesis
      by (auto simp: quoteASCII_def intro!: through_escape simp: escapeChar_def)
  qed
qed

lemma quoteText_Nil [simp]: "quoteText [] = []"
  by (simp add: quoteText_def)

lemma quoteText_ascii: "byteval c < 128 \<Longrightarrow> quoteText (c # t) = quoteASCII (byteval c) @ quoteText t"
  by (simp add: quoteText_def chunks_low quoteChunk_def)

lemma quoteText_multi:
  assumes "multibyte (map byteval p) r"
  shows "quoteText (p @ t) =
    (if r = 8232 then CHR 0x5C # ''u2028'' else if r = 8233 then CHR 0x5C # ''u2029'' else p) @ quoteText t"
  using multibyte_high [OF assms] by (simp add: quoteText_def chunks_multibyte [OF assms] quoteChunk_def)

lemma quoteText_invalid:
  "chunks (c # t) = (RuneError, [c]) # chunks t \<Longrightarrow> quoteText (c # t) = (CHR 0x5C # ''ufffd'') @ quoteText t"
  by (simp add: quoteText_def quoteChunk_def RuneError_def)

lemma through_fixed:
  "through (CHR 0x5C # ''u2028'')" "through (CHR 0x5C # ''u2029'')" "through (CHR 0x5C # ''ufffd'')"
  by (rule through_hex; simp add: hexChar_def digit_def)+

lemma wfStr_quoteText: "wfStr (quoteText s)"
proof (rule through_wfStr, induction s rule: chunk_induct)
  case (multi p r t)
  have "plain c" if "c \<in> set p" for c
    using multibyte_high(1) [OF multi(1)] that by (fastforce simp: plain_def)
  then have "through p"
    by (intro through_plain) (simp add: list_all_iff)
  with multi(2) through_fixed show ?case
    unfolding quoteText_multi [OF multi(1)] by (intro through_append) simp_all
next
  case (invalid c t)
  with through_fixed(3) show ?case
    by (simp only: quoteText_invalid [OF invalid(2)]) (rule through_append)
qed (simp_all add: through_Nil quoteText_ascii through_append through_quoteASCII)

section \<open>Quoting is undone\<close>

definition validText :: "string \<Rightarrow> bool" where
  "validText s \<longleftrightarrow> list_all (\<lambda>(r, cs). r \<noteq> RuneError \<or> length cs \<noteq> 1) (chunks s)"

lemma unquote_multi:
  assumes "multibyte (map byteval p) r"
  shows "unquoteText (p @ t) = p @ unquoteText t"
proof (cases p)
  case (Cons c cs)
  with decodeRune_multibyte [OF assms, of "map byteval t"] multibyte_high [OF assms]
  show ?thesis by (auto simp: unquoteText.simps(2))
qed (use assms in simp)

lemma unquote_low: "byteval c < 128 \<Longrightarrow> byteval c \<noteq> 92 \<Longrightarrow> unquoteText (c # t) = c # unquoteText t"
  by (simp add: unquoteText.simps(2) decodeRune_def RuneError_def)

lemma unquote_escape:
  "byteval c = 92 \<Longrightarrow> byteval e \<noteq> 117 \<Longrightarrow> unquoteText (c # e # t) = unescape1 e @ unquoteText t"
  by (simp add: unquoteText.simps(2))

lemma unquote_hex:
  assumes "\<not> isSurrogate (hex4 [h1, h2, h3, h4])"
  shows "unquoteText (CHR 0x5C # CHR ''u'' # h1 # h2 # h3 # h4 # t) =
    encodeRune (hex4 [h1, h2, h3, h4]) @ unquoteText t"
proof -
  have "hex4 (h1 # h2 # h3 # h4 # t) = hex4 [h1, h2, h3, h4]" by (simp add: hex4_def)
  with assms show ?thesis by (simp add: unquoteText.simps(2) Let_def)
qed

lemma hexVal_hexDigit: "n < 16 \<Longrightarrow> hexVal (hexDigit n) = n"
proof -
  have "\<forall>n < 16. hexVal (hexDigit n) = n"
    by (simp add: hexDigit_def hexVal_def digit_def All_less_Suc numeral_eq_Suc)
  then show "n < 16 \<Longrightarrow> hexVal (hexDigit n) = n" by blast
qed

lemma unquote_quoteASCII:
  assumes "b < 128"
  shows "unquoteText (quoteASCII b @ t) = char_of b # unquoteText t"
proof (cases "b < 32 \<or> b = 34 \<or> b = 92 \<or> b = 60 \<or> b = 62 \<or> b = 38")
  case False
  with assms show ?thesis by (simp add: quoteASCII_def unquote_low)
next
  case True
  have v: "hex4 [CHR ''0'', CHR ''0'', hexDigit (b div 16), hexDigit (b mod 16)] = b"
    using assms by (simp add: hex4_def hexVal_hexDigit hexVal_def [of "CHR ''0''"] digit_def less_mult_imp_div_less)
  have "unquoteText (CHR 0x5C # CHR ''u'' # CHR ''0'' # CHR ''0'' # hexPair b @ t) = char_of b # unquoteText t"
    unfolding hexPair_def append.simps using assms by (subst unquote_hex) (simp_all add: v isSurrogate_def encodeRune_def)
  with True assms show ?thesis
    by (auto simp: quoteASCII_def unquote_escape unescape1_def)
qed

lemma multibyte_separators:
  "multibyte bs 8232 \<Longrightarrow> bs = [226, 128, 168]"
  "multibyte bs 8233 \<Longrightarrow> bs = [226, 128, 169]"
proof -
  have b0: "bs = [226, 128, 168 + k]" if "multibyte bs (8232 + k)" "k \<le> 1" for k
    using that
  proof (cases "(bs, 8232 + k)" rule: multibyte.cases)
    case (2 b0 b1 b2)
    with that have b: "224 \<le> b0" "b0 \<le> 239" "128 \<le> b1" "b1 \<le> 191" "128 \<le> b2" "b2 \<le> 191"
      and e: "8232 + k = (b0 - 224) * 4096 + (b1 - 128) * 64 + (b2 - 128)"
      by (auto simp: cont_def split: if_splits)
    from b e \<open>k \<le> 1\<close> have "b0 = 226" by arith
    moreover from this b e \<open>k \<le> 1\<close> have "b1 = 128" by arith
    ultimately show ?thesis using 2 b e by simp
  qed (auto simp: cont_def split: if_splits)
  from b0 [of 0] b0 [of 1] show "multibyte bs 8232 \<Longrightarrow> bs = [226, 128, 168]"
    "multibyte bs 8233 \<Longrightarrow> bs = [226, 128, 169]" by simp_all
qed

lemma map_byteval_inject: "map byteval p = map byteval q \<longleftrightarrow> p = q"
  by (rule inj_map_eq_map) (rule inj_on_inverseI [of _ char_of], simp)

lemma encode_separators:
  "map byteval (encodeRune 8232) = [226, 128, 168]" "map byteval (encodeRune 8233) = [226, 128, 169]"
  by (simp_all add: encodeRune_def)

lemma hex4_separators:
  "hex4 ''2028'' = 8232" "hex4 ''2029'' = 8233"
  by (simp_all add: hex4_def hexVal_def digit_def)

lemma validText_simps:
  "validText []"
  "byteval c < 128 \<Longrightarrow> validText (c # t) = validText t"
  "multibyte (map byteval p) r \<Longrightarrow> validText (p @ t) = validText t"
  using multibyte_high(3) [of "map byteval p" r]
  by (auto simp: validText_def chunks_low chunks_multibyte RuneError_def)

lemma unquote_quoteText: "validText s \<Longrightarrow> unquoteText (quoteText s) = s"
proof (induction s rule: chunk_induct)
  case (ascii c t)
  then show ?case by (simp add: quoteText_ascii unquote_quoteASCII validText_simps)
next
  case (multi p r t)
  then have ih: "unquoteText (quoteText t) = t" by (simp add: validText_simps)
  consider "r = 8232" | "r = 8233" | "r \<noteq> 8232" "r \<noteq> 8233" by blast
  then show ?case
  proof cases
    case 1
    with multibyte_separators(1) multi(1) have "p = encodeRune 8232"
      by (metis encode_separators(1) map_byteval_inject)
    with 1 ih show ?thesis
      unfolding quoteText_multi [OF multi(1)] by (simp add: unquote_hex hex4_separators isSurrogate_def)
  next
    case 2
    with multibyte_separators(2) multi(1) have "p = encodeRune 8233"
      by (metis encode_separators(2) map_byteval_inject)
    with 2 ih show ?thesis
      unfolding quoteText_multi [OF multi(1)] by (simp add: unquote_hex hex4_separators isSurrogate_def)
  next
    case 3
    with ih show ?thesis by (simp add: quoteText_multi [OF multi(1)] unquote_multi [OF multi(1)])
  qed
next
  case (invalid c t)
  then show ?case by (simp add: validText_def)
qed simp

lemma validText_ascii: "list_all asciiChar s \<Longrightarrow> validText s"
  by (induction s) (simp_all add: validText_simps asciiChar_def)

section \<open>Base64\<close>

lemma base64Val_Char: "n < 64 \<Longrightarrow> base64Val (base64Char n) = Some n"
proof -
  have "\<forall>n < 64. base64Val (base64Char n) = Some n"
    by (simp add: base64Val_def base64Char_def base64Alphabet_def All_less_Suc numeral_eq_Suc)
  then show "n < 64 \<Longrightarrow> base64Val (base64Char n) = Some n" by blast
qed

lemma base64Val_pad: "base64Val (CHR ''='') = None"
  by (simp add: base64Val_def)

lemma base64Char_pad: "n < 64 \<Longrightarrow> base64Char n \<noteq> CHR ''=''"
  using base64Val_Char [of n] base64Val_pad by auto

lemma byte_less: "unat (a :: byte) < 256"
  using unsigned_less [of a] by simp

lemma of_nat_byte: "of_nat (unat (a :: byte)) = a"
  by simp

lemma sextets:
  "unat (a :: byte) div 4 < 64" "unat a mod 4 * 16 < 64" "unat a mod 4 * 16 + unat (b :: byte) div 16 < 64"
  "unat b mod 16 * 4 < 64" "unat b mod 16 * 4 + unat (c :: byte) div 64 < 64" "unat c mod 64 < 64"
  using byte_less [of a] byte_less [of b] byte_less [of c] by (simp_all add: less_mult_imp_div_less)

lemma octets:
  "unat (a :: byte) div 4 * 4 + unat a mod 4 * 16 div 16 = unat a"
  "unat a div 4 * 4 + (unat a mod 4 * 16 + unat (b :: byte) div 16) div 16 = unat a"
  "(unat a mod 4 * 16 + unat b div 16) mod 16 * 16 + unat b mod 16 * 4 div 4 = unat b"
  "(unat a mod 4 * 16 + unat b div 16) mod 16 * 16 + (unat b mod 16 * 4 + unat (c :: byte) div 64) div 4 = unat b"
  "(unat b mod 16 * 4 + unat c div 64) mod 4 * 64 + unat c mod 64 = unat c"
  using byte_less [of a] byte_less [of b] byte_less [of c]
  by (simp_all add: less_mult_imp_div_less)

lemma base64_quanta: "base64Quanta (base64Encode bs) = Some bs"
  by (induction bs rule: base64Encode.induct)
    (simp_all only: base64Encode.simps base64Quanta.simps append.simps base64Val_Char sextets octets
      option.case prod.case Let_def base64Char_pad if_False if_True simp_thms option.map of_nat_byte)

lemma plain_base64Char: "n < 64 \<Longrightarrow> plain (base64Char n)"
proof -
  have "list_all plain base64Alphabet"
    by (simp add: base64Alphabet_def plain_def)
  moreover have "length base64Alphabet = 64"
    by (simp add: base64Alphabet_def)
  ultimately show "n < 64 \<Longrightarrow> plain (base64Char n)"
    by (simp add: base64Char_def list_all_length)
qed

lemma plain_base64Encode: "list_all plain (base64Encode bs)"
  by (induction bs rule: base64Encode.induct)
    (simp_all only: base64Encode.simps list.pred_inject append.simps plain_base64Char sextets simp_thms,
      simp_all add: plain_def)

lemma wfStr_base64: "wfStr (base64Encode bs)"
  by (rule through_wfStr [OF through_plain [OF plain_base64Encode]])

lemma unquote_plain: "list_all (\<lambda>c. plain c \<and> asciiChar c) s \<Longrightarrow> unquoteText s = s"
  by (induction s) (simp_all add: unquote_low plain_def asciiChar_def)

lemma filter_plain: "list_all plain s \<Longrightarrow> filter (\<lambda>c. byteval c \<noteq> 10 \<and> byteval c \<noteq> 13) s = s"
  by (induction s) (auto simp: plain_def)

text \<open>
  A byte slice of a record survives its text: standard base64 decodes what it encodes.
\<close>
theorem base64_roundtrip: "base64Decode (base64Encode bs) = Some bs"
  by (simp add: base64Decode_def filter_plain [OF plain_base64Encode] base64_quanta)

lemma ascii_base64Encode: "list_all asciiChar (base64Encode bs)"
proof -
  have "asciiChar (base64Char n)" if "n < 64" for n
  proof -
    have "list_all asciiChar base64Alphabet" by (simp add: base64Alphabet_def asciiChar_def)
    moreover have "length base64Alphabet = 64" by (simp add: base64Alphabet_def)
    ultimately show ?thesis using that by (simp add: base64Char_def list_all_length)
  qed
  then show ?thesis
    by (induction bs rule: base64Encode.induct)
      (simp_all only: base64Encode.simps list.pred_inject append.simps sextets simp_thms,
        simp_all add: asciiChar_def)
qed

lemma unquote_base64: "unquoteText (base64Encode bs) = base64Encode bs"
  using plain_base64Encode ascii_base64Encode by (intro unquote_plain) (simp add: list_all_iff)

section \<open>Numbers\<close>

lemma digitChar: "d < 10 \<Longrightarrow> digit (digitChar d) \<and> byteval (digitChar d) = 48 + d"
  by (simp add: digitChar_def digit_def)

lemma natString_digits: "list_all digit (natString n) \<and> natString n \<noteq> []"
  by (induction n rule: natString.induct) (simp add: natString.simps [of n for n] digitChar)

lemma natString_value: "foldl (\<lambda>n c. n * 10 + (byteval c - 48)) 0 (natString n) = n"
  by (induction n rule: natString.induct) (subst natString.simps, auto simp: digitChar)

lemma natString_head: "0 < n \<Longrightarrow> byteval (hd (natString n)) \<noteq> 48"
proof (induction n rule: natString.induct)
  case (1 n)
  then show ?case
    using natString_digits [of "n div 10"] by (subst natString.simps) (auto simp: digitChar)
qed

lemma parseUint_natString: "n < 2 ^ 64 \<Longrightarrow> parseUint (natString n) = Some n"
  by (simp add: parseUint_def natString_digits natString_value)

lemma wfNum_natString: "wfNum (natString n)"
proof (cases "n = 0")
  case True
  then show ?thesis
    by (simp add: natString.simps digitChar_def wfNum_def scanNumber_def scanSign_def scanInt_def
      scanFrac_def scanExp_def char_of_def bit_0)
next
  case False
  have d: "list_all digit (natString n)" using natString_digits by blast
  obtain c cs where c: "natString n = c # cs" using natString_digits by (cases "natString n") auto
  with d natString_head [of n] False have "digit c" "byteval c \<noteq> 48" "byteval c \<noteq> 45"
    by (auto simp: digit_def)
  moreover have "spanDigits (c # cs) = (c # cs, [])"
    using d c by (simp add: spanDigits_def takeWhile_eq_all_conv dropWhile_eq_Nil_conv list_all_iff)
  ultimately show ?thesis
    by (simp add: c wfNum_def scanNumber_def scanSign_def scanInt_def scanFrac_def scanExp_def)
qed

end
