(* ===== verification/SpoolRecord.thy ===== *)
theory SpoolRecord
  imports Codec
begin

text \<open>
  The spool's record of \<open>internal/spool/spool.go\<close> and its JSON text: what \<open>json.Marshal\<close> writes
  for it and what \<open>json.Unmarshal\<close> makes of any text. The payload is \<open>None\<close> for a nil slice.
\<close>

section \<open>Records\<close>

record Record =
  recID :: string
  recClass :: string
  recTopic :: string
  recQoS :: byte
  recRetain :: bool
  recPayload :: "bytes option"

definition zeroRecord :: Record where
  "zeroRecord =
     \<lparr>recID = '''', recClass = '''', recTopic = '''', recQoS = 0, recRetain = False, recPayload = None\<rparr>"

definition recordJson :: "Record \<Rightarrow> json" where
  "recordJson r =
     JObj
       [(''id'', JStr (quoteText (recID r))),
        (''class'', JStr (quoteText (recClass r))),
        (''topic'', JStr (quoteText (recTopic r))),
        (''qos'', JNum (natString (unat (recQoS r)))),
        (''retain'', JBool (recRetain r)),
        (''payload'', case recPayload r of None \<Rightarrow> JNull | Some bs \<Rightarrow> JStr (base64Encode bs))]"

definition marshalRecord :: "Record \<Rightarrow> string" where
  "marshalRecord r = renderJson (recordJson r)"

section \<open>Unmarshal\<close>

text \<open>
  A key names a field when they are equal up to case; beyond ASCII the long s and the Kelvin
  sign fold to letters.
\<close>

definition foldRune :: "rune \<Rightarrow> rune" where
  "foldRune r =
     (if 65 \<le> r \<and> r \<le> 90 then r + 32 else if r = 383 then 115 else if r = 8490 then 107 else r)"

definition matchesField :: "string \<Rightarrow> string \<Rightarrow> bool" where
  "matchesField key field \<longleftrightarrow> map foldRune (runes key) = map byteval field"

definition decodeString :: "json \<Rightarrow> string \<Rightarrow> string option" where
  "decodeString v old = (case v of JStr raw \<Rightarrow> Some (unquoteText raw) | JNull \<Rightarrow> Some old | _ \<Rightarrow> None)"

definition decodeUint8 :: "json \<Rightarrow> byte \<Rightarrow> byte option" where
  "decodeUint8 v old =
     (case v of
        JNum t \<Rightarrow> (case parseUint t of Some n \<Rightarrow> if n < 256 then Some (of_nat n) else None | None \<Rightarrow> None)
      | JNull \<Rightarrow> Some old
      | _ \<Rightarrow> None)"

definition decodeBool :: "json \<Rightarrow> bool \<Rightarrow> bool option" where
  "decodeBool v old = (case v of JBool b \<Rightarrow> Some b | JNull \<Rightarrow> Some old | _ \<Rightarrow> None)"

definition decodeBytes :: "json \<Rightarrow> bytes option option" where
  "decodeBytes v =
     (case v of
        JStr raw \<Rightarrow> map_option Some (base64Decode (unquoteText raw))
      | JNull \<Rightarrow> Some None
      | JArr vs \<Rightarrow> map_option Some (those (map (\<lambda>v. decodeUint8 v 0) vs))
      | _ \<Rightarrow> None)"

definition setMember :: "Record \<Rightarrow> string \<times> json \<Rightarrow> Record option" where
  "setMember r m =
     (case m of (raw, v) \<Rightarrow>
        let key = unquoteText raw
        in if matchesField key ''id'' then map_option (\<lambda>s. r\<lparr>recID := s\<rparr>) (decodeString v (recID r))
           else if matchesField key ''class'' then map_option (\<lambda>s. r\<lparr>recClass := s\<rparr>) (decodeString v (recClass r))
           else if matchesField key ''topic'' then map_option (\<lambda>s. r\<lparr>recTopic := s\<rparr>) (decodeString v (recTopic r))
           else if matchesField key ''qos'' then map_option (\<lambda>q. r\<lparr>recQoS := q\<rparr>) (decodeUint8 v (recQoS r))
           else if matchesField key ''retain'' then map_option (\<lambda>b. r\<lparr>recRetain := b\<rparr>) (decodeBool v (recRetain r))
           else if matchesField key ''payload'' then map_option (\<lambda>p. r\<lparr>recPayload := p\<rparr>) (decodeBytes v)
           else Some r)"

fun setMembers :: "(string \<times> json) list \<Rightarrow> Record \<Rightarrow> Record option" where
  "setMembers [] r = Some r"
| "setMembers (m # ms) r = (case setMember r m of None \<Rightarrow> None | Some r' \<Rightarrow> setMembers ms r')"

definition unmarshalRecord :: "string \<Rightarrow> Record option" where
  "unmarshalRecord data =
     (case parseJson data of
        Some (JObj ms) \<Rightarrow> setMembers ms zeroRecord
      | Some JNull \<Rightarrow> Some zeroRecord
      | _ \<Rightarrow> None)"

section \<open>The codec's contract\<close>

text \<open>
  What the queue relies on: a record whose strings are valid text is read back from the text
  it is written as. A damaged text may be refused or read as some other record.
\<close>

locale record_codec =
  fixes marshal :: "'r \<Rightarrow> 'd"
    and unmarshal :: "'d \<Rightarrow> 'r option"
    and valid :: "'r \<Rightarrow> bool"
  assumes read_back: "valid r \<Longrightarrow> unmarshal (marshal r) = Some r"
begin

lemma marshal_inject: "valid r \<Longrightarrow> valid r' \<Longrightarrow> marshal r = marshal r' \<longleftrightarrow> r = r'"
  by (metis read_back option.inject)

lemma read_back_list: "list_all valid rs \<Longrightarrow> those (map (unmarshal \<circ> marshal) rs) = Some rs"
  by (induction rs) (simp_all add: read_back)

end

definition validRecord :: "Record \<Rightarrow> bool" where
  "validRecord r \<longleftrightarrow> validText (recID r) \<and> validText (recClass r) \<and> validText (recTopic r)"

lemma wfStr_plain: "list_all plain s \<Longrightarrow> wfStr s"
  by (rule through_wfStr [OF through_plain])

lemma wf_recordJson: "wfJson maxNestingDepth (recordJson r)"
  by (simp add: recordJson_def maxNestingDepth_def wfStr_quoteText wfNum_natString wfStr_base64
      wfStr_plain plain_def split: option.split)

lemma names_field:
  assumes "list_all (\<lambda>c. plain c \<and> asciiChar c \<and> \<not> (65 \<le> byteval c \<and> byteval c \<le> 90)) key"
  shows "matchesField (unquoteText key) field \<longleftrightarrow> key = field"
proof -
  from assms have u: "unquoteText key = key" and a: "list_all asciiChar key"
    by (auto intro: unquote_plain simp: list_all_iff)
  have "map foldRune (runes key) = map byteval key"
    using assms by (auto simp: runes_ascii [OF a] list_all_iff asciiChar_def foldRune_def)
  then show ?thesis by (simp add: matchesField_def u map_byteval_inject)
qed

lemma decode_fields:
  "validText s \<Longrightarrow> decodeString (JStr (quoteText s)) old = Some s"
  "decodeUint8 (JNum (natString (unat q))) oldq = Some q"
  "decodeBool (JBool b) oldb = Some b"
  "decodeBytes (case p of None \<Rightarrow> JNull | Some bs \<Rightarrow> JStr (base64Encode bs)) = Some p"
  using byte_less [of q]
  by (simp_all add: decodeString_def unquote_quoteText decodeUint8_def parseUint_natString decodeBool_def
      decodeBytes_def unquote_base64 base64Decode_def filter_plain [OF plain_base64Encode] base64_quanta
      split: option.split)

lemmas keyNames =
  names_field [of "''id''"] names_field [of "''class''"] names_field [of "''topic''"]
  names_field [of "''qos''"] names_field [of "''retain''"] names_field [of "''payload''"]

lemma unmarshal_marshal:
  assumes "validRecord r"
  shows "unmarshalRecord (marshalRecord r) = Some r"
proof -
  note keys = keyNames [simplified plain_def asciiChar_def, simplified]
  have "parseJson (marshalRecord r) = Some (recordJson r)"
    unfolding marshalRecord_def by (rule parse_render [OF wf_recordJson])
  moreover have "validText (recID r)" "validText (recClass r)" "validText (recTopic r)"
    using assms by (simp_all add: validRecord_def)
  ultimately show ?thesis
    by (simp add: unmarshalRecord_def recordJson_def setMember_def keys decode_fields zeroRecord_def)
qed

interpretation rc: record_codec marshalRecord unmarshalRecord validRecord
  by unfold_locales (rule unmarshal_marshal)

text \<open>
  C21: A spool record survives the disk: the JSON text of a record whose identifier, class and
  topic are valid UTF-8 is read back as the same record, whatever bytes its payload has and
  whether or not it is nil.
\<close>
theorem record_roundtrip:
  assumes "validRecord r"
  shows "unmarshalRecord (marshalRecord r) = Some r"
  using assms by (rule rc.read_back)

definition exampleRecord :: Record where
  "exampleRecord =
     \<lparr>recID = ''00000000000000000001-a'', recClass = ''event'', recTopic = ''codexbar/v1/events/m4/usage'',
      recQoS = 1, recRetain = False, recPayload = Some [123, 125]\<rparr>"

lemma exampleRecord_valid: "validRecord exampleRecord"
  by (simp add: validRecord_def exampleRecord_def validText_ascii asciiChar_def)

theorem record_roundtrip_witness:
  "unmarshalRecord (marshalRecord exampleRecord) = Some exampleRecord"
  by (rule record_roundtrip [OF exampleRecord_valid])

end
