(* ===== verification/AppConfig.thy ===== *)
theory AppConfig
  imports GoStrings
begin

text \<open>
  \<open>internal/config/config.go\<close>: the configuration record, its defaults and the machine
  identifier. A field \<open>cfg.MQTT.TopicPrefix\<close> of the code is \<open>MQTT_TopicPrefix (MQTT cfg)\<close>.
  Go's \<open>int\<close> fields, which hold seconds, ports and limits, are \<open>int\<close>; no operation on them here
  leaves 64 bits.
\<close>

section \<open>Records\<close>

type_synonym tags = "(string \<times> string) list"

record MachineConfig =
  Machine_ID :: string
  Machine_Name :: string
  Machine_Tags :: tags

record CodexBarConfig =
  CodexBar_BaseURL :: string
  CodexBar_Binary :: string
  CodexBar_ManageServe :: bool
  CodexBar_ServePort :: int
  CodexBar_ServeRefreshIntervalSeconds :: int
  CodexBar_ServeRequestTimeoutSeconds :: int
  CodexBar_HTTPTimeoutSeconds :: int
  CodexBar_CLITimeoutSeconds :: int
  CodexBar_UsageProvider :: string
  CodexBar_CostProvider :: string

record TLSConfig =
  TLS_CAFile :: string
  TLS_CertFile :: string
  TLS_KeyFile :: string
  TLS_ServerName :: string
  TLS_InsecureSkipVerify :: bool

record MQTTConfig =
  MQTT_Broker :: string
  MQTT_ClientID :: string
  MQTT_Username :: string
  MQTT_Password :: string
  MQTT_PasswordEnv :: string
  MQTT_PasswordFile :: string
  MQTT_TopicPrefix :: string
  MQTT_QoS :: byte
  MQTT_KeepAliveSeconds :: int
  MQTT_ConnectTimeoutSeconds :: int
  MQTT_PublishTimeoutSeconds :: int
  MQTT_ReconnectMinSeconds :: int
  MQTT_ReconnectMaxSeconds :: int
  MQTT_TLS :: TLSConfig

record PollConfig =
  Poll_HeartbeatSeconds :: int
  Poll_HealthSeconds :: int
  Poll_UsageSeconds :: int
  Poll_CostSeconds :: int
  Poll_AllProvidersSeconds :: int
  Poll_StatusSeconds :: int
  Poll_StatusProvider :: string
  Poll_ActiveAccountProbeSeconds :: int
  Poll_ActiveAccountProbeProviders :: "string list"
  Poll_AccountCatalogueSeconds :: int
  Poll_AccountCatalogueProviders :: "string list"
  Poll_CostHorizonSeconds :: int
  Poll_CostHorizonsDays :: "int list"
  Poll_ConfigValidateSeconds :: int

record SpoolConfig =
  Spool_Directory :: string
  Spool_MaxMessages :: int
  Spool_MaxBytes :: int

record PublishConfig =
  Publish_RetainSnapshots :: bool
  Publish_PublishEvents :: bool
  Publish_IncludeStderr :: bool

record AppConfig =
  Machine :: MachineConfig
  CodexBar :: CodexBarConfig
  MQTT :: MQTTConfig
  Poll :: PollConfig
  Spool :: SpoolConfig
  Publish :: PublishConfig

section \<open>The machine identifier\<close>

definition idRune :: "rune \<Rightarrow> bool" where
  "idRune r \<longleftrightarrow>
     (97 \<le> r \<and> r \<le> 122) \<or> (65 \<le> r \<and> r \<le> 90) \<or> (48 \<le> r \<and> r \<le> 57) \<or> r = 46 \<or> r = 95 \<or> r = 45"

definition sanitizeMachineID :: "string \<Rightarrow> string" where
  "sanitizeMachineID value =
     (let value = TrimSpace value;
          value = (if value = '''' then ''mac'' else value);
          b = map (\<lambda>r. if idRune r then char_of r else CHR ''-'') (runes value);
          out = Trim ''.-_'' b;
          out = (if out = '''' then ''mac'' else out)
      in if length out > 128 then take 128 out else out)"

text \<open>\<open>^[A-Za-z0-9][A-Za-z0-9._-]{0,127}$\<close>\<close>

definition alnumRune :: "rune \<Rightarrow> bool" where
  "alnumRune r \<longleftrightarrow> (97 \<le> r \<and> r \<le> 122) \<or> (65 \<le> r \<and> r \<le> 90) \<or> (48 \<le> r \<and> r \<le> 57)"

definition machineIDPattern :: "string \<Rightarrow> bool" where
  "machineIDPattern s =
     (case s of
        [] \<Rightarrow> False
      | c # cs \<Rightarrow>
          alnumRune (byteval c) \<and> list_all (\<lambda>c. idRune (byteval c)) cs \<and> length cs \<le> 127)"

section \<open>Defaults\<close>

definition Defaults :: "string \<Rightarrow> AppConfig" where
  "Defaults hostname =
     (let host = (if hostname = '''' then ''mac'' else hostname);
          mid = sanitizeMachineID host
      in \<lparr>Machine = \<lparr>Machine_ID = mid, Machine_Name = host, Machine_Tags = []\<rparr>,
          CodexBar =
            \<lparr>CodexBar_BaseURL = ''http://127.0.0.1:8080'', CodexBar_Binary = '''',
             CodexBar_ManageServe = True, CodexBar_ServePort = 8080,
             CodexBar_ServeRefreshIntervalSeconds = 60, CodexBar_ServeRequestTimeoutSeconds = 30,
             CodexBar_HTTPTimeoutSeconds = 90, CodexBar_CLITimeoutSeconds = 120,
             CodexBar_UsageProvider = '''', CodexBar_CostProvider = ''both''\<rparr>,
          MQTT =
            \<lparr>MQTT_Broker = ''mqtt://homeassistant:1883'', MQTT_ClientID = '''', MQTT_Username = '''',
             MQTT_Password = '''', MQTT_PasswordEnv = '''', MQTT_PasswordFile = '''',
             MQTT_TopicPrefix = ''codexbar/v1'', MQTT_QoS = 1, MQTT_KeepAliveSeconds = 30,
             MQTT_ConnectTimeoutSeconds = 10, MQTT_PublishTimeoutSeconds = 15,
             MQTT_ReconnectMinSeconds = 1, MQTT_ReconnectMaxSeconds = 30,
             MQTT_TLS =
               \<lparr>TLS_CAFile = '''', TLS_CertFile = '''', TLS_KeyFile = '''', TLS_ServerName = '''',
                TLS_InsecureSkipVerify = False\<rparr>\<rparr>,
          Poll =
            \<lparr>Poll_HeartbeatSeconds = 30, Poll_HealthSeconds = 30, Poll_UsageSeconds = 60,
             Poll_CostSeconds = 300, Poll_AllProvidersSeconds = 1800, Poll_StatusSeconds = 900,
             Poll_StatusProvider = ''all'', Poll_ActiveAccountProbeSeconds = 60,
             Poll_ActiveAccountProbeProviders = [''codex'', ''claude''],
             Poll_AccountCatalogueSeconds = 1800,
             Poll_AccountCatalogueProviders = [''codex'', ''claude''],
             Poll_CostHorizonSeconds = 3600, Poll_CostHorizonsDays = [1, 7, 30, 90],
             Poll_ConfigValidateSeconds = 3600\<rparr>,
          Spool =
            \<lparr>Spool_Directory = ''~/Library/Application Support/codexbar-mqtt/spool'',
             Spool_MaxMessages = 10000, Spool_MaxBytes = 100 * 1024 * 1024\<rparr>,
          Publish =
            \<lparr>Publish_RetainSnapshots = True, Publish_PublishEvents = True,
             Publish_IncludeStderr = False\<rparr>\<rparr>)"

section \<open>Machine identifiers always match the pattern\<close>

lemma idRune_less: "idRune r \<Longrightarrow> r < 256"
  by (auto simp: idRune_def)

lemma idRune_char_of: "idRune r \<Longrightarrow> byteval (char_of r :: char) = r"
  using idRune_less [of r] by simp

lemma sanitized_char: "idRune (byteval (if idRune r then char_of r else CHR ''-'' :: char))"
  by (cases "idRune r") (simp_all add: idRune_char_of del: of_char_of char_of_nat, simp add: idRune_def)

lemma sanitized_chars: "c \<in> set (map (\<lambda>r. if idRune r then char_of r else CHR ''-'') rs) \<Longrightarrow> idRune (byteval c)"
  by (unfold set_map image_iff) (use sanitized_char in blast)

lemma of_char_eqI: "byteval c = byteval d \<Longrightarrow> c = d"
  by (metis char_of_char)

lemma idRune_not_sep:
  assumes "idRune (byteval c)" and "c \<notin> set ''.-_''"
  shows "alnumRune (byteval c)"
proof -
  have "c = CHR ''.''" if "byteval c = 46"
    using that by (intro of_char_eqI) simp
  moreover have "c = CHR ''-''" if "byteval c = 45"
    using that by (intro of_char_eqI) simp
  moreover have "c = CHR ''_''" if "byteval c = 95"
    using that by (intro of_char_eqI) simp
  ultimately have "byteval c \<noteq> 46" "byteval c \<noteq> 45" "byteval c \<noteq> 95"
    using assms(2) by auto
  with assms(1) show ?thesis by (simp add: idRune_def alnumRune_def)
qed

lemma mac_chars: "alnumRune (byteval (hd ''mac''))" "\<forall>c \<in> set ''mac''. idRune (byteval c)"
  by (simp_all add: alnumRune_def idRune_def)

definition idStart :: "string \<Rightarrow> bool" where
  "idStart s \<longleftrightarrow> s \<noteq> [] \<and> alnumRune (byteval (hd s)) \<and> (\<forall>c \<in> set s. idRune (byteval c))"

lemma idStart_mac: "idStart ''mac''"
  by (simp add: idStart_def alnumRune_def idRune_def)

lemma idStart_Trim:
  assumes "\<forall>c \<in> set b. idRune (byteval c)" and "Trim ''.-_'' b \<noteq> []"
  shows "idStart (Trim ''.-_'' b)"
proof -
  have all: "\<forall>c \<in> set (Trim ''.-_'' b). idRune (byteval c)"
    using assms(1) set_Trim [of "''.-_''" b] by (auto simp del: set_simps list.set)
  have "idRune (byteval (hd (Trim ''.-_'' b)))"
    by (rule all [rule_format, OF hd_in_set [OF assms(2)]])
  then have "alnumRune (byteval (hd (Trim ''.-_'' b)))"
    by (rule idRune_not_sep) (rule Trim_ends(1) [OF assms(2)])
  with all assms(2) show ?thesis unfolding idStart_def by (intro conjI)
qed

lemma idStart_pattern: "idStart s \<Longrightarrow> machineIDPattern (take 128 s)"
  by (cases s) (auto simp: idStart_def machineIDPattern_def list_all_iff dest: in_set_takeD)

lemma sanitizeMachineID_matches: "machineIDPattern (sanitizeMachineID value)"
proof -
  define b where "b = map (\<lambda>r. if idRune r then char_of r else CHR ''-'' :: char)
    (runes (if TrimSpace value = [] then ''mac'' else TrimSpace value))"
  define out where "out = (if Trim ''.-_'' b = [] then ''mac'' else Trim ''.-_'' b)"
  have s: "sanitizeMachineID value = take 128 out"
    unfolding sanitizeMachineID_def Let_def out_def b_def by (auto simp del: of_char_of)
  have "\<forall>c \<in> set b. idRune (byteval c)"
    unfolding b_def by (intro ballI) (erule sanitized_chars)
  then have "idStart out"
    unfolding out_def using idStart_mac idStart_Trim by presburger
  then show ?thesis unfolding s by (rule idStart_pattern)
qed

end
