(* ===== verification/Url.thy ===== *)
theory Url
  imports Codec "HOL-Library.List_Lexorder" "HOL-Library.Char_ord"
begin

text \<open>
  What the program uses of \<open>net/url\<close>, as the standard library has it: \<open>Parse\<close>, \<open>Hostname\<close>,
  \<open>Port\<close>, \<open>Query\<close> and \<open>Values.Encode\<close>. An error of \<open>Parse\<close> is \<open>None\<close>.
\<close>

section \<open>Cutting strings\<close>

definition cutAt :: "char \<Rightarrow> string \<Rightarrow> string \<times> string" where
  "cutAt c s = (takeWhile (\<lambda>x. x \<noteq> c) s, tl (dropWhile (\<lambda>x. x \<noteq> c) s))"

text \<open>Before and from the last occurrence of a character on.\<close>

definition lastCut :: "char \<Rightarrow> string \<Rightarrow> (string \<times> string) option" where
  "lastCut c s =
     (if c \<in> set s
      then (let after = rev (takeWhile (\<lambda>x. x \<noteq> c) (rev s))
            in Some (take (length s - length after - 1) s, after))
      else None)"

fun findAt :: "string \<Rightarrow> string \<Rightarrow> nat option" where
  "findAt pat [] = (if pat = [] then Some 0 else None)"
| "findAt pat (c # cs) = (if HasPrefix (c # cs) pat then Some 0 else map_option Suc (findAt pat cs))"

section \<open>Escapes\<close>

datatype mode = EncPath | EncUserPassword | EncHost | EncZone | EncQuery | EncFragment

definition alnum :: "char \<Rightarrow> bool" where
  "alnum c \<longleftrightarrow> digit c \<or> (97 \<le> byteval c \<and> byteval c \<le> 122) \<or> (65 \<le> byteval c \<and> byteval c \<le> 90)"

definition unreserved :: "char \<Rightarrow> bool" where
  "unreserved c \<longleftrightarrow> alnum c \<or> c \<in> set ''-_.~''"

text \<open>\<open>shouldEscape\<close> in a host, and in a component of a query.\<close>

definition hostChar :: "char \<Rightarrow> bool" where
  "hostChar c \<longleftrightarrow> unreserved c \<or> c \<in> set ''!$&()*+,;=:[]<>'' \<or> byteval c = 39 \<or> byteval c = 34"

definition hexByte :: "char \<Rightarrow> char \<Rightarrow> char" where
  "hexByte h l = char_of (16 * hexVal h + hexVal l)"

fun unescape :: "mode \<Rightarrow> string \<Rightarrow> string option" where
  "unescape mode [] = Some []"
| "unescape mode (c # cs) =
     (if c = CHR ''%'' then
        (case cs of
           h # l # rest \<Rightarrow>
             if \<not> (hexChar h \<and> hexChar l) then None
             else if mode = EncHost \<and> hexVal h < 8 \<and> \<not> (h = CHR ''2'' \<and> l = CHR ''5'') then None
             else if mode = EncZone \<and> \<not> (h = CHR ''2'' \<and> l = CHR ''5'') \<and> hexByte h l \<noteq> CHR '' '' \<and>
                     \<not> hostChar (hexByte h l) then None
             else map_option (Cons (hexByte h l)) (unescape mode rest)
         | _ \<Rightarrow> None)
      else if (mode = EncHost \<or> mode = EncZone) \<and> byteval c < 128 \<and> \<not> hostChar c then None
      else map_option (Cons (if mode = EncQuery \<and> c = CHR ''+'' then CHR '' '' else c)) (unescape mode cs))"

definition upperHex :: "nat \<Rightarrow> char" where
  "upperHex n = ''0123456789ABCDEF'' ! n"

definition escapeChunk :: "char \<Rightarrow> string" where
  "escapeChunk c =
     (if c = CHR '' '' then ''+''
      else if unreserved c then [c]
      else [CHR ''%'', upperHex (byteval c div 16), upperHex (byteval c mod 16)])"

definition QueryEscape :: "string \<Rightarrow> string" where
  "QueryEscape s = concat (map escapeChunk s)"

section \<open>Parse\<close>

record URL =
  url_Scheme :: string
  url_Opaque :: string
  url_User :: "(string \<times> string option) option"
  url_Host :: string
  url_Path :: string
  url_RawQuery :: string
  url_Fragment :: string

definition letter :: "char \<Rightarrow> bool" where
  "letter c \<longleftrightarrow> (97 \<le> byteval c \<and> byteval c \<le> 122) \<or> (65 \<le> byteval c \<and> byteval c \<le> 90)"

text \<open>The scheme before the colon, if there is one; \<open>None\<close> when only the colon is there.\<close>

definition schemeLetters :: "string \<Rightarrow> string" where
  "schemeLetters s =
     takeWhile (\<lambda>c. letter c \<or> digit c \<or> c = CHR ''+'' \<or> c = CHR ''-'' \<or> c = CHR ''.'') s"

definition getScheme :: "string \<Rightarrow> (string \<times> string) option" where
  "getScheme s =
     (let p = schemeLetters s; rest = drop (length p) s
      in if p \<noteq> [] \<and> \<not> letter (hd p) then Some ([], s)
         else (case rest of
           c # path \<Rightarrow>
             if c = CHR '':'' then (if p = [] then None else Some (p, path)) else Some ([], s)
         | [] \<Rightarrow> Some ([], s)))"

definition validOptionalPort :: "string \<Rightarrow> bool" where
  "validOptionalPort port =
     (case port of [] \<Rightarrow> True | c # cs \<Rightarrow> c = CHR '':'' \<and> list_all digit cs)"

definition parseHost :: "string \<Rightarrow> string option" where
  "parseHost host =
     (if HasPrefix host ''['' then
        (case lastCut (CHR '']'') host of
           None \<Rightarrow> None
         | Some (inside, colonPort) \<Rightarrow>
             if \<not> validOptionalPort colonPort then None
             else (case findAt ''%25'' inside of
               Some zone \<Rightarrow>
                 (case (unescape EncHost (take zone host),
                        unescape EncZone (drop zone inside),
                        unescape EncHost (drop (length inside) host)) of
                    (Some host1, Some host2, Some host3) \<Rightarrow> Some (host1 @ host2 @ host3)
                  | _ \<Rightarrow> None)
             | None \<Rightarrow> unescape EncHost host))
      else (case lastCut (CHR '':'') host of
         Some (name, port) \<Rightarrow>
           if validOptionalPort (CHR '':'' # port) then unescape EncHost host else None
       | None \<Rightarrow> unescape EncHost host))"

definition userChar :: "char \<Rightarrow> bool" where
  "userChar c \<longleftrightarrow> alnum c \<or> c \<in> set ''-._:~!$&()*+,;=%@'' \<or> byteval c = 39"

definition parseUser :: "string \<Rightarrow> (string \<times> string option) option" where
  "parseUser info =
     (if \<not> list_all userChar info then None
      else if CHR '':'' \<in> set info then
        (case cutAt (CHR '':'') info of
           (name, password) \<Rightarrow>
             (case (unescape EncUserPassword name, unescape EncUserPassword password) of
                (Some n, Some p) \<Rightarrow> Some (n, Some p)
              | _ \<Rightarrow> None))
      else map_option (\<lambda>n. (n, None)) (unescape EncUserPassword info))"

definition parseAuthority :: "string \<Rightarrow> ((string \<times> string option) option \<times> string) option" where
  "parseAuthority authority =
     (case lastCut (CHR ''@'') authority of
        None \<Rightarrow> map_option (Pair None) (parseHost authority)
      | Some (info, host) \<Rightarrow>
          (case parseHost host of
             None \<Rightarrow> None
           | Some h \<Rightarrow> map_option (\<lambda>u. (Some u, h)) (parseUser info)))"

definition ctlByte :: "char \<Rightarrow> bool" where
  "ctlByte c \<longleftrightarrow> byteval c < 32 \<or> byteval c = 127"

definition emptyURL :: URL where
  "emptyURL =
     \<lparr>url_Scheme = '''', url_Opaque = '''', url_User = None, url_Host = '''', url_Path = '''',
      url_RawQuery = '''', url_Fragment = ''''\<rparr>"

definition setPath :: "string \<Rightarrow> URL \<Rightarrow> URL option" where
  "setPath p u = map_option (\<lambda>path. u\<lparr>url_Path := path\<rparr>) (unescape EncPath p)"

definition parseNoFragment :: "string \<Rightarrow> URL option" where
  "parseNoFragment raw =
     (if list_ex ctlByte raw then None
      else if raw = ''*'' then Some (emptyURL\<lparr>url_Path := ''*''\<rparr>)
      else (case getScheme raw of
        None \<Rightarrow> None
      | Some (scheme, after) \<Rightarrow>
          (let (rest, query) = cutAt (CHR ''?'') after;
               u = emptyURL\<lparr>url_Scheme := ToLower scheme, url_RawQuery := query\<rparr>
           in if \<not> HasPrefix rest ''/'' \<and> scheme \<noteq> [] then Some (u\<lparr>url_Opaque := rest\<rparr>)
              else if \<not> HasPrefix rest ''/'' \<and> CHR '':'' \<in> set (fst (cutAt (CHR ''/'') rest)) then None
              else if HasPrefix rest ''//'' \<and> (scheme \<noteq> [] \<or> \<not> HasPrefix rest ''///'') then
                (let authority = takeWhile (\<lambda>c. c \<noteq> CHR ''/'') (drop 2 rest)
                 in case parseAuthority authority of
                      None \<Rightarrow> None
                    | Some (user, host) \<Rightarrow>
                        setPath (drop (length authority + 2) rest) (u\<lparr>url_User := user, url_Host := host\<rparr>))
              else setPath rest u)))"

definition parseURL :: "string \<Rightarrow> URL option" where
  "parseURL raw =
     (case cutAt (CHR ''#'') raw of
        (main, frag) \<Rightarrow>
          (case parseNoFragment main of
             None \<Rightarrow> None
           | Some u \<Rightarrow>
               if frag = [] then Some u
               else map_option (\<lambda>f. u\<lparr>url_Fragment := f\<rparr>) (unescape EncFragment frag)))"

definition splitHostPort :: "string \<Rightarrow> string \<times> string" where
  "splitHostPort hostPort =
     (let (host, port) =
        (case lastCut (CHR '':'') hostPort of
           Some (h, p) \<Rightarrow> if validOptionalPort (CHR '':'' # p) then (h, p) else (hostPort, [])
         | None \<Rightarrow> (hostPort, []))
      in if HasPrefix host ''['' \<and> HasSuffix host '']''
         then (take (length host - 2) (drop 1 host), port) else (host, port))"

definition Hostname :: "URL \<Rightarrow> string" where
  "Hostname u = fst (splitHostPort (url_Host u))"

definition Port :: "URL \<Rightarrow> string" where
  "Port u = snd (splitHostPort (url_Host u))"

text \<open>What evaluates these functions on literals.\<close>

lemmas [string_eval] =
  parseURL_def parseNoFragment_def cutAt_def getScheme_def schemeLetters_def letter_def digit_def
  ctlByte_def HasPrefix_def HasSuffix_def parseAuthority_def lastCut_def parseHost_def
  validOptionalPort_def hostChar_def unreserved_def alnum_def setPath_def Let_def emptyURL_def
  splitHostPort_def Hostname_def Port_def

section \<open>Queries\<close>

type_synonym queryValues = "(string \<times> string list) list"

definition addValue :: "string \<Rightarrow> string \<Rightarrow> queryValues \<Rightarrow> queryValues" where
  "addValue k v m =
     (case map_of m k of
        None \<Rightarrow> m @ [(k, [v])]
      | Some vs \<Rightarrow> map (\<lambda>(k', vs'). if k' = k then (k, vs' @ [v]) else (k', vs')) m)"

definition setValue :: "string \<Rightarrow> string \<Rightarrow> queryValues \<Rightarrow> queryValues" where
  "setValue k v m = (k, [v]) # filter (\<lambda>(k', _). k' \<noteq> k) m"

definition parsePair :: "string \<Rightarrow> (string \<times> string) option" where
  "parsePair p =
     (if CHR '';'' \<in> set p \<or> p = [] then None
      else (case cutAt (CHR ''='') p of
        (k, v) \<Rightarrow>
          (case (unescape EncQuery k, unescape EncQuery v) of
             (Some k, Some v) \<Rightarrow> Some (k, v)
           | _ \<Rightarrow> None)))"

definition parseQuery :: "string \<Rightarrow> queryValues" where
  "parseQuery query =
     fold (\<lambda>p m. case parsePair p of None \<Rightarrow> m | Some (k, v) \<Rightarrow> addValue k v m) (Split (CHR ''&'') query) []"

definition encodeValues :: "queryValues \<Rightarrow> string" where
  "encodeValues m =
     Join ''&''
       (concat (map (\<lambda>(k, vs). map (\<lambda>v. QueryEscape k @ ''='' @ QueryEscape v) vs) (sort_key fst m)))"

section \<open>Queries are read back\<close>

lemma hexVal_upperHex: "n < 16 \<Longrightarrow> hexVal (upperHex n) = n \<and> hexChar (upperHex n)"
proof -
  have "\<forall>n < 16. hexVal (upperHex n) = n \<and> hexChar (upperHex n)"
    by (simp add: upperHex_def hexVal_def hexChar_def digit_def All_less_Suc numeral_eq_Suc)
  then show "n < 16 \<Longrightarrow> hexVal (upperHex n) = n \<and> hexChar (upperHex n)" by blast
qed

lemma byteval_nibbles: "byteval c div 16 < 16" "byteval c mod 16 < 16"
  using nat_of_char_less_256 [of c] by (auto intro: less_mult_imp_div_less)

lemma hexByte_upperHex: "hexByte (upperHex (byteval c div 16)) (upperHex (byteval c mod 16)) = c"
  by (simp add: hexByte_def hexVal_upperHex byteval_nibbles)

lemma unreserved_plain: "unreserved c \<Longrightarrow> c \<noteq> CHR ''%'' \<and> c \<noteq> CHR ''+'' \<and> c \<noteq> CHR ''&'' \<and> c \<noteq> CHR ''='' \<and> c \<noteq> CHR '';''"
  by (auto simp: unreserved_def alnum_def digit_def)

lemma unescape_chunk: "unescape EncQuery (escapeChunk c @ s) = map_option (Cons c) (unescape EncQuery s)"
proof (cases "c = CHR '' '' \<or> unreserved c")
  case True
  then show ?thesis using unreserved_plain [of c] by (auto simp: escapeChunk_def)
next
  case False
  then show ?thesis by (simp add: escapeChunk_def hexVal_upperHex hexByte_upperHex byteval_nibbles)
qed

lemma unescape_QueryEscape: "unescape EncQuery (QueryEscape s) = Some s"
  by (induction s) (simp_all add: QueryEscape_def unescape_chunk)

lemma escapeChunk_safe: "x \<in> set (escapeChunk c) \<Longrightarrow> x \<noteq> CHR ''&'' \<and> x \<noteq> CHR ''='' \<and> x \<noteq> CHR '';''"
proof -
  have "hexChar (upperHex (byteval c div 16))" "hexChar (upperHex (byteval c mod 16))"
    by (simp_all add: hexVal_upperHex byteval_nibbles)
  then show "x \<in> set (escapeChunk c) \<Longrightarrow> x \<noteq> CHR ''&'' \<and> x \<noteq> CHR ''='' \<and> x \<noteq> CHR '';''"
    using unreserved_plain [of c] by (auto simp: escapeChunk_def hexChar_def digit_def split: if_splits)
qed

lemma QueryEscape_safe: "x \<in> set (QueryEscape s) \<Longrightarrow> x \<noteq> CHR ''&'' \<and> x \<noteq> CHR ''='' \<and> x \<noteq> CHR '';''"
  using escapeChunk_safe by (auto simp: QueryEscape_def)

lemma takeWhile_sep: "c \<notin> set p \<Longrightarrow> takeWhile (\<lambda>x. x \<noteq> c) (p @ c # s) = p"
  "c \<notin> set p \<Longrightarrow> dropWhile (\<lambda>x. x \<noteq> c) (p @ c # s) = c # s"
  by (induction p) auto

definition renderPair :: "string \<times> string \<Rightarrow> string" where
  "renderPair kv = QueryEscape (fst kv) @ ''='' @ QueryEscape (snd kv)"

lemma parsePair_render: "parsePair (renderPair kv) = Some kv"
proof -
  have "CHR ''='' \<notin> set (QueryEscape (fst kv))" using QueryEscape_safe by blast
  then have "cutAt (CHR ''='') (renderPair kv) = (QueryEscape (fst kv), QueryEscape (snd kv))"
    by (simp add: cutAt_def renderPair_def takeWhile_sep)
  moreover have "CHR '';'' \<notin> set (renderPair kv)"
    using QueryEscape_safe by (auto simp: renderPair_def)
  ultimately show ?thesis
    by (simp add: parsePair_def unescape_QueryEscape renderPair_def)
qed
text \<open>The pairs of a query, in the order \<open>Encode\<close> writes them.\<close>

definition pairsOf :: "queryValues \<Rightarrow> (string \<times> string) list" where
  "pairsOf m = concat (map (\<lambda>(k, vs). map (Pair k) vs) (sort_key fst m))"

lemma encode_pairs: "encodeValues m = Join ''&'' (map renderPair (pairsOf m))"
proof -
  have "(\<lambda>(k, vs). map (\<lambda>v. QueryEscape k @ ''='' @ QueryEscape v) vs) =
      map renderPair \<circ> (\<lambda>(k, vs). map (Pair k) vs)"
    by (auto simp: fun_eq_iff renderPair_def)
  then show ?thesis by (simp add: encodeValues_def pairsOf_def map_concat)
qed

lemma renderPair_safe: "CHR ''&'' \<notin> set (renderPair kv)"
  using QueryEscape_safe by (auto simp: renderPair_def)

lemma split_pairs: "ps \<noteq> [] \<Longrightarrow> Split (CHR ''&'') (Join ''&'' (map renderPair ps)) = map renderPair ps"
proof (induction ps)
  case (Cons p ps)
  show ?case
  proof (cases ps)
    case Nil
    then show ?thesis by (simp add: Split_no_sep renderPair_safe)
  next
    case (Cons q qs)
    with Cons.IH show ?thesis by (simp add: Split_sep_append renderPair_safe)
  qed
qed simp

lemma parse_pairs: "parseQuery (Join ''&'' (map renderPair ps)) = fold (\<lambda>(k, v) m. addValue k v m) ps []"
proof (cases "ps = []")
  case True
  then show ?thesis by (simp add: parseQuery_def parsePair_def)
next
  case False
  then show ?thesis
    by (simp add: parseQuery_def split_pairs fold_map parsePair_render comp_def case_prod_unfold)
qed

definition valuesFor :: "string \<Rightarrow> (string \<times> string) list \<Rightarrow> string list" where
  "valuesFor k ps = map snd (filter (\<lambda>p. fst p = k) ps)"

lemma addValue_lookup:
  "map_of (addValue k v m) x = (if x = k then Some (case map_of m k of None \<Rightarrow> [v] | Some vs \<Rightarrow> vs @ [v]) else map_of m x)"
proof -
  have "map_of (map (\<lambda>(k', vs'). if k' = k then (k, vs' @ [v]) else (k', vs')) m) x =
      (if x = k then map_option (\<lambda>vs. vs @ [v]) (map_of m k) else map_of m x)"
    by (induction m) auto
  then show ?thesis by (auto simp: addValue_def map_add_def split: option.splits)
qed

lemma fold_addValue:
  "map_of (fold (\<lambda>(k, v) m. addValue k v m) ps m) x =
   (if valuesFor x ps = [] then map_of m x
    else Some ((case map_of m x of None \<Rightarrow> [] | Some vs \<Rightarrow> vs) @ valuesFor x ps))"
  by (induction ps arbitrary: m) (auto simp: valuesFor_def addValue_lookup split: option.splits)

lemma valuesFor_pairs:
  "distinct (map fst m) \<Longrightarrow>
   valuesFor x (concat (map (\<lambda>(k, vs). map (Pair k) vs) m)) = (case map_of m x of None \<Rightarrow> [] | Some vs \<Rightarrow> vs)"
proof (induction m)
  case (Cons p m)
  obtain k vs where p: "p = (k, vs)" by (cases p)
  have same: "map snd (filter (\<lambda>p. fst p = x) (map (Pair k) vs)) = (if k = x then vs else [])"
    by (induction vs) auto
  from Cons p same have "map_of m x = None" if "k = x"
    using that by (auto simp: map_of_eq_None_iff)
  with Cons p same show ?case by (auto simp: valuesFor_def)
qed (simp add: valuesFor_def)

definition wfValues :: "queryValues \<Rightarrow> bool" where
  "wfValues m \<longleftrightarrow> distinct (map fst m) \<and> list_all (\<lambda>(k, vs). vs \<noteq> []) m"

lemma query_roundtrip:
  assumes "wfValues m" shows "map_of (parseQuery (encodeValues m)) k = map_of m k"
proof -
  let ?s = "sort_key fst m"
  have d: "distinct (map fst m)" "distinct (map fst ?s)"
    using assms by (simp_all add: wfValues_def distinct_map)
  then have "map_of ?s k = Some vs \<longleftrightarrow> map_of m k = Some vs" for vs
    by (simp add: map_of_eq_Some_iff)
  then have same: "map_of ?s k = map_of m k"
    by (cases "map_of m k"; cases "map_of ?s k") auto
  have ne: "vs \<noteq> []" if "map_of m k = Some vs" for vs
    using assms map_of_SomeD [OF that] by (auto simp: wfValues_def list_all_iff)
  have "valuesFor k (pairsOf m) = (case map_of m k of None \<Rightarrow> [] | Some vs \<Rightarrow> vs)"
    using valuesFor_pairs [OF d(2), of k] same by (simp add: pairsOf_def)
  then show ?thesis
    using fold_addValue [of "pairsOf m" "[]" k] ne
    by (cases "map_of m k") (simp_all add: encode_pairs parse_pairs)
qed


lemma addValue_keys: "map fst (addValue k v m) = map fst m @ (if k \<in> fst ` set m then [] else [k])"
proof -
  have same: "map fst (map (\<lambda>(k', vs'). if k' = k then (k, vs' @ [v]) else (k', vs')) m) = map fst m"
    by (induction m) auto
  show ?thesis
  proof (cases "k \<in> fst ` set m")
    case True
    then obtain vs where "map_of m k = Some vs" by (auto simp: map_of_eq_None_iff dest: weak_map_of_SomeI)
    with same True show ?thesis by (simp add: addValue_def)
  next
    case False
    then have "map_of m k = None" by (simp add: map_of_eq_None_iff)
    with False show ?thesis by (simp add: addValue_def)
  qed
qed

lemma wfValues_add: "wfValues m \<Longrightarrow> wfValues (addValue k v m)"
proof -
  assume wf: "wfValues m"
  have "list_all (\<lambda>(k, vs). vs \<noteq> []) (map (\<lambda>(k', vs'). if k' = k then (k, vs' @ [v]) else (k', vs')) m)"
    using wf by (auto simp: wfValues_def list_all_iff split: if_splits)
  with wf have "list_all (\<lambda>(k, vs). vs \<noteq> []) (addValue k v m)"
    by (simp add: addValue_def wfValues_def split: option.split)
  moreover have "distinct (map fst (addValue k v m))"
    using wf by (auto simp: wfValues_def addValue_keys)
  ultimately show ?thesis by (simp add: wfValues_def)
qed

lemma wfValues_set: "wfValues m \<Longrightarrow> wfValues (setValue k v m)"
  by (auto simp: wfValues_def setValue_def list_all_iff distinct_map inj_on_def)

lemma wfValues_parse: "wfValues (parseQuery s)"
proof -
  have "wfValues m \<Longrightarrow> wfValues (fold (\<lambda>p m. case parsePair p of None \<Rightarrow> m | Some (k, v) \<Rightarrow> addValue k v m) ps m)" for ps m
    by (induction ps arbitrary: m) (auto simp: wfValues_add split: option.splits)
  then show ?thesis by (simp add: parseQuery_def wfValues_def)
qed

lemma setValue_lookup: "map_of (setValue k v m) x = (if x = k then Some [v] else map_of m x)"
proof -
  have "x \<noteq> k \<Longrightarrow> map_of (filter (\<lambda>(k', _). k' \<noteq> k) m) x = map_of m x"
    by (induction m) auto
  then show ?thesis by (simp add: setValue_def)
qed

end
