(* ===== verification/GoTime.thy ===== *)
theory GoTime
  imports Codec
begin

text \<open>
  What the program uses of \<open>time.Time\<close>, its JSON text, and the decimal text of an \<open>int\<close>. An instant is its number of nanoseconds
  since the start of the year 1, UTC, which is where Go's zero \<open>time.Time\<close> lies; a duration is a
  number of nanoseconds. Every instant of the program is in UTC.
\<close>

section \<open>Instants\<close>

type_synonym instant = int

definition daysPer400Years :: int where "daysPer400Years = 146097"
definition daysPer100Years :: int where "daysPer100Years = 36524"
definition daysPer4Years :: int where "daysPer4Years = 1461"

text \<open>The year and the day of the year of a day, both counted from 0.\<close>

definition yearAndDay :: "int \<Rightarrow> int \<times> int" where
  "yearAndDay d =
     (let n400 = d div daysPer400Years; d1 = d mod daysPer400Years;
          n100 = min 3 (d1 div daysPer100Years); d2 = d1 - n100 * daysPer100Years;
          n4 = d2 div daysPer4Years; d3 = d2 mod daysPer4Years;
          n1 = min 3 (d3 div 365)
      in (400 * n400 + 100 * n100 + 4 * n4 + n1, d3 - n1 * 365))"

definition leapYear :: "int \<Rightarrow> bool" where
  "leapYear y \<longleftrightarrow> y mod 4 = 0 \<and> (y mod 100 \<noteq> 0 \<or> y mod 400 = 0)"

definition monthLengths :: "int \<Rightarrow> int list" where
  "monthLengths y = [31, if leapYear y then 29 else 28, 31, 30, 31, 30, 31, 31, 30, 31, 30, 31]"

fun monthAndDay :: "int \<Rightarrow> int list \<Rightarrow> int \<Rightarrow> int \<times> int" where
  "monthAndDay m [] d = (m, d + 1)"
| "monthAndDay m (n # ns) d = (if d < n then (m, d + 1) else monthAndDay (m + 1) ns (d - n))"

definition padInt :: "nat \<Rightarrow> int \<Rightarrow> string" where
  "padInt k n = (let s = natString (nat n) in replicate (k - length s) CHR ''0'' @ s)"

text \<open>The text of \<open>time.RFC3339Nano\<close> in UTC; \<open>MarshalJSON\<close> refuses years beyond 9999.\<close>

definition trimZeros :: "string \<Rightarrow> string" where
  "trimZeros s = rev (dropWhile (\<lambda>c. c = CHR ''0'') (rev s))"

definition fraction :: "int \<Rightarrow> string" where
  "fraction ns = (if ns = 0 then [] else CHR ''.'' # trimZeros (padInt 9 ns))"

definition year :: "instant \<Rightarrow> int" where
  "year t = fst (yearAndDay (t div (86400 * 10 ^ 9))) + 1"

definition formatTime :: "instant \<Rightarrow> string" where
  "formatTime t =
     (let secs = t div 10 ^ 9 mod 86400;
          (y0, yday) = yearAndDay (t div (86400 * 10 ^ 9));
          (mo, dy) = monthAndDay 1 (monthLengths (y0 + 1)) yday
      in padInt 4 (y0 + 1) @ ''-'' @ padInt 2 mo @ ''-'' @ padInt 2 dy @ ''T'' @
         padInt 2 (secs div 3600) @ '':'' @ padInt 2 (secs div 60 mod 60) @ '':'' @ padInt 2 (secs mod 60) @
         fraction (t mod 10 ^ 9) @ ''Z'')"

definition marshalTime :: "instant \<Rightarrow> json option" where
  "marshalTime t = (if 0 \<le> year t \<and> year t \<le> 9999 then Some (JStr (formatTime t)) else None)"

section \<open>Integers\<close>

definition intString :: "int \<Rightarrow> string" where
  "intString i = (if i < 0 then CHR ''-'' # natString (nat (- i)) else natString (nat i))"

lemma wfNum_intString: "wfNum (intString i)"
proof (cases "i < 0")
  case True
  let ?t = "natString (nat (- i))"
  have n: "scanNumber ?t = Some (?t, [])" using wfNum_natString by (simp add: wfNum_def)
  obtain c cs where t: "?t = c # cs" using natString_digits [of "nat (- i)"] by (cases ?t) auto
  then have "byteval c \<noteq> 45" using natString_digits [of "nat (- i)"] by (auto simp: digit_def)
  with n t have "scanNumber (CHR ''-'' # ?t) = Some (CHR ''-'' # ?t, [])"
    by (auto simp: scanNumber_def scanSign_def Let_def split: option.splits)
  with True show ?thesis by (simp add: wfNum_def intString_def)
qed (simp add: intString_def wfNum_natString)

end
