(* ===== verification/Settings.thy ===== *)
theory Settings
  imports SpoolRecord AppConfig Url GoTime "HOL-Library.AList"
begin

text \<open>
  \<open>internal/config/config.go\<close>: reading a configuration file over the defaults, and \<open>Validate\<close>.
  The environment, the home directory and the files are parameters. An error carries what its
  text is made of.
\<close>

section \<open>Environment and paths\<close>

record env =
  getenv :: "string \<Rightarrow> string option"
  homeDir :: "string + string"
  readFile :: "string \<Rightarrow> string + string"
  hostName :: string
  windows :: bool
  winClean :: "string \<Rightarrow> string"

text \<open>\<open>os.ExpandEnv\<close>: the name after a dollar sign and how many bytes it takes.\<close>

definition shellSpecial :: "char \<Rightarrow> bool" where
  "shellSpecial c \<longleftrightarrow> c \<in> set ''*#$@!?-'' \<or> digit c"

definition shellAlnum :: "char \<Rightarrow> bool" where
  "shellAlnum c \<longleftrightarrow> c = CHR ''_'' \<or> alnum c"

definition shellName :: "string \<Rightarrow> string \<times> nat" where
  "shellName s =
     (case s of
        [] \<Rightarrow> ([], 0)
      | c # cs \<Rightarrow>
          if c = CHR ''{'' then
            (if length cs \<ge> 2 \<and> shellSpecial (cs ! 0) \<and> cs ! 1 = CHR ''}'' then ([cs ! 0], 3)
             else (let name = takeWhile (\<lambda>x. x \<noteq> CHR ''}'') cs
                   in if length name = length cs then ([], 1)
                      else if name = [] then ([], 2)
                      else (name, length name + 2)))
          else if shellSpecial c then ([c], 1)
          else (let name = takeWhile shellAlnum s in (name, length name)))"

function ExpandEnv :: "env \<Rightarrow> string \<Rightarrow> string" where
  "ExpandEnv e [] = []"
| "ExpandEnv e (c # cs) =
     (if c = CHR ''$'' \<and> cs \<noteq> [] then
        (case shellName cs of
           (name, w) \<Rightarrow>
             (if name = [] then (if w > 0 then [] else [c])
              else (case getenv e name of None \<Rightarrow> [] | Some v \<Rightarrow> v)) @ ExpandEnv e (drop w cs))
      else c # ExpandEnv e cs)"
  by pat_completeness auto

termination
  by (relation "measure (length \<circ> snd)") auto

declare ExpandEnv.simps(2) [simp del]

text \<open>\<open>filepath.Clean\<close> and \<open>filepath.Join\<close> of two elements, on Unix.\<close>

fun cleanParts :: "bool \<Rightarrow> string list \<Rightarrow> string list \<Rightarrow> string list" where
  "cleanParts rooted acc [] = acc"
| "cleanParts rooted acc (p # ps) =
     cleanParts rooted
       (if p = '''' \<or> p = ''.'' then acc
        else if p = ''..'' then
          (if acc \<noteq> [] \<and> last acc \<noteq> ''..'' then butlast acc
           else if rooted then acc else acc @ [p])
        else acc @ [p]) ps"

definition cleanPath :: "string \<Rightarrow> string" where
  "cleanPath p =
     (let rooted = HasPrefix p ''/'';
          parts = cleanParts rooted [] (Split (CHR ''/'') p);
          s = (if rooted then ''/'' else []) @ Join ''/'' parts
      in if s = [] then ''.'' else s)"

definition joinPath :: "string \<Rightarrow> string \<Rightarrow> string" where
  "joinPath a b =
     (if a \<noteq> '''' then cleanPath (a @ ''/'' @ b) else if b \<noteq> '''' then cleanPath b else [])"

definition ExpandPath :: "env \<Rightarrow> string \<Rightarrow> string + string" where
  "ExpandPath e path =
     (if path = '''' then Inr []
      else
        (let path = ExpandEnv e path;
             finish = (\<lambda>p. Inr (if windows e then winClean e p else p))
         in if path = ''~'' \<or> HasPrefix path ''~/'' then
              (case homeDir e of
                 Inl err \<Rightarrow> Inl err
               | Inr home \<Rightarrow>
                   if path = ''~'' then Inr home
                   else finish (joinPath home (TrimPrefix path ''~/'')))
            else finish path))"

section \<open>Decoding over the defaults\<close>

text \<open>
  \<open>Decode\<close> with \<open>DisallowUnknownFields\<close>: members are set one after the other on the fds whose
  name they have up to case, and a null leaves a field as it is. An element of an array that is
  null keeps what the default had at its place.
\<close>

type_synonym 'r field = "string \<times> ('r \<Rightarrow> json \<Rightarrow> 'r option)"

definition decodeMember :: "'r field list \<Rightarrow> string \<times> json \<Rightarrow> 'r \<Rightarrow> 'r option" where
  "decodeMember fds m r =
     (case find (\<lambda>f. matchesField (unquoteText (fst m)) (fst f)) fds of
        None \<Rightarrow> None
      | Some f \<Rightarrow> snd f r (snd m))"

fun decodeMembers :: "'r field list \<Rightarrow> (string \<times> json) list \<Rightarrow> 'r \<Rightarrow> 'r option" where
  "decodeMembers fds [] r = Some r"
| "decodeMembers fds (m # ms) r =
     (case decodeMember fds m r of None \<Rightarrow> None | Some r' \<Rightarrow> decodeMembers fds ms r')"

definition decodeStruct :: "'r field list \<Rightarrow> json \<Rightarrow> 'r \<Rightarrow> 'r option" where
  "decodeStruct fds v r =
     (case v of JObj ms \<Rightarrow> decodeMembers fds ms r | JNull \<Rightarrow> Some r | _ \<Rightarrow> None)"

text \<open>\<open>strconv.ParseInt\<close> in base 10 for 64 bits.\<close>

definition parseInt :: "string \<Rightarrow> int option" where
  "parseInt t =
     (let (neg, ds) = (case t of c # cs \<Rightarrow> if c = CHR ''-'' then (True, cs) else (False, t) | [] \<Rightarrow> (False, t))
      in case parseUint ds of
           None \<Rightarrow> None
         | Some n \<Rightarrow>
             if neg then (if n \<le> 2 ^ 63 then Some (- int n) else None)
             else (if n < 2 ^ 63 then Some (int n) else None))"

definition decodeInt :: "json \<Rightarrow> int \<Rightarrow> int option" where
  "decodeInt v old = (case v of JNum t \<Rightarrow> parseInt t | JNull \<Rightarrow> Some old | _ \<Rightarrow> None)"

definition decodeList :: "(json \<Rightarrow> 'a \<Rightarrow> 'a option) \<Rightarrow> 'a \<Rightarrow> json \<Rightarrow> 'a list \<Rightarrow> 'a list option" where
  "decodeList dec zero v olds =
     (case v of
        JArr vs \<Rightarrow> those (map (\<lambda>i. dec (vs ! i) (if i < length olds then olds ! i else zero)) [0..<length vs])
      | JNull \<Rightarrow> Some []
      | _ \<Rightarrow> None)"

fun decodeTagMembers :: "(string \<times> json) list \<Rightarrow> tags \<Rightarrow> tags option" where
  "decodeTagMembers [] m = Some m"
| "decodeTagMembers ((k, v) # ms) m =
     (case decodeString v '''' of
        None \<Rightarrow> None
      | Some s \<Rightarrow> decodeTagMembers ms (AList.update (unquoteText k) s m))"

definition decodeTags :: "json \<Rightarrow> tags \<Rightarrow> tags option" where
  "decodeTags v old =
     (case v of JObj ms \<Rightarrow> decodeTagMembers ms old | JNull \<Rightarrow> Some [] | _ \<Rightarrow> None)"

definition machineFields :: "MachineConfig field list" where
  "machineFields =
     [(''id'', \<lambda>r v. map_option (\<lambda>x. r\<lparr>Machine_ID := x\<rparr>) (decodeString v (Machine_ID r))),
      (''name'', \<lambda>r v. map_option (\<lambda>x. r\<lparr>Machine_Name := x\<rparr>) (decodeString v (Machine_Name r))),
      (''tags'', \<lambda>r v. map_option (\<lambda>x. r\<lparr>Machine_Tags := x\<rparr>) (decodeTags v (Machine_Tags r)))]"

definition codexBarFields :: "CodexBarConfig field list" where
  "codexBarFields =
     [(''base_url'', \<lambda>r v. map_option (\<lambda>x. r\<lparr>CodexBar_BaseURL := x\<rparr>) (decodeString v (CodexBar_BaseURL r))),
      (''binary'', \<lambda>r v. map_option (\<lambda>x. r\<lparr>CodexBar_Binary := x\<rparr>) (decodeString v (CodexBar_Binary r))),
      (''manage_serve'', \<lambda>r v. map_option (\<lambda>x. r\<lparr>CodexBar_ManageServe := x\<rparr>) (decodeBool v (CodexBar_ManageServe r))),
      (''serve_port'', \<lambda>r v. map_option (\<lambda>x. r\<lparr>CodexBar_ServePort := x\<rparr>) (decodeInt v (CodexBar_ServePort r))),
      (''serve_refresh_interval_seconds'', \<lambda>r v. map_option (\<lambda>x. r\<lparr>CodexBar_ServeRefreshIntervalSeconds := x\<rparr>)
         (decodeInt v (CodexBar_ServeRefreshIntervalSeconds r))),
      (''serve_request_timeout_seconds'', \<lambda>r v. map_option (\<lambda>x. r\<lparr>CodexBar_ServeRequestTimeoutSeconds := x\<rparr>)
         (decodeInt v (CodexBar_ServeRequestTimeoutSeconds r))),
      (''http_timeout_seconds'', \<lambda>r v. map_option (\<lambda>x. r\<lparr>CodexBar_HTTPTimeoutSeconds := x\<rparr>)
         (decodeInt v (CodexBar_HTTPTimeoutSeconds r))),
      (''cli_timeout_seconds'', \<lambda>r v. map_option (\<lambda>x. r\<lparr>CodexBar_CLITimeoutSeconds := x\<rparr>)
         (decodeInt v (CodexBar_CLITimeoutSeconds r))),
      (''usage_provider'', \<lambda>r v. map_option (\<lambda>x. r\<lparr>CodexBar_UsageProvider := x\<rparr>) (decodeString v (CodexBar_UsageProvider r))),
      (''cost_provider'', \<lambda>r v. map_option (\<lambda>x. r\<lparr>CodexBar_CostProvider := x\<rparr>) (decodeString v (CodexBar_CostProvider r)))]"

definition tlsFields :: "TLSConfig field list" where
  "tlsFields =
     [(''ca_file'', \<lambda>r v. map_option (\<lambda>x. r\<lparr>TLS_CAFile := x\<rparr>) (decodeString v (TLS_CAFile r))),
      (''cert_file'', \<lambda>r v. map_option (\<lambda>x. r\<lparr>TLS_CertFile := x\<rparr>) (decodeString v (TLS_CertFile r))),
      (''key_file'', \<lambda>r v. map_option (\<lambda>x. r\<lparr>TLS_KeyFile := x\<rparr>) (decodeString v (TLS_KeyFile r))),
      (''server_name'', \<lambda>r v. map_option (\<lambda>x. r\<lparr>TLS_ServerName := x\<rparr>) (decodeString v (TLS_ServerName r))),
      (''insecure_skip_verify'', \<lambda>r v. map_option (\<lambda>x. r\<lparr>TLS_InsecureSkipVerify := x\<rparr>)
         (decodeBool v (TLS_InsecureSkipVerify r)))]"

definition mqttFields :: "MQTTConfig field list" where
  "mqttFields =
     [(''broker'', \<lambda>r v. map_option (\<lambda>x. r\<lparr>MQTT_Broker := x\<rparr>) (decodeString v (MQTT_Broker r))),
      (''client_id'', \<lambda>r v. map_option (\<lambda>x. r\<lparr>MQTT_ClientID := x\<rparr>) (decodeString v (MQTT_ClientID r))),
      (''username'', \<lambda>r v. map_option (\<lambda>x. r\<lparr>MQTT_Username := x\<rparr>) (decodeString v (MQTT_Username r))),
      (''password'', \<lambda>r v. map_option (\<lambda>x. r\<lparr>MQTT_Password := x\<rparr>) (decodeString v (MQTT_Password r))),
      (''password_env'', \<lambda>r v. map_option (\<lambda>x. r\<lparr>MQTT_PasswordEnv := x\<rparr>) (decodeString v (MQTT_PasswordEnv r))),
      (''password_file'', \<lambda>r v. map_option (\<lambda>x. r\<lparr>MQTT_PasswordFile := x\<rparr>) (decodeString v (MQTT_PasswordFile r))),
      (''topic_prefix'', \<lambda>r v. map_option (\<lambda>x. r\<lparr>MQTT_TopicPrefix := x\<rparr>) (decodeString v (MQTT_TopicPrefix r))),
      (''qos'', \<lambda>r v. map_option (\<lambda>x. r\<lparr>MQTT_QoS := x\<rparr>) (decodeUint8 v (MQTT_QoS r))),
      (''keep_alive_seconds'', \<lambda>r v. map_option (\<lambda>x. r\<lparr>MQTT_KeepAliveSeconds := x\<rparr>) (decodeInt v (MQTT_KeepAliveSeconds r))),
      (''connect_timeout_seconds'', \<lambda>r v. map_option (\<lambda>x. r\<lparr>MQTT_ConnectTimeoutSeconds := x\<rparr>)
         (decodeInt v (MQTT_ConnectTimeoutSeconds r))),
      (''publish_timeout_seconds'', \<lambda>r v. map_option (\<lambda>x. r\<lparr>MQTT_PublishTimeoutSeconds := x\<rparr>)
         (decodeInt v (MQTT_PublishTimeoutSeconds r))),
      (''reconnect_min_seconds'', \<lambda>r v. map_option (\<lambda>x. r\<lparr>MQTT_ReconnectMinSeconds := x\<rparr>)
         (decodeInt v (MQTT_ReconnectMinSeconds r))),
      (''reconnect_max_seconds'', \<lambda>r v. map_option (\<lambda>x. r\<lparr>MQTT_ReconnectMaxSeconds := x\<rparr>)
         (decodeInt v (MQTT_ReconnectMaxSeconds r))),
      (''tls'', \<lambda>r v. map_option (\<lambda>x. r\<lparr>MQTT_TLS := x\<rparr>) (decodeStruct tlsFields v (MQTT_TLS r)))]"

definition pollFields :: "PollConfig field list" where
  "pollFields =
     [(''heartbeat_seconds'', \<lambda>r v. map_option (\<lambda>x. r\<lparr>Poll_HeartbeatSeconds := x\<rparr>) (decodeInt v (Poll_HeartbeatSeconds r))),
      (''health_seconds'', \<lambda>r v. map_option (\<lambda>x. r\<lparr>Poll_HealthSeconds := x\<rparr>) (decodeInt v (Poll_HealthSeconds r))),
      (''usage_seconds'', \<lambda>r v. map_option (\<lambda>x. r\<lparr>Poll_UsageSeconds := x\<rparr>) (decodeInt v (Poll_UsageSeconds r))),
      (''cost_seconds'', \<lambda>r v. map_option (\<lambda>x. r\<lparr>Poll_CostSeconds := x\<rparr>) (decodeInt v (Poll_CostSeconds r))),
      (''all_providers_seconds'', \<lambda>r v. map_option (\<lambda>x. r\<lparr>Poll_AllProvidersSeconds := x\<rparr>) (decodeInt v (Poll_AllProvidersSeconds r))),
      (''status_seconds'', \<lambda>r v. map_option (\<lambda>x. r\<lparr>Poll_StatusSeconds := x\<rparr>) (decodeInt v (Poll_StatusSeconds r))),
      (''status_provider'', \<lambda>r v. map_option (\<lambda>x. r\<lparr>Poll_StatusProvider := x\<rparr>) (decodeString v (Poll_StatusProvider r))),
      (''active_account_probe_seconds'', \<lambda>r v. map_option (\<lambda>x. r\<lparr>Poll_ActiveAccountProbeSeconds := x\<rparr>)
         (decodeInt v (Poll_ActiveAccountProbeSeconds r))),
      (''active_account_probe_providers'', \<lambda>r v. map_option (\<lambda>x. r\<lparr>Poll_ActiveAccountProbeProviders := x\<rparr>)
         (decodeList decodeString '''' v (Poll_ActiveAccountProbeProviders r))),
      (''account_catalogue_seconds'', \<lambda>r v. map_option (\<lambda>x. r\<lparr>Poll_AccountCatalogueSeconds := x\<rparr>)
         (decodeInt v (Poll_AccountCatalogueSeconds r))),
      (''account_catalogue_providers'', \<lambda>r v. map_option (\<lambda>x. r\<lparr>Poll_AccountCatalogueProviders := x\<rparr>)
         (decodeList decodeString '''' v (Poll_AccountCatalogueProviders r))),
      (''cost_horizon_seconds'', \<lambda>r v. map_option (\<lambda>x. r\<lparr>Poll_CostHorizonSeconds := x\<rparr>) (decodeInt v (Poll_CostHorizonSeconds r))),
      (''cost_horizons_days'', \<lambda>r v. map_option (\<lambda>x. r\<lparr>Poll_CostHorizonsDays := x\<rparr>)
         (decodeList decodeInt 0 v (Poll_CostHorizonsDays r))),
      (''config_validate_seconds'', \<lambda>r v. map_option (\<lambda>x. r\<lparr>Poll_ConfigValidateSeconds := x\<rparr>)
         (decodeInt v (Poll_ConfigValidateSeconds r)))]"

definition spoolFields :: "SpoolConfig field list" where
  "spoolFields =
     [(''directory'', \<lambda>r v. map_option (\<lambda>x. r\<lparr>Spool_Directory := x\<rparr>) (decodeString v (Spool_Directory r))),
      (''max_messages'', \<lambda>r v. map_option (\<lambda>x. r\<lparr>Spool_MaxMessages := x\<rparr>) (decodeInt v (Spool_MaxMessages r))),
      (''max_bytes'', \<lambda>r v. map_option (\<lambda>x. r\<lparr>Spool_MaxBytes := x\<rparr>) (decodeInt v (Spool_MaxBytes r)))]"

definition publishFields :: "PublishConfig field list" where
  "publishFields =
     [(''retain_snapshots'', \<lambda>r v. map_option (\<lambda>x. r\<lparr>Publish_RetainSnapshots := x\<rparr>) (decodeBool v (Publish_RetainSnapshots r))),
      (''publish_events'', \<lambda>r v. map_option (\<lambda>x. r\<lparr>Publish_PublishEvents := x\<rparr>) (decodeBool v (Publish_PublishEvents r))),
      (''include_stderr'', \<lambda>r v. map_option (\<lambda>x. r\<lparr>Publish_IncludeStderr := x\<rparr>) (decodeBool v (Publish_IncludeStderr r)))]"

definition configFields :: "AppConfig field list" where
  "configFields =
     [(''machine'', \<lambda>r v. map_option (\<lambda>x. r\<lparr>Machine := x\<rparr>) (decodeStruct machineFields v (Machine r))),
      (''codexbar'', \<lambda>r v. map_option (\<lambda>x. r\<lparr>CodexBar := x\<rparr>) (decodeStruct codexBarFields v (CodexBar r))),
      (''mqtt'', \<lambda>r v. map_option (\<lambda>x. r\<lparr>MQTT := x\<rparr>) (decodeStruct mqttFields v (MQTT r))),
      (''poll'', \<lambda>r v. map_option (\<lambda>x. r\<lparr>Poll := x\<rparr>) (decodeStruct pollFields v (Poll r))),
      (''spool'', \<lambda>r v. map_option (\<lambda>x. r\<lparr>Spool := x\<rparr>) (decodeStruct spoolFields v (Spool r))),
      (''publish'', \<lambda>r v. map_option (\<lambda>x. r\<lparr>Publish := x\<rparr>) (decodeStruct publishFields v (Publish r)))]"

text \<open>The decoder reads one value and leaves what follows it.\<close>

definition decodeConfig :: "string \<Rightarrow> AppConfig \<Rightarrow> AppConfig option" where
  "decodeConfig data c =
     (case scanValue (2 * length data + 2) maxNestingDepth data of
        None \<Rightarrow> None
      | Some (v, rest) \<Rightarrow> decodeStruct configFields v c)"

section \<open>Validate\<close>

definition contains :: "string list \<Rightarrow> string \<Rightarrow> bool" where
  "contains items target \<longleftrightarrow> list_ex (\<lambda>item. item = target) items"

definition absoluteURL :: "string \<Rightarrow> bool" where
  "absoluteURL s =
     (case parseURL s of None \<Rightarrow> False | Some u \<Rightarrow> url_Scheme u \<noteq> '''' \<and> url_Host u \<noteq> '''')"

definition brokerSchemes :: "string list" where
  "brokerSchemes = [''mqtt'', ''mqtts'', ''tcp'', ''tls'', ''ssl'']"

definition complain :: "bool \<Rightarrow> string \<Rightarrow> string list" where
  "complain bad problem = (if bad then [problem] else [])"

definition baseProblems :: "CodexBarConfig \<Rightarrow> string list" where
  "baseProblems c =
     (if CodexBar_BaseURL c = '''' then [''codexbar.base_url is required'']
      else complain (\<not> absoluteURL (CodexBar_BaseURL c)) ''codexbar.base_url must be an absolute HTTP URL'')"

definition loopbackProblems :: "CodexBarConfig \<Rightarrow> URL \<Rightarrow> string list" where
  "loopbackProblems c u =
     (let host = ToLower (Hostname u)
      in complain (host \<noteq> ''127.0.0.1'' \<and> host \<noteq> ''localhost'' \<and> host \<noteq> ''::1'')
           ''codexbar.manage_serve requires a loopback base_url'')"

definition brokerProblems :: "MQTTConfig \<Rightarrow> string list" where
  "brokerProblems c =
     (if MQTT_Broker c = '''' then [''mqtt.broker is required'']
      else if \<not> absoluteURL (MQTT_Broker c) then [''mqtt.broker must be an absolute MQTT URL'']
      else (case parseURL (MQTT_Broker c) of
        None \<Rightarrow> []
      | Some u \<Rightarrow>
          complain (\<not> contains brokerSchemes (ToLower (url_Scheme u)))
            ''mqtt.broker scheme must be mqtt, mqtts, tcp, tls, or ssl''))"

definition horizonProblems :: "int list \<Rightarrow> string list" where
  "horizonProblems days =
     concat (map (\<lambda>d. complain (d < 1 \<or> d > 365)
       (''poll.cost_horizons_days value '' @ intString d @ '' must be 1..365'')) days)"

text \<open>
  With \<open>manage_serve\<close> the URL is parsed again and its error dropped: \<open>Hostname\<close> of the nil URL
  is a nil dereference, which panics.
\<close>

datatype validation = Panics | Returns "string option"

definition Validate :: "AppConfig \<Rightarrow> validation" where
  "Validate c =
     (let u = parseURL (CodexBar_BaseURL (CodexBar c));
          problems =
            complain (\<not> machineIDPattern (Machine_ID (Machine c)))
              ''machine.id must match ^[A-Za-z0-9][A-Za-z0-9._-]{0,127}$'' @
            baseProblems (CodexBar c) @
            complain (CodexBar_ServePort (CodexBar c) < 1 \<or> CodexBar_ServePort (CodexBar c) > 65535)
              ''codexbar.serve_port must be 1..65535'' @
            (if CodexBar_ManageServe (CodexBar c)
             then (case u of Some u \<Rightarrow> loopbackProblems (CodexBar c) u | None \<Rightarrow> []) else []) @
            brokerProblems (MQTT c) @
            complain (MQTT_TopicPrefix (MQTT c) = '''' \<or> ContainsAny (MQTT_TopicPrefix (MQTT c)) ''+#'')
              ''mqtt.topic_prefix is required and cannot contain MQTT wildcards'' @
            complain (MQTT_QoS (MQTT c) > 1) ''mqtt.qos must be 0 or 1'' @
            complain ((TLS_CertFile (MQTT_TLS (MQTT c)) = '''') \<noteq> (TLS_KeyFile (MQTT_TLS (MQTT c)) = ''''))
              ''mqtt.tls.cert_file and key_file must be configured together'' @
            complain (Spool_Directory (Spool c) = '''' \<or> Spool_MaxMessages (Spool c) < 1 \<or>
                Spool_MaxBytes (Spool c) < 1024)
              ''spool directory and positive limits are required'' @
            horizonProblems (Poll_CostHorizonsDays (Poll c))
      in if CodexBar_ManageServe (CodexBar c) \<and> u = None then Panics
         else Returns (if problems = [] then None else Some (Join ''; '' (sort problems))))"

section \<open>Load\<close>

datatype configError =
    HomeError string
  | ConfigReadError string string
  | ConfigDecodeError string
  | SpoolDirError string
  | PasswordFileError string
  | Invalid string
  | Panic

definition expandField :: "env \<Rightarrow> string \<Rightarrow> string + string" where
  "expandField e p = (if p = '''' then Inr p else ExpandPath e p)"

definition expandFields :: "env \<Rightarrow> AppConfig \<Rightarrow> configError + AppConfig" where
  "expandFields e c =
     (case expandField e (CodexBar_Binary (CodexBar c)) of
        Inl err \<Rightarrow> Inl (HomeError err)
      | Inr binary \<Rightarrow>
     (case expandField e (MQTT_PasswordFile (MQTT c)) of
        Inl err \<Rightarrow> Inl (HomeError err)
      | Inr password \<Rightarrow>
     (case expandField e (TLS_CAFile (MQTT_TLS (MQTT c))) of
        Inl err \<Rightarrow> Inl (HomeError err)
      | Inr ca \<Rightarrow>
     (case expandField e (TLS_CertFile (MQTT_TLS (MQTT c))) of
        Inl err \<Rightarrow> Inl (HomeError err)
      | Inr cert \<Rightarrow>
     (case expandField e (TLS_KeyFile (MQTT_TLS (MQTT c))) of
        Inl err \<Rightarrow> Inl (HomeError err)
      | Inr key \<Rightarrow>
          Inr (c\<lparr>CodexBar := (CodexBar c)\<lparr>CodexBar_Binary := binary\<rparr>,
                 MQTT := (MQTT c)\<lparr>MQTT_PasswordFile := password,
                   MQTT_TLS := (MQTT_TLS (MQTT c))\<lparr>TLS_CAFile := ca, TLS_CertFile := cert, TLS_KeyFile := key\<rparr>\<rparr>\<rparr>))))))"

definition normalise :: "AppConfig \<Rightarrow> AppConfig" where
  "normalise c =
     (let mid = sanitizeMachineID (Machine_ID (Machine c));
          name = (if Machine_Name (Machine c) = '''' then mid else Machine_Name (Machine c));
          client = (if MQTT_ClientID (MQTT c) = '''' then ''codexbar-mqtt-'' @ mid else MQTT_ClientID (MQTT c))
      in c\<lparr>MQTT := (MQTT c)\<lparr>MQTT_TopicPrefix := Trim ''/ '' (MQTT_TopicPrefix (MQTT c)), MQTT_ClientID := client\<rparr>,
           Machine := (Machine c)\<lparr>Machine_ID := mid, Machine_Name := name\<rparr>\<rparr>)"

definition setPassword :: "string \<Rightarrow> AppConfig \<Rightarrow> AppConfig" where
  "setPassword p c = c\<lparr>MQTT := (MQTT c)\<lparr>MQTT_Password := p\<rparr>\<rparr>"

definition loadPassword :: "env \<Rightarrow> AppConfig \<Rightarrow> configError + AppConfig" where
  "loadPassword e c =
     (case (if MQTT_PasswordFile (MQTT c) = '''' then Inr c
            else (case readFile e (MQTT_PasswordFile (MQTT c)) of
              Inl err \<Rightarrow> Inl (PasswordFileError err)
            | Inr value \<Rightarrow> Inr (setPassword (TrimSpace value) c))) of
        Inl err \<Rightarrow> Inl err
      | Inr c \<Rightarrow>
          Inr (if MQTT_PasswordEnv (MQTT c) = '''' then c
               else (case getenv e (MQTT_PasswordEnv (MQTT c)) of Some value \<Rightarrow> setPassword value c | None \<Rightarrow> c)))"

definition Load :: "env \<Rightarrow> string \<Rightarrow> configError + AppConfig" where
  "Load e path =
     (case ExpandPath e path of
        Inl err \<Rightarrow> Inl (HomeError err)
      | Inr expanded \<Rightarrow>
     (case readFile e expanded of
        Inl err \<Rightarrow> Inl (ConfigReadError expanded err)
      | Inr data \<Rightarrow>
     (case decodeConfig (ExpandEnv e data) (Defaults (hostName e)) of
        None \<Rightarrow> Inl (ConfigDecodeError expanded)
      | Some c \<Rightarrow>
     (case ExpandPath e (Spool_Directory (Spool c)) of
        Inl err \<Rightarrow> Inl (SpoolDirError err)
      | Inr dir \<Rightarrow>
     (case expandFields e (c\<lparr>Spool := (Spool c)\<lparr>Spool_Directory := dir\<rparr>\<rparr>) of
        Inl err \<Rightarrow> Inl err
      | Inr c \<Rightarrow>
     (case loadPassword e (normalise c) of
        Inl err \<Rightarrow> Inl err
      | Inr c \<Rightarrow>
          (case Validate c of
             Panics \<Rightarrow> Inl Panic
           | Returns (Some problems) \<Rightarrow> Inl (Invalid problems)
           | Returns None \<Rightarrow> Inr c)))))))"

section \<open>What \<open>Validate\<close> accepts\<close>

definition loopback :: "string \<Rightarrow> bool" where
  "loopback s =
     (case parseURL s of
        None \<Rightarrow> False
      | Some u \<Rightarrow> ToLower (Hostname u) \<in> {''127.0.0.1'', ''localhost'', ''::1''})"

definition brokerScheme :: "string \<Rightarrow> bool" where
  "brokerScheme s =
     (case parseURL s of None \<Rightarrow> False | Some u \<Rightarrow> ToLower (url_Scheme u) \<in> set brokerSchemes)"

text \<open>The configurations the program can run with, independently of how they are checked.\<close>

definition acceptable :: "AppConfig \<Rightarrow> bool" where
  "acceptable c \<longleftrightarrow>
     machineIDPattern (Machine_ID (Machine c)) \<and>
     absoluteURL (CodexBar_BaseURL (CodexBar c)) \<and>
     1 \<le> CodexBar_ServePort (CodexBar c) \<and> CodexBar_ServePort (CodexBar c) \<le> 65535 \<and>
     (CodexBar_ManageServe (CodexBar c) \<longrightarrow> loopback (CodexBar_BaseURL (CodexBar c))) \<and>
     absoluteURL (MQTT_Broker (MQTT c)) \<and> brokerScheme (MQTT_Broker (MQTT c)) \<and>
     MQTT_TopicPrefix (MQTT c) \<noteq> '''' \<and> \<not> ContainsAny (MQTT_TopicPrefix (MQTT c)) ''+#'' \<and>
     MQTT_QoS (MQTT c) \<le> 1 \<and>
     ((TLS_CertFile (MQTT_TLS (MQTT c)) = '''') = (TLS_KeyFile (MQTT_TLS (MQTT c)) = '''')) \<and>
     Spool_Directory (Spool c) \<noteq> '''' \<and> 1 \<le> Spool_MaxMessages (Spool c) \<and> 1024 \<le> Spool_MaxBytes (Spool c) \<and>
     list_all (\<lambda>d. 1 \<le> d \<and> d \<le> 365) (Poll_CostHorizonsDays (Poll c))"

lemma complain_Nil [simp]: "complain bad problem = [] \<longleftrightarrow> \<not> bad"
  by (simp add: complain_def)

lemma empty_not_absolute: "\<not> absoluteURL ''''"
  by code_simp

lemma baseProblems_Nil: "baseProblems c = [] \<longleftrightarrow> absoluteURL (CodexBar_BaseURL c)"
  by (cases "CodexBar_BaseURL c = ''''") (simp_all add: baseProblems_def empty_not_absolute)

lemma brokerProblems_Nil:
  "brokerProblems c = [] \<longleftrightarrow> absoluteURL (MQTT_Broker c) \<and> brokerScheme (MQTT_Broker c)"
proof (cases "MQTT_Broker c = ''''")
  case True
  then show ?thesis using empty_not_absolute by (simp add: brokerProblems_def)
next
  case False
  then show ?thesis
    by (auto simp: brokerProblems_def absoluteURL_def brokerScheme_def contains_def list_ex_iff
      split: option.splits)
qed

lemma loopbackProblems_Nil:
  "parseURL (CodexBar_BaseURL c) = Some u \<Longrightarrow> loopbackProblems c u = [] \<longleftrightarrow> loopback (CodexBar_BaseURL c)"
  by (simp add: loopbackProblems_def Let_def loopback_def)

lemma horizonProblems_Nil: "horizonProblems ds = [] \<longleftrightarrow> list_all (\<lambda>d. 1 \<le> d \<and> d \<le> 365) ds"
  by (auto simp: horizonProblems_def list_all_iff not_less)

lemma absolute_parses: "absoluteURL s \<Longrightarrow> \<exists>u. parseURL s = Some u"
  by (auto simp: absoluteURL_def split: option.splits)

lemma validate_accepts: "Validate c = Returns None \<longleftrightarrow> acceptable c"
proof (cases "CodexBar_ManageServe (CodexBar c) \<and> parseURL (CodexBar_BaseURL (CodexBar c)) = None")
  case True
  then have "\<not> acceptable c" by (auto simp: acceptable_def absoluteURL_def)
  with True show ?thesis by (simp add: Validate_def)
next
  case False
  then show ?thesis
    using loopbackProblems_Nil [of "CodexBar c"]
    by (cases "parseURL (CodexBar_BaseURL (CodexBar c))")
      (auto simp: Validate_def Let_def acceptable_def baseProblems_Nil brokerProblems_Nil horizonProblems_Nil
        not_less dest: absolute_parses)
qed


lemma panicking_config:
  "Validate ((Defaults ''mac'')\<lparr>CodexBar := (CodexBar (Defaults ''mac''))\<lparr>CodexBar_BaseURL := ''http://[''\<rparr>\<rparr>) = Panics"
proof -
  have "parseURL ''http://['' = None" by (simp add: string_eval)
  then show ?thesis by (simp add: Validate_def Let_def Defaults_def)
qed

section \<open>The defaults and loaded configurations\<close>

lemma default_urls:
  "absoluteURL ''http://127.0.0.1:8080''" "loopback ''http://127.0.0.1:8080''"
  "absoluteURL ''mqtt://homeassistant:1883''" "brokerScheme ''mqtt://homeassistant:1883''"
  by (simp_all add: absoluteURL_def loopback_def brokerScheme_def brokerSchemes_def string_eval)

lemma acceptable_defaults: "acceptable (Defaults host)"
  by (simp add: acceptable_def Defaults_def Let_def default_urls sanitizeMachineID_matches ContainsAny_def)

text \<open>
  The defaults are valid on every host, whatever its name, so the example configuration can
  be used as it is written.
\<close>
theorem defaults_valid: "Validate (Defaults host) = Returns None"
  by (simp add: validate_accepts acceptable_defaults)

lemma loaded_from:
  assumes "Load e path = Inr c"
  obtains d where "Machine c = Machine (normalise d)" "MQTT_ClientID (MQTT c) = MQTT_ClientID (MQTT (normalise d))"
    "MQTT_TopicPrefix (MQTT c) = MQTT_TopicPrefix (MQTT (normalise d))" "Validate c = Returns None"
proof -
  from assms obtain d where d: "loadPassword e (normalise d) = Inr c" "Validate c = Returns None"
    by (auto simp: Load_def split: sum.splits option.splits validation.splits)
  have "Machine c = Machine (normalise d) \<and> MQTT_ClientID (MQTT c) = MQTT_ClientID (MQTT (normalise d)) \<and>
      MQTT_TopicPrefix (MQTT c) = MQTT_TopicPrefix (MQTT (normalise d))"
    using d(1) by (auto simp: loadPassword_def setPassword_def split: sum.splits if_splits option.splits)
  with d(2) that show ?thesis by blast
qed

text \<open>
  C26: A configuration that \<open>Load\<close> returns is acceptable, and its identifiers are complete: the
  machine identifier matches the pattern, the machine has a name, the MQTT client has an
  identifier, and the topic prefix neither starts nor ends with a slash or a space.
\<close>
theorem loaded_configuration:
  assumes "Load e path = Inr c"
  shows "acceptable c \<and> Machine_Name (Machine c) \<noteq> '''' \<and> MQTT_ClientID (MQTT c) \<noteq> '''' \<and>
    hd (MQTT_TopicPrefix (MQTT c)) \<notin> set ''/ '' \<and> last (MQTT_TopicPrefix (MQTT c)) \<notin> set ''/ ''"
proof -
  obtain d where d: "Machine c = Machine (normalise d)"
    "MQTT_ClientID (MQTT c) = MQTT_ClientID (MQTT (normalise d))"
    "MQTT_TopicPrefix (MQTT c) = MQTT_TopicPrefix (MQTT (normalise d))" and v: "Validate c = Returns None"
    using assms by (rule loaded_from)
  have a: "acceptable c" using v by (simp add: validate_accepts)
  then have p: "Trim ''/ '' (MQTT_TopicPrefix (MQTT d)) \<noteq> []"
    using d(3) by (simp add: acceptable_def normalise_def Let_def)
  have "sanitizeMachineID s \<noteq> []" for s
    using sanitizeMachineID_matches [of s] by (auto simp: machineIDPattern_def)
  then have "Machine_Name (Machine c) \<noteq> ''''" "MQTT_ClientID (MQTT c) \<noteq> ''''"
    using d by (simp_all add: normalise_def Let_def)
  moreover have "MQTT_TopicPrefix (MQTT c) = Trim ''/ '' (MQTT_TopicPrefix (MQTT d))"
    using d(3) by (simp add: normalise_def Let_def)
  ultimately show ?thesis using a Trim_ends [OF p] by (simp only: not_False_eq_True simp_thms)
qed

text \<open>A file with an empty object, in an environment with nothing set.\<close>

definition bareEnv :: env where
  "bareEnv =
     \<lparr>getenv = (\<lambda>_. None), homeDir = Inr ''/home/a'', readFile = (\<lambda>_. Inr ''{}''), hostName = ''m4'',
      windows = False, winClean = id\<rparr>"

lemma bare_load: "\<exists>c. Load bareEnv ''config.json'' = Inr c"
proof -
  have p: "ExpandPath bareEnv ''config.json'' = Inr ''config.json''"
    by (simp add: ExpandPath_def bareEnv_def ExpandEnv.simps string_eval)
  have "scanValue 6 maxNestingDepth ''{}'' = Some (JObj [], [])"
    by (simp add: scan_unfold skipSpace_def jsonSpace_def maxNestingDepth_def eval_nat_numeral)
  then have d: "decodeConfig ''{}'' c = Some c" for c
    by (simp add: decodeConfig_def decodeStruct_def)
  let ?c = "Defaults ''m4''"
  have dir: "ExpandPath bareEnv (Spool_Directory (Spool ?c)) = Inr ''/home/a/Library/Application Support/codexbar-mqtt/spool''"
    by (simp add: Defaults_def ExpandPath_def bareEnv_def ExpandEnv.simps string_eval TrimPrefix_def joinPath_def
        cleanPath_def)
  let ?dir = "''/home/a/Library/Application Support/codexbar-mqtt/spool''"
  let ?d = "?c\<lparr>Spool := (Spool ?c)\<lparr>Spool_Directory := ?dir\<rparr>\<rparr>"
  have f: "expandFields bareEnv ?d = Inr ?d"
    by (simp add: expandFields_def expandField_def Defaults_def Let_def)
  have l: "loadPassword bareEnv (normalise ?d) = Inr (normalise ?d)"
    by (simp add: loadPassword_def normalise_def Defaults_def Let_def)
  have "Trim ''/ '' ''codexbar/v1'' = ''codexbar/v1''" by (simp add: Trim_no)
  then have "acceptable (normalise ?d)"
    by (simp add: acceptable_def normalise_def Defaults_def Let_def default_urls sanitizeMachineID_matches
        ContainsAny_def)
  then have v: "Validate (normalise ?d) = Returns None" by (simp add: validate_accepts)
  have e: "ExpandEnv bareEnv ''{}'' = ''{}''" "readFile bareEnv p = Inr ''{}''" "hostName bareEnv = ''m4''" for p
    by (simp_all add: bareEnv_def ExpandEnv.simps)
  show ?thesis
    unfolding Load_def p e sum.case d option.case dir f l v validation.case by simp
qed

theorem loaded_configuration_witness:
  "\<exists>c. Load bareEnv ''config.json'' = Inr c \<and> acceptable c \<and> MQTT_ClientID (MQTT c) \<noteq> ''''"
proof -
  obtain c where "Load bareEnv ''config.json'' = Inr c" using bare_load by blast
  with loaded_configuration [OF this] show ?thesis by blast
qed

end
