(* ===== verification/Broker.thy ===== *)
theory Broker
  imports Client Settings
begin

text \<open>
  \<open>Dial\<close> of \<open>internal/mqttclient/client.go\<close>: the address of the broker, the TLS configuration and
  the exchange of CONNECT and CONNACK. The network and the files are parameters.
\<close>

section \<open>The broker's address\<close>

datatype broker_error = BadBrokerURL | UnsupportedScheme string | NoHostname

definition isTLSScheme :: "string \<Rightarrow> bool" where
  "isTLSScheme scheme \<longleftrightarrow> contains [''mqtts'', ''tls'', ''ssl''] (ToLower scheme)"

definition JoinHostPort :: "string \<Rightarrow> string \<Rightarrow> string" where
  "JoinHostPort host port =
     (if CHR '':'' \<in> set host then ''['' @ host @ '']:'' @ port else host @ '':'' @ port)"

definition parseBrokerURL :: "string \<Rightarrow> broker_error + URL" where
  "parseBrokerURL raw =
     (case parseURL raw of
        None \<Rightarrow> Inl BadBrokerURL
      | Some u \<Rightarrow>
          (let scheme = ToLower (url_Scheme u)
           in if scheme \<noteq> ''mqtt'' \<and> scheme \<noteq> ''mqtts'' \<and> scheme \<noteq> ''tcp'' \<and> scheme \<noteq> ''tls'' \<and> scheme \<noteq> ''ssl''
              then Inl (UnsupportedScheme (url_Scheme u))
              else if Hostname u = '''' then Inl NoHostname
              else if Port u = '''' then
                Inr (u\<lparr>url_Host := JoinHostPort (Hostname u) (if isTLSScheme scheme then ''8883'' else ''1883'')\<rparr>)
              else Inr u))"

section \<open>TLS\<close>

record tlsFiles =
  caFile :: "string \<Rightarrow> string + string"
  hasCertificates :: "string \<Rightarrow> bool"
  keyPair :: "string \<Rightarrow> string \<Rightarrow> string option"

record tlsConfig =
  tlsServerName :: string
  tlsSkipVerify :: bool
  tlsRoots :: "string option"
  tlsCertificate :: "(string \<times> string) option"

datatype tls_error = CAReadError string | CANoCertificates | KeyMissing | KeyPairError string

definition tlsRootsFor :: "tlsFiles \<Rightarrow> Config \<Rightarrow> tls_error + string option" where
  "tlsRootsFor files c =
     (if CAFile c = '''' then Inr None
      else (case caFile files (CAFile c) of
        Inl e \<Rightarrow> Inl (CAReadError e)
      | Inr pem \<Rightarrow> if hasCertificates files pem then Inr (Some pem) else Inl CANoCertificates))"

definition tlsCertificateFor :: "tlsFiles \<Rightarrow> Config \<Rightarrow> tls_error + (string \<times> string) option" where
  "tlsCertificateFor files c =
     (if CertFile c = '''' \<and> KeyFile c = '''' then Inr None
      else if CertFile c = '''' \<or> KeyFile c = '''' then Inl KeyMissing
      else (case keyPair files (CertFile c) (KeyFile c) of
        Some e \<Rightarrow> Inl (KeyPairError e)
      | None \<Rightarrow> Inr (Some (CertFile c, KeyFile c))))"

definition buildTLSConfig :: "tlsFiles \<Rightarrow> Config \<Rightarrow> string \<Rightarrow> tls_error + tlsConfig" where
  "buildTLSConfig files c host =
     (case tlsRootsFor files c of
        Inl e \<Rightarrow> Inl e
      | Inr roots \<Rightarrow>
          (case tlsCertificateFor files c of
             Inl e \<Rightarrow> Inl e
           | Inr certificate \<Rightarrow>
               Inr \<lparr>tlsServerName = (if ServerName c = '''' then host else ServerName c),
                    tlsSkipVerify = InsecureSkipVerify c, tlsRoots = roots, tlsCertificate = certificate\<rparr>))"

section \<open>Dial\<close>

text \<open>
  The network: the error of dialling an address, with the TLS configuration if there is one;
  the error of writing; and the bytes the broker sends before the deadline or the end.
\<close>

record network =
  dialError :: "string \<Rightarrow> tlsConfig option \<Rightarrow> string option"
  writeError :: "string option"
  fromBroker :: bytes

datatype dial_error =
    NoClientID
  | BadBroker broker_error
  | BadTLS tls_error
  | DialFailed string string
  | WriteConnectFailed string
  | ReadConnackFailed wire_error
  | NotConnack byte
  | BadConnack wire_error

definition dialDefaults :: "Config \<Rightarrow> Config" where
  "dialDefaults c =
     c\<lparr>KeepAlive := if KeepAlive c \<le> 0 then 30 * second else KeepAlive c,
       ConnectTimeout := if ConnectTimeout c \<le> 0 then 10 * second else ConnectTimeout c,
       PublishTimeout := if PublishTimeout c \<le> 0 then 15 * second else PublishTimeout c\<rparr>"

text \<open>After the connection is there: what is written to it, and the client with the rest of the input.\<close>

definition handshake :: "network \<Rightarrow> Config \<Rightarrow> (dial_error + Client \<times> bytes) \<times> bytes" where
  "handshake net c =
     (case writeError net of
        Some e \<Rightarrow> (Inl (WriteConnectFailed e), [])
      | None \<Rightarrow>
          ((case readPacket (fromBroker net) of
              Inl e \<Rightarrow> Inl (ReadConnackFailed e)
            | Inr ((packetType, flags, body), rest) \<Rightarrow>
                if packetType \<noteq> packetCONNACK then Inl (NotConnack packetType)
                else (case validateConnack body of
                  Inl e \<Rightarrow> Inl (BadConnack e)
                | Inr _ \<Rightarrow> Inr (newClient c, rest))), encodeConnect c))"

definition Dial :: "tlsFiles \<Rightarrow> network \<Rightarrow> Config \<Rightarrow> (dial_error + Client \<times> bytes) \<times> bytes" where
  "Dial files net c =
     (if ClientID c = '''' then (Inl NoClientID, [])
      else (let c = dialDefaults c
            in case parseBrokerURL (BrokerURL c) of
                 Inl e \<Rightarrow> (Inl (BadBroker e), [])
               | Inr u \<Rightarrow>
                   if isTLSScheme (url_Scheme u) then
                     (case buildTLSConfig files c (Hostname u) of
                        Inl e \<Rightarrow> (Inl (BadTLS e), [])
                      | Inr tls \<Rightarrow>
                          (case dialError net (url_Host u) (Some tls) of
                             Some e \<Rightarrow> (Inl (DialFailed (url_Host u) e), [])
                           | None \<Rightarrow> handshake net c))
                   else (case dialError net (url_Host u) None of
                          Some e \<Rightarrow> (Inl (DialFailed (url_Host u) e), [])
                        | None \<Rightarrow> handshake net c)))"

section \<open>Accepted brokers\<close>

lemma lower_schemes: "ToLower ''mqtt'' = ''mqtt''" "ToLower ''mqtts'' = ''mqtts''" "ToLower ''tcp'' = ''tcp''"
  "ToLower ''tls'' = ''tls''" "ToLower ''ssl'' = ''ssl''"
  by (simp_all add: string_eval)

text \<open>
  C27: A broker URL of an accepted configuration is one that \<open>Dial\<close> understands, provided it has
  a host name: the address is the URL's own when it has a port, and otherwise the host name with
  the port 8883 for a scheme with TLS and 1883 for the others.
\<close>
theorem broker_address:
  assumes "Validate c = Returns None" "parseURL (MQTT_Broker (MQTT c)) = Some u" "Hostname u \<noteq> ''''"
  shows "\<exists>u'. parseBrokerURL (MQTT_Broker (MQTT c)) = Inr u' \<and> url_Scheme u' = url_Scheme u \<and>
    url_Host u' = (if Port u \<noteq> '''' then url_Host u
                   else JoinHostPort (Hostname u) (if isTLSScheme (url_Scheme u) then ''8883'' else ''1883''))"
proof -
  have "brokerScheme (MQTT_Broker (MQTT c))"
    using assms(1) by (simp add: validate_accepts acceptable_def)
  then have s: "ToLower (url_Scheme u) \<in> set brokerSchemes"
    using assms(2) by (simp add: brokerScheme_def)
  then have "isTLSScheme (ToLower (url_Scheme u)) = isTLSScheme (url_Scheme u)"
    by (auto simp: isTLSScheme_def brokerSchemes_def lower_schemes)
  with s assms(2,3) show ?thesis
    by (auto simp: parseBrokerURL_def Let_def brokerSchemes_def)
qed

theorem broker_address_witness:
  "\<exists>u'. parseBrokerURL (MQTT_Broker (MQTT (Defaults ''m4''))) = Inr u' \<and> url_Scheme u' = ''mqtt'' \<and>
     url_Host u' = ''homeassistant:1883''"
proof -
  let ?u = "emptyURL\<lparr>url_Scheme := ''mqtt'', url_Host := ''homeassistant:1883''\<rparr>"
  have p: "parseURL (MQTT_Broker (MQTT (Defaults ''m4''))) = Some ?u" "Hostname ?u \<noteq> ''''" "Port ?u \<noteq> ''''"
    by (simp_all add: Defaults_def string_eval)
  have "Validate (Defaults ''m4'') = Returns None" by (simp add: validate_accepts acceptable_defaults)
  from broker_address [OF this p(1,2)] p(3) show ?thesis by (simp add: emptyURL_def)
qed

text \<open>
  Not every accepted broker has a host name: one that names a port only passes \<open>Validate\<close>, and
  every attempt to connect to it fails.
\<close>

lemma hostless_broker:
  "Validate ((Defaults host)\<lparr>MQTT := (MQTT (Defaults host))\<lparr>MQTT_Broker := ''mqtt://:1883''\<rparr>\<rparr>) = Returns None"
  "parseBrokerURL ''mqtt://:1883'' = Inl NoHostname"
proof -
  have b: "absoluteURL ''mqtt://:1883''" "brokerScheme ''mqtt://:1883''"
    by (simp_all add: absoluteURL_def brokerScheme_def brokerSchemes_def string_eval)
  show "Validate ((Defaults host)\<lparr>MQTT := (MQTT (Defaults host))\<lparr>MQTT_Broker := ''mqtt://:1883''\<rparr>\<rparr>) = Returns None"
    using acceptable_defaults [of host] b by (simp add: validate_accepts acceptable_def)
  show "parseBrokerURL ''mqtt://:1883'' = Inl NoHostname"
    by (simp add: parseBrokerURL_def string_eval)
qed

lemma dial_hostless: "ClientID c \<noteq> '''' \<Longrightarrow> BrokerURL c = ''mqtt://:1883'' \<Longrightarrow> fst (Dial files net c) = Inl (BadBroker NoHostname)"
  by (simp add: Dial_def dialDefaults_def Let_def hostless_broker)

text \<open>
  C28: \<open>Dial\<close> gives a client exactly when it wrote the whole CONNECT packet of the configuration,
  with the defaults filled in, and the first packet the broker sent is a CONNACK with reason
  code 0; the client has that configuration, and everything after the CONNACK is left for it.
\<close>
theorem dial_handshake:
  assumes "Dial files net c = (Inr (client, rest), out)"
  shows "client = newClient (dialDefaults c) \<and> out = encodeConnect (dialDefaults c) \<and>
    (\<exists>flags body. readPacket (fromBroker net) = Inr ((packetCONNACK, flags, body), rest) \<and>
       3 \<le> length body \<and> body ! 1 = 0)"
proof -
  have "handshake net (dialDefaults c) = (Inr (client, rest), out)"
    using assms by (auto simp: Dial_def Let_def split: if_splits sum.splits option.splits)
  then show ?thesis
    by (auto simp: handshake_def validateConnack_def index_of_def split: option.splits sum.splits prod.splits if_splits)
qed


text \<open>A broker that accepts the connection and has sent one more byte.\<close>

definition welcoming :: network where
  "welcoming = \<lparr>dialError = (\<lambda>_ _. None), writeError = None, fromBroker = makePacket 32 [0, 0, 0] @ [48]\<rparr>"

definition noFiles :: tlsFiles where
  "noFiles = \<lparr>caFile = (\<lambda>_. Inl ''no file''), hasCertificates = (\<lambda>_. False), keyPair = (\<lambda>_ _. Some ''no file'')\<rparr>"

definition dialled :: Config where
  "dialled = exampleConfig\<lparr>BrokerURL := ''mqtt://homeassistant:1883''\<rparr>"

lemma welcoming_packet: "readPacket (fromBroker welcoming) = Inr ((packetCONNACK, 0, [0, 0, 0]), [48])"
  by (simp add: welcoming_def readPacket_makePacket maxPacketSize_def packetCONNACK_def)

lemma welcoming_handshake: "handshake welcoming c = (Inr (newClient c, [48]), encodeConnect c)"
  unfolding handshake_def welcoming_packet by (simp add: validateConnack_def index_of_def welcoming_def)

theorem dial_handshake_witness:
  "\<exists>client rest. Dial noFiles welcoming dialled = (Inr (client, rest), encodeConnect (dialDefaults dialled)) \<and>
     client = newClient (dialDefaults dialled) \<and> rest = [48]"
proof -
  let ?u = "emptyURL\<lparr>url_Scheme := ''mqtt'', url_Host := ''homeassistant:1883''\<rparr>"
  have u: "parseBrokerURL ''mqtt://homeassistant:1883'' = Inr ?u" "\<not> isTLSScheme (url_Scheme ?u)"
    by (simp_all add: parseBrokerURL_def isTLSScheme_def contains_def string_eval)
  have c: "ClientID dialled \<noteq> ''''" "BrokerURL (dialDefaults dialled) = ''mqtt://homeassistant:1883''"
    by (simp_all add: dialled_def exampleConfig_def dialDefaults_def)
  have "dialError welcoming h t = None" for h t by (simp add: welcoming_def)
  then have d: "Dial noFiles welcoming dialled =
      (Inr (newClient (dialDefaults dialled), [48]), encodeConnect (dialDefaults dialled))"
    using c u by (simp add: Dial_def Let_def welcoming_handshake)
  from dial_handshake [OF d] d show ?thesis by blast
qed

end
