(* ===== verification/Spool.thy ===== *)
theory Spool
  imports SpoolRecord "HOL-Library.Multiset" "HOL-Library.List_Lexorder" "HOL-Library.Char_ord" "HOL-Library.AList"
begin

text \<open>
  The disk-backed queue of \<open>internal/spool/spool.go\<close>. The spool directory is an association
  list from names to entries, distinct names in any order; a path is its name in it. One file
  holds the JSON text of one record.

  Each operation holds the queue's mutex from its first to its last access of the directory
  (\<open>Drain\<close> gives it up while it publishes), so an operation is one function; an \<open>io\<close> value says
  which system calls fail in it.
\<close>

section \<open>The directory\<close>

datatype entry = RegularFile string | Directory

datatype spool_error = DirRequired | CreateDirErr | ReadDirErr | ReadErr | WriteRecordErr | CommitRecordErr | RemoveErr

datatype write_outcome = WroteAll | OpenFailed | WrotePart nat

text \<open>
  \<open>readDirErr n\<close>: the \<open>n\<close>-th \<open>os.ReadDir\<close> of the operation fails; \<open>infoErr\<close>, \<open>readErr\<close>,
  \<open>renameErr\<close>, \<open>removeErr\<close>: the calls on a name that fail; \<open>writeOutcome\<close>: how \<open>os.WriteFile\<close> on a
  name ends; \<open>infoAfterRemove\<close>: whether \<open>DirEntry.Info\<close> of a file that was listed and then
  removed still succeeds. On Unix systems it is a late \<open>lstat\<close> and fails.
\<close>

record io =
  readDirErr :: "nat \<Rightarrow> bool"
  infoErr :: "string \<Rightarrow> bool"
  readErr :: "string \<Rightarrow> bool"
  writeOutcome :: "string \<Rightarrow> write_outcome"
  renameErr :: "string \<Rightarrow> bool"
  removeErr :: "string \<Rightarrow> bool"
  infoAfterRemove :: bool

definition unixIO :: io where
  "unixIO =
     \<lparr>readDirErr = (\<lambda>_. False), infoErr = (\<lambda>_. False), readErr = (\<lambda>_. False),
      writeOutcome = (\<lambda>_. WroteAll), renameErr = (\<lambda>_. False), removeErr = (\<lambda>_. False),
      infoAfterRemove = False\<rparr>"

lemma unixIO_simps [simp]:
  "readDirErr unixIO = (\<lambda>_. False)" "infoErr unixIO = (\<lambda>_. False)" "readErr unixIO = (\<lambda>_. False)"
  "writeOutcome unixIO = (\<lambda>_. WroteAll)" "renameErr unixIO = (\<lambda>_. False)"
  "removeErr unixIO = (\<lambda>_. False)" "infoAfterRemove unixIO = False"
  by (simp_all add: unixIO_def)

record Queue =
  maxMessages :: int
  maxBytes :: int
  entries :: "(string \<times> entry) list"
  dropped :: "64 word"

text \<open>\<open>createErr\<close> tells whether making the directory fails, \<open>existing\<close> what is in it.\<close>

definition New :: "string \<Rightarrow> int \<Rightarrow> int \<Rightarrow> bool \<Rightarrow> (string \<times> entry) list \<Rightarrow> spool_error + Queue" where
  "New dir messages limit createErr existing =
     (if dir = '''' then Inl DirRequired
      else if createErr then Inl CreateDirErr
      else Inr \<lparr>maxMessages = messages, maxBytes = limit, entries = existing, dropped = 0\<rparr>)"

definition putFile :: "string \<Rightarrow> string \<Rightarrow> Queue \<Rightarrow> Queue" where
  "putFile name data q = q\<lparr>entries := AList.update name (RegularFile data) (entries q)\<rparr>"

definition removeFile :: "string \<Rightarrow> Queue \<Rightarrow> Queue" where
  "removeFile name q = q\<lparr>entries := AList.delete name (entries q)\<rparr>"

definition countDrop :: "Queue \<Rightarrow> Queue" where
  "countDrop q = q\<lparr>dropped := dropped q + 1\<rparr>"

definition fileContent :: "Queue \<Rightarrow> string \<Rightarrow> string option" where
  "fileContent q name = (case map_of (entries q) name of Some (RegularFile data) \<Rightarrow> Some data | _ \<Rightarrow> None)"

text \<open>\<open>os.ReadFile\<close> of a listed file, and \<open>json.Unmarshal\<close> of what it holds.\<close>

definition readRecord :: "io \<Rightarrow> Queue \<Rightarrow> string \<Rightarrow> Record option" where
  "readRecord io q name =
     (if readErr io name then None
      else case fileContent q name of None \<Rightarrow> None | Some data \<Rightarrow> unmarshalRecord data)"

section \<open>Listing\<close>

definition isRecordName :: "string \<Rightarrow> bool" where
  "isRecordName name \<longleftrightarrow> HasSuffix name ''.json'' \<and> \<not> HasPrefix name ''.''"

definition visibleEntry :: "io \<Rightarrow> string \<times> entry \<Rightarrow> bool" where
  "visibleEntry io e =
     (case e of
        (name, Directory) \<Rightarrow> False
      | (name, RegularFile data) \<Rightarrow> isRecordName name \<and> \<not> infoErr io name)"

definition entrySize :: "entry \<Rightarrow> int" where
  "entrySize e = (case e of RegularFile data \<Rightarrow> int (length data) | Directory \<Rightarrow> 0)"

definition listFiles :: "io \<Rightarrow> Queue \<Rightarrow> (string \<times> int) list" where
  "listFiles io q =
     map (\<lambda>(name, e). (name, entrySize e)) (sort_key fst (filter (visibleEntry io) (entries q)))"

definition totalSize :: "(string \<times> int) list \<Rightarrow> int" where
  "totalSize files = sum_list (map snd files)"

definition listLocked :: "io \<Rightarrow> nat \<Rightarrow> Queue \<Rightarrow> spool_error + (string \<times> int) list \<times> int" where
  "listLocked io n q =
     (if readDirErr io n then Inl ReadDirErr
      else Inr (listFiles io q, totalSize (listFiles io q)))"

section \<open>Pruning\<close>

definition isSnapshot :: "Record \<Rightarrow> bool" where
  "isSnapshot r \<longleftrightarrow> recRetain r \<or> recClass r = ''snapshot''"

text \<open>The first pass: the newest listed file of each snapshot topic.\<close>

fun latestByTopic :: "io \<Rightarrow> Queue \<Rightarrow> string list \<Rightarrow> (string \<Rightarrow> string option) \<Rightarrow> string \<Rightarrow> string option" where
  "latestByTopic io q [] latest = latest"
| "latestByTopic io q (name # names) latest =
     latestByTopic io q names
       (case readRecord io q name of
          Some r \<Rightarrow> if isSnapshot r then latest(recTopic r \<mapsto> name) else latest
        | None \<Rightarrow> latest)"

text \<open>The second pass: every other listed snapshot is removed and counted.\<close>

definition superseded :: "io \<Rightarrow> Queue \<Rightarrow> (string \<Rightarrow> string option) \<Rightarrow> string \<Rightarrow> bool" where
  "superseded io q latest name \<longleftrightarrow>
     (case readRecord io q name of
        Some r \<Rightarrow> isSnapshot r \<and> latest (recTopic r) \<noteq> Some name
      | None \<Rightarrow> False)"

fun coalesce :: "io \<Rightarrow> (string \<Rightarrow> bool) \<Rightarrow> string list \<Rightarrow> Queue \<Rightarrow> Queue" where
  "coalesce io old [] q = q"
| "coalesce io old (name # names) q =
     coalesce io old names
       (if old name \<and> \<not> removeErr io name then countDrop (removeFile name q) else q)"

text \<open>The last loop: the oldest listed files go while the limits are exceeded.\<close>

fun evict :: "io \<Rightarrow> (string \<times> int) list \<Rightarrow> int \<Rightarrow> Queue \<Rightarrow> spool_error option \<times> Queue" where
  "evict io [] tot q = (None, q)"
| "evict io ((name, bytes) # files) tot q =
     (if int (length files) + 1 > maxMessages q \<or> tot > maxBytes q then
        (if removeErr io name then (Some RemoveErr, q)
         else evict io files (if infoAfterRemove io then tot - bytes else tot)
                (countDrop (removeFile name q)))
      else (None, q))"

definition pruneLocked :: "io \<Rightarrow> Queue \<Rightarrow> spool_error option \<times> Queue" where
  "pruneLocked io q =
     (case listLocked io 0 q of
        Inl e \<Rightarrow> (Some e, q)
      | Inr (files, tot) \<Rightarrow>
          if int (length files) \<le> maxMessages q \<and> tot \<le> maxBytes q then (None, q)
          else
            (let names = map fst files;
                 latest = latestByTopic io q names Map.empty;
                 q1 = coalesce io (superseded io q latest) names q
             in case listLocked io 1 q1 of
                  Inl e \<Rightarrow> (Some e, q1)
                | Inr (files1, total1) \<Rightarrow> evict io files1 total1 q1))"

section \<open>Enqueue\<close>

definition padDecimal :: "nat \<Rightarrow> string" where
  "padDecimal n = (let s = natString n in replicate (20 - length s) CHR ''0'' @ s)"

text \<open>\<open>newID\<close> from the clock in nanoseconds and six random bytes.\<close>

definition newID :: "nat \<times> bytes \<Rightarrow> string" where
  "newID source = (case source of (nanos, random) \<Rightarrow> padDecimal nanos @ ''-'' @ hexEncode random)"

definition completeRecord :: "nat \<times> bytes \<Rightarrow> Record \<Rightarrow> Record" where
  "completeRecord source r =
     (let r = (if recID r = '''' then r\<lparr>recID := newID source\<rparr> else r)
      in if recClass r = '''' then r\<lparr>recClass := ''event''\<rparr> else r)"

definition recordName :: "Record \<Rightarrow> string" where
  "recordName r = recID r @ ''.json''"

definition tempName :: "Record \<Rightarrow> string" where
  "tempName r = ''.'' @ recordName r @ ''.tmp''"

definition writeRecord :: "io \<Rightarrow> Record \<Rightarrow> Queue \<Rightarrow> spool_error option \<times> Queue" where
  "writeRecord io r q =
     (let data = marshalRecord r
      in case writeOutcome io (tempName r) of
           OpenFailed \<Rightarrow> (Some WriteRecordErr, q)
         | WrotePart n \<Rightarrow> (Some WriteRecordErr, putFile (tempName r) (take n data) q)
         | WroteAll \<Rightarrow>
             (let q1 = putFile (tempName r) data q
              in if renameErr io (tempName r)
                 then (Some CommitRecordErr,
                       if removeErr io (tempName r) then q1 else removeFile (tempName r) q1)
                 else (None, putFile (recordName r) data (removeFile (tempName r) q1))))"

text \<open>
  The loop over the records; \<open>sources\<close> gives each call of \<open>newID\<close> its clock and random bytes.
\<close>

fun writeRecords ::
    "io \<Rightarrow> (nat \<Rightarrow> nat \<times> bytes) \<Rightarrow> nat \<Rightarrow> Record list \<Rightarrow> Queue \<Rightarrow> spool_error option \<times> Queue" where
  "writeRecords io sources i [] q = (None, q)"
| "writeRecords io sources i (r # rs) q =
     (case writeRecord io (completeRecord (sources i) r) q of
        (Some e, q') \<Rightarrow> (Some e, q')
      | (None, q') \<Rightarrow> writeRecords io sources (Suc i) rs q')"

definition Enqueue ::
    "io \<Rightarrow> (nat \<Rightarrow> nat \<times> bytes) \<Rightarrow> Record list \<Rightarrow> Queue \<Rightarrow> spool_error option \<times> Queue" where
  "Enqueue io sources rs q =
     (case writeRecords io sources 0 rs q of
        (Some e, q') \<Rightarrow> (Some e, q')
      | (None, q') \<Rightarrow> pruneLocked io q')"

section \<open>Peek, drain, statistics\<close>

type_synonym peeked = "spool_error + (string \<times> Record) option"

partial_function (option) peekUnlockedRetry :: "io \<Rightarrow> nat \<Rightarrow> Queue \<Rightarrow> (peeked \<times> Queue) option" where
  "peekUnlockedRetry io n q =
     (case listLocked io n q of
        Inl e \<Rightarrow> Some (Inl e, q)
      | Inr (files, tot) \<Rightarrow>
          (case files of
             [] \<Rightarrow> Some (Inr None, q)
           | (name, bytes) # _ \<Rightarrow>
               if readErr io name then Some (Inl ReadErr, q)
               else (case readRecord io q name of
                 Some r \<Rightarrow> Some (Inr (Some (name, r)), q)
               | None \<Rightarrow>
                   peekUnlockedRetry io (Suc n)
                     (countDrop (if removeErr io name then q else removeFile name q)))))"

definition peek :: "io \<Rightarrow> Queue \<Rightarrow> (peeked \<times> Queue) option" where
  "peek io q =
     (case listLocked io 0 q of
        Inl e \<Rightarrow> Some (Inl e, q)
      | Inr (files, tot) \<Rightarrow>
          (case files of
             [] \<Rightarrow> Some (Inr None, q)
           | (name, bytes) # _ \<Rightarrow>
               if readErr io name then Some (Inl ReadErr, q)
               else (case readRecord io q name of
                 Some r \<Rightarrow> Some (Inr (Some (name, r)), q)
               | None \<Rightarrow>
                   peekUnlockedRetry io 1
                     (countDrop (if removeErr io name then q else removeFile name q)))))"

datatype 'e drain_error = QueueErr spool_error | PublishErr 'e

text \<open>
  \<open>os.Remove\<close> after the acknowledgement: a file that is gone is no error.
\<close>

definition removePublished :: "io \<Rightarrow> string \<Rightarrow> Queue \<Rightarrow> spool_error option \<times> Queue" where
  "removePublished io name q =
     (if map_of (entries q) name = None then (None, q)
      else if removeErr io name then (Some RemoveErr, q)
      else (None, removeFile name q))"

text \<open>
  \<open>Drain\<close> with nothing running beside it. The environment gives each turn of the loop its
  system calls, and each \<open>Publish\<close> its outcome, by the number of the turn. The result is how
  it ends, what was published with success, in order, and the queue.
\<close>

partial_function (option) drainLoop ::
    "(nat \<Rightarrow> io) \<Rightarrow> (nat \<Rightarrow> Record \<Rightarrow> 'e option) \<Rightarrow> nat \<Rightarrow> Record list \<Rightarrow> Queue \<Rightarrow>
       ('e drain_error option \<times> Record list \<times> Queue) option" where
  "drainLoop ios publish i published q =
     (case peek (ios i) q of
        None \<Rightarrow> None
      | Some (Inl e, q1) \<Rightarrow> Some (Some (QueueErr e), published, q1)
      | Some (Inr None, q1) \<Rightarrow> Some (None, published, q1)
      | Some (Inr (Some (name, r)), q1) \<Rightarrow>
          (case publish i r of
             Some e \<Rightarrow> Some (Some (PublishErr e), published, q1)
           | None \<Rightarrow>
               (case removePublished (ios i) name q1 of
                  (Some e, q2) \<Rightarrow> Some (Some (QueueErr e), published @ [r], q2)
                | (None, q2) \<Rightarrow> drainLoop ios publish (Suc i) (published @ [r]) q2)))"

definition Drain ::
    "(nat \<Rightarrow> io) \<Rightarrow> (nat \<Rightarrow> Record \<Rightarrow> 'e option) \<Rightarrow> Queue \<Rightarrow>
       ('e drain_error option \<times> Record list \<times> Queue) option" where
  "Drain ios publish q = drainLoop ios publish 0 [] q"

record Stats =
  Messages :: nat
  Bytes :: int
  Dropped :: "64 word"

definition queueStats :: "io \<Rightarrow> Queue \<Rightarrow> spool_error + Stats" where
  "queueStats io q =
     (case listLocked io 0 q of
        Inl e \<Rightarrow> Inl e
      | Inr (files, tot) \<Rightarrow> Inr \<lparr>Messages = length files, Bytes = tot, Dropped = dropped q\<rparr>)"

section \<open>The listing\<close>

definition wfQueue :: "Queue \<Rightarrow> bool" where
  "wfQueue q \<longleftrightarrow> distinct (map fst (entries q))"

abbreviation listedNames :: "io \<Rightarrow> Queue \<Rightarrow> string list" where
  "listedNames io q \<equiv> map fst (listFiles io q)"

lemma listFiles_remove: "listFiles io (removeFile name q) = filter (\<lambda>f. fst f \<noteq> name) (listFiles io q)"
  by (simp add: listFiles_def removeFile_def AList.delete_eq filter_map comp_def split_beta
      flip: filter_sort) (simp add: filter_sort conj_commute eq_commute)

lemma listFiles_cong [simp]:
  "listFiles io (countDrop q) = listFiles io q"
  by (simp add: listFiles_def countDrop_def)

lemma limits_cong [simp]:
  "maxMessages (countDrop q) = maxMessages q" "maxBytes (countDrop q) = maxBytes q"
  "maxMessages (removeFile name q) = maxMessages q" "maxBytes (removeFile name q) = maxBytes q"
  "maxMessages (putFile name data q) = maxMessages q" "maxBytes (putFile name data q) = maxBytes q"
  "dropped (removeFile name q) = dropped q" "dropped (putFile name data q) = dropped q"
  "dropped (countDrop q) = dropped q + 1" "entries (countDrop q) = entries q"
  by (simp_all add: countDrop_def removeFile_def putFile_def)

lemma wfQueue_ops:
  "wfQueue q \<Longrightarrow> wfQueue (removeFile name q)" "wfQueue q \<Longrightarrow> wfQueue (putFile name data q)"
  "wfQueue (countDrop q) = wfQueue q"
  by (simp_all add: wfQueue_def removeFile_def putFile_def distinct_delete distinct_update countDrop_def)

lemma listFiles_size_nonneg: "f \<in> set (listFiles io q) \<Longrightarrow> 0 \<le> snd f"
  by (auto simp: listFiles_def entrySize_def split: entry.splits)

lemma listedNames_eq: "listedNames io q = sort (map fst (filter (visibleEntry io) (entries q)))"
proof -
  have "map fst (sort_key fst xs) = sort (map fst xs)" for xs :: "(string \<times> entry) list"
    by (rule properties_for_sort [symmetric]) simp_all
  then show ?thesis by (simp add: listFiles_def comp_def split_beta)
qed

lemma sorted_listedNames: "sorted (listedNames io q)"
  by (simp add: listedNames_eq)

lemma distinct_listedNames: "wfQueue q \<Longrightarrow> distinct (listedNames io q)"
  by (simp add: listedNames_eq wfQueue_def distinct_map_filter)

lemma listed_iff:
  "wfQueue q \<Longrightarrow> name \<in> set (listedNames io q) \<longleftrightarrow>
     isRecordName name \<and> \<not> infoErr io name \<and> (\<exists>data. map_of (entries q) name = Some (RegularFile data))"
  by (auto simp: listedNames_eq wfQueue_def visibleEntry_def image_iff map_of_eq_Some_iff split: entry.splits)
    (metis entry.exhaust)+

lemma totalSize_Nil [simp]: "totalSize [] = 0"
  by (simp add: totalSize_def)

lemma totalSize_Cons [simp]: "totalSize (f # fs) = snd f + totalSize fs"
  by (simp add: totalSize_def)

lemma totalSize_nonneg: "(\<And>f. f \<in> set fs \<Longrightarrow> 0 \<le> snd f) \<Longrightarrow> 0 \<le> totalSize fs"
  by (induction fs) auto

lemma totalSize_drop:
  assumes "\<And>f. f \<in> set fs \<Longrightarrow> 0 \<le> snd f"
  shows "totalSize (drop k fs) \<le> totalSize fs"
proof -
  have "totalSize fs = totalSize (take k fs) + totalSize (drop k fs)"
    by (simp add: totalSize_def flip: sum_list_append map_append)
  moreover have "0 \<le> totalSize (take k fs)"
    using assms by (intro totalSize_nonneg) (auto dest: in_set_takeD)
  ultimately show ?thesis by simp
qed

section \<open>What eviction leaves\<close>

text \<open>
  \<open>evict\<close> removes a prefix of the listing, the oldest names, and counts each file; if it ends
  without an error the rest is within both limits.
\<close>

lemma evict_spec:
  assumes "evict io files tot q = (e, q')" "listFiles io q = files" "wfQueue q"
    and "totalSize files \<le> tot" "0 \<le> maxMessages q" "0 \<le> maxBytes q"
  shows "\<exists>k \<le> length files. listFiles io q' = drop k files \<and> wfQueue q' \<and>
      dropped q' = dropped q + of_nat k \<and> maxMessages q' = maxMessages q \<and> maxBytes q' = maxBytes q \<and>
      (e = None \<longrightarrow> int (length (drop k files)) \<le> maxMessages q \<and> totalSize (drop k files) \<le> maxBytes q)"
  using assms
proof (induction files arbitrary: tot q)
  case Nil
  then show ?case by auto
next
  case (Cons f files)
  obtain name bytes where f: "f = (name, bytes)" by (cases f)
  let ?q1 = "countDrop (removeFile name q)"
  show ?case
  proof (cases "int (length files) + 1 > maxMessages q \<or> tot > maxBytes q")
    case False
    with Cons.prems f show ?thesis by (intro exI [of _ 0]) auto
  next
    case over: True
    show ?thesis
    proof (cases "removeErr io name")
      case True
      with Cons.prems f over show ?thesis by (intro exI [of _ 0]) auto
    next
      case False
      let ?tot = "if infoAfterRemove io then tot - bytes else tot"
      have "name \<notin> fst ` set files"
        using distinct_listedNames [OF Cons.prems(3), of io] Cons.prems(2) f by auto
      then have l: "listFiles io ?q1 = files"
        using Cons.prems(2) f by (auto simp: listFiles_remove filter_id_conv image_iff)
      have nonneg: "0 \<le> bytes"
        using listFiles_size_nonneg [of "(name, bytes)" io q] Cons.prems(2) f by simp
      have "evict io files ?tot ?q1 = (e, q')"
        using Cons.prems(1) f over False by simp
      moreover have "totalSize files \<le> ?tot" using Cons.prems(4) nonneg f by auto
      ultimately obtain k where "k \<le> length files" "listFiles io q' = drop k files" "wfQueue q'"
        "dropped q' = dropped ?q1 + of_nat k" "maxMessages q' = maxMessages q" "maxBytes q' = maxBytes q"
        "e = None \<longrightarrow> int (length (drop k files)) \<le> maxMessages q \<and> totalSize (drop k files) \<le> maxBytes q"
        using Cons.IH [of ?tot ?q1] l Cons.prems(3,5,6) by (auto simp: wfQueue_ops)
      then show ?thesis by (intro exI [of _ "Suc k"]) simp
    qed
  qed
qed

section \<open>What coalescing leaves\<close>

definition snapshotOf :: "io \<Rightarrow> Queue \<Rightarrow> string \<Rightarrow> string \<Rightarrow> bool" where
  "snapshotOf io q topic name \<longleftrightarrow>
     (\<exists>r. readRecord io q name = Some r \<and> isSnapshot r \<and> recTopic r = topic)"

lemma latestByTopic_eq:
  "latestByTopic io q names m topic =
     (case filter (snapshotOf io q topic) names of [] \<Rightarrow> m topic | ns \<Rightarrow> Some (last ns))"
  by (induction names arbitrary: m)
    (auto simp: snapshotOf_def split: list.splits option.splits)

text \<open>A snapshot is obsolete when a later listed file is a snapshot of its topic.\<close>

definition obsolete :: "io \<Rightarrow> Queue \<Rightarrow> string \<Rightarrow> bool" where
  "obsolete io q name \<longleftrightarrow>
     (\<exists>topic. snapshotOf io q topic name \<and>
        (\<exists>later \<in> set (listedNames io q). name < later \<and> snapshotOf io q topic later))"

lemma sorted_distinct_last:
  assumes "sorted xs" "distinct xs" "x \<in> set (xs :: 'a :: linorder list)"
  shows "x \<noteq> last xs \<longleftrightarrow> (\<exists>y \<in> set xs. x < y)"
proof -
  have "y \<le> last xs" if "y \<in> set xs" for y
    using assms(1) that by (induction xs) auto
  with assms show ?thesis
    by (metis last_in_set length_greater_0_conv length_pos_if_in_set less_le not_le)
qed

lemma superseded_obsolete:
  assumes "wfQueue q" "name \<in> set (listedNames io q)"
  shows "superseded io q (latestByTopic io q (listedNames io q) Map.empty) name \<longleftrightarrow> obsolete io q name"
proof (cases "\<exists>r. readRecord io q name = Some r \<and> isSnapshot r")
  case False
  then show ?thesis by (auto simp: superseded_def obsolete_def snapshotOf_def split: option.splits)
next
  case True
  then obtain r where r: "readRecord io q name = Some r" "isSnapshot r" by blast
  let ?ns = "filter (snapshotOf io q (recTopic r)) (listedNames io q)"
  have name: "name \<in> set ?ns" using r assms(2) by (auto simp: snapshotOf_def)
  moreover have "sorted ?ns" "distinct ?ns"
    using sorted_listedNames distinct_listedNames [OF assms(1)] by (auto intro: sorted_wrt_filter)
  ultimately have l: "name \<noteq> last ?ns \<longleftrightarrow> (\<exists>y \<in> set ?ns. name < y)"
    by (intro sorted_distinct_last)
  have ne: "?ns \<noteq> []" using name by (metis empty_iff empty_set)
  from ne have "latestByTopic io q (listedNames io q) Map.empty (recTopic r) = Some (last ?ns)"
    by (simp add: latestByTopic_eq split: list.split)
  with r have "superseded io q (latestByTopic io q (listedNames io q) Map.empty) name \<longleftrightarrow> name \<noteq> last ?ns"
    by (auto simp: superseded_def)
  moreover have "obsolete io q name \<longleftrightarrow> (\<exists>y \<in> set ?ns. name < y)"
    using r by (auto simp: obsolete_def snapshotOf_def)
  ultimately show ?thesis using l by simp
qed

lemma coalesce_spec:
  "wfQueue q \<Longrightarrow> distinct names \<Longrightarrow>
   listFiles io (coalesce io old names q) =
     filter (\<lambda>f. \<not> (fst f \<in> set names \<and> old (fst f) \<and> \<not> removeErr io (fst f))) (listFiles io q) \<and>
   wfQueue (coalesce io old names q) \<and>
   maxMessages (coalesce io old names q) = maxMessages q \<and> maxBytes (coalesce io old names q) = maxBytes q \<and>
   dropped (coalesce io old names q) =
     dropped q + of_nat (length (filter (\<lambda>n. old n \<and> \<not> removeErr io n) names))"
proof (induction names arbitrary: q)
  case (Cons n names)
  let ?q1 = "if old n \<and> \<not> removeErr io n then countDrop (removeFile n q) else q"
  have "wfQueue ?q1" using Cons.prems(1) by (simp add: wfQueue_ops)
  from Cons.IH [OF this] Cons.prems(2) show ?case
    by (auto simp: listFiles_remove conj_commute intro!: filter_cong)
qed simp

text \<open>The files that are left when the superseded snapshots are gone.\<close>

definition kept :: "io \<Rightarrow> Queue \<Rightarrow> (string \<times> int) list" where
  "kept io q = filter (\<lambda>f. \<not> (obsolete io q (fst f) \<and> \<not> removeErr io (fst f))) (listFiles io q)"

lemma length_kept:
  assumes "wfQueue q"
  shows "length (filter (\<lambda>n. superseded io q (latestByTopic io q (listedNames io q) Map.empty) n \<and>
      \<not> removeErr io n) (listedNames io q)) + length (kept io q) = length (listFiles io q)"
proof -
  have "filter (\<lambda>n. superseded io q (latestByTopic io q (listedNames io q) Map.empty) n \<and>
      \<not> removeErr io n) (listedNames io q) = filter (\<lambda>n. obsolete io q n \<and> \<not> removeErr io n) (listedNames io q)"
    using superseded_obsolete [OF assms] by (intro filter_cong) auto
  then show ?thesis
    using sum_length_filter_compl [of "\<lambda>f. obsolete io q (fst f) \<and> \<not> removeErr io (fst f)" "listFiles io q"]
    by (simp add: kept_def filter_map comp_def)
qed

lemma prune_spec:
  assumes "pruneLocked io q = (e, q')" "wfQueue q" "0 \<le> maxMessages q" "0 \<le> maxBytes q"
    and "\<not> readDirErr io 0" "\<not> readDirErr io 1"
    and "int (length (listFiles io q)) > maxMessages q \<or> totalSize (listFiles io q) > maxBytes q"
  shows "\<exists>k \<le> length (kept io q). listFiles io q' = drop k (kept io q) \<and> wfQueue q' \<and>
      dropped q' = dropped q + of_nat (length (listFiles io q) - length (listFiles io q')) \<and>
      maxMessages q' = maxMessages q \<and> maxBytes q' = maxBytes q \<and>
      (e = None \<longrightarrow> int (length (listFiles io q')) \<le> maxMessages q \<and> totalSize (listFiles io q') \<le> maxBytes q)"
proof -
  let ?names = "listedNames io q"
  let ?old = "superseded io q (latestByTopic io q ?names Map.empty)"
  let ?q1 = "coalesce io ?old ?names q"
  note c = coalesce_spec [OF assms(2) distinct_listedNames [OF assms(2), of io], where io = io and old = ?old]
  have l1: "listFiles io ?q1 = kept io q"
    using c superseded_obsolete [OF assms(2)] by (auto simp: kept_def intro!: filter_cong)
  have "evict io (kept io q) (totalSize (kept io q)) ?q1 = (e, q')"
    using assms(1,5,6,7) by (auto simp: pruneLocked_def listLocked_def l1 Let_def)
  then obtain k where k: "k \<le> length (kept io q)" "listFiles io q' = drop k (kept io q)" "wfQueue q'"
    "dropped q' = dropped ?q1 + of_nat k" "maxMessages q' = maxMessages q" "maxBytes q' = maxBytes q"
    "e = None \<longrightarrow> int (length (listFiles io q')) \<le> maxMessages q \<and> totalSize (listFiles io q') \<le> maxBytes q"
    using evict_spec [of io "kept io q" "totalSize (kept io q)" ?q1 e q', OF _ l1] c assms(3,4) by auto
  let ?d = "length (filter (\<lambda>n. ?old n \<and> \<not> removeErr io n) ?names)"
  have "?d + length (kept io q) = length (listFiles io q)"
    by (rule length_kept [OF assms(2)])
  then have "?d + k = length (listFiles io q) - length (listFiles io q')"
    using k(1,2) by simp
  moreover have "dropped q' = dropped q + of_nat (?d + k)"
    using k(4) c by (simp add: add.assoc)
  ultimately have "dropped q' = dropped q + of_nat (length (listFiles io q) - length (listFiles io q'))"
    by (simp only:)
  with k show ?thesis by (intro exI [of _ k]) (simp only: simp_thms)
qed

section \<open>No file is lost unseen\<close>

lemma map_of_remove: "map_of (entries (removeFile m q)) n = (if n = m then None else map_of (entries q) n)"
  by (simp add: removeFile_def delete_conv)

lemma map_of_put:
  "map_of (entries (putFile m data q)) n = (if n = m then Some (RegularFile data) else map_of (entries q) n)"
  by (simp add: putFile_def update_conv)

text \<open>Every entry of \<open>q\<close> is in \<open>q'\<close>, or was listed in \<open>q\<close> and is gone, and \<open>q'\<close> has no other.\<close>

definition onlyRemoves :: "string set \<Rightarrow> Queue \<Rightarrow> Queue \<Rightarrow> bool" where
  "onlyRemoves names q q' \<longleftrightarrow>
     (\<forall>n. map_of (entries q') n = map_of (entries q) n \<or> n \<in> names \<and> map_of (entries q') n = None)"

lemma onlyRemoves_refl [simp]: "onlyRemoves names q q"
  by (simp add: onlyRemoves_def)

lemma onlyRemoves_trans: "onlyRemoves A q q' \<Longrightarrow> onlyRemoves B q' q'' \<Longrightarrow> onlyRemoves (A \<union> B) q q''"
  unfolding onlyRemoves_def by (metis Un_iff)

lemma onlyRemoves_mono: "onlyRemoves A q q' \<Longrightarrow> A \<subseteq> B \<Longrightarrow> onlyRemoves B q q'"
  unfolding onlyRemoves_def by blast

lemma onlyRemoves_step: "n \<in> A \<Longrightarrow> onlyRemoves A q (countDrop (removeFile n q))"
  by (simp add: onlyRemoves_def map_of_remove)

lemma onlyRemoves_countDrop [simp]:
  "onlyRemoves A q (countDrop q') = onlyRemoves A q q'" "onlyRemoves A (countDrop q) q' = onlyRemoves A q q'"
  by (simp_all add: onlyRemoves_def)

lemma coalesce_onlyRemoves: "onlyRemoves (set names) q (coalesce io old names q)"
proof (induction names arbitrary: q)
  case (Cons n names)
  let ?q1 = "if old n \<and> \<not> removeErr io n then countDrop (removeFile n q) else q"
  have "onlyRemoves {n} q ?q1" by (simp add: onlyRemoves_def map_of_remove)
  from onlyRemoves_trans [OF this Cons.IH] show ?case by simp
qed simp

lemma evict_onlyRemoves: "onlyRemoves (fst ` set files) q (snd (evict io files tot q))"
proof (induction files arbitrary: tot q)
  case (Cons f files)
  obtain n b where f: "f = (n, b)" by (cases f)
  have "onlyRemoves {n} q (countDrop (removeFile n q))" by (rule onlyRemoves_step) simp
  from onlyRemoves_trans [OF this Cons.IH] show ?case by (simp add: f)
qed simp

lemma prune_onlyRemoves: "wfQueue q \<Longrightarrow> onlyRemoves (set (listedNames io q)) q (snd (pruneLocked io q))"
proof -
  assume wf: "wfQueue q"
  let ?names = "listedNames io q"
  let ?old = "superseded io q (latestByTopic io q ?names Map.empty)"
  let ?q1 = "coalesce io ?old ?names q"
  have c: "onlyRemoves (set ?names) q ?q1" by (rule coalesce_onlyRemoves)
  have "set (listedNames io ?q1) \<subseteq> set ?names"
    using coalesce_spec [OF wf distinct_listedNames [OF wf], where io = io and old = ?old] by auto
  then have "onlyRemoves (set ?names) q (snd (evict io (listFiles io ?q1) tot ?q1))" for tot
    by (intro onlyRemoves_mono [OF onlyRemoves_trans [OF c evict_onlyRemoves]]) auto
  with c show ?thesis by (auto simp: pruneLocked_def listLocked_def Let_def)
qed

text \<open>What an operation counts as dropped is what it removes from the listing.\<close>

definition removedNames :: "io \<Rightarrow> Queue \<Rightarrow> Queue \<Rightarrow> string list" where
  "removedNames io q q' = filter (\<lambda>n. n \<notin> set (listedNames io q')) (listedNames io q)"

lemma removedNames_same [simp]: "removedNames io q q = []"
  by (simp add: removedNames_def)

lemma length_removedNames:
  assumes "wfQueue q" "wfQueue q'" "set (listedNames io q') \<subseteq> set (listedNames io q)"
  shows "length (removedNames io q q') = length (listFiles io q) - length (listFiles io q')"
proof -
  have "length (removedNames io q q') = card (set (listedNames io q) - set (listedNames io q'))"
    unfolding removedNames_def by (metis distinct_card distinct_filter distinct_listedNames [OF assms(1)] set_diff_eq set_filter)
  also have "\<dots> = card (set (listedNames io q)) - card (set (listedNames io q'))"
    using assms(3) by (intro card_Diff_subset) auto
  finally show ?thesis
    using distinct_card [OF distinct_listedNames [OF assms(1)], of io]
      distinct_card [OF distinct_listedNames [OF assms(2)], of io] by simp
qed

lemma prune_counts:
  assumes "pruneLocked io q = (e, q')" "wfQueue q" "0 \<le> maxMessages q" "0 \<le> maxBytes q"
  shows "wfQueue q' \<and> dropped q' = dropped q + of_nat (length (removedNames io q q')) \<and>
    maxMessages q' = maxMessages q \<and> maxBytes q' = maxBytes q"
proof -
  let ?L = "listFiles io q"
  show ?thesis
  proof (cases "readDirErr io 0 \<or> int (length ?L) \<le> maxMessages q \<and> totalSize ?L \<le> maxBytes q")
    case True
    with assms show ?thesis by (auto simp: pruneLocked_def listLocked_def split: if_splits)
  next
    case over: False
    let ?old = "superseded io q (latestByTopic io q (listedNames io q) Map.empty)"
    let ?q1 = "coalesce io ?old (listedNames io q) q"
    note c = coalesce_spec [OF assms(2) distinct_listedNames [OF assms(2), of io], where io = io and old = ?old]
    show ?thesis
    proof (cases "readDirErr io 1")
      case True
      with over assms(1) have q': "q' = ?q1"
        by (auto simp: pruneLocked_def listLocked_def Let_def)
      have "listFiles io ?q1 = kept io q"
        using c superseded_obsolete [OF assms(2)] by (auto simp: kept_def intro!: filter_cong)
      moreover from this have "set (listedNames io ?q1) \<subseteq> set (listedNames io q)"
        by (auto simp: kept_def)
      ultimately have "length (removedNames io q q') = length ?L - length (kept io q)"
        using length_removedNames [OF assms(2)] c q' by simp
      then have l: "length (removedNames io q ?q1) =
          length (filter (\<lambda>n. ?old n \<and> \<not> removeErr io n) (listedNames io q))"
        unfolding q' using length_kept [OF assms(2), of io] by linarith
      show ?thesis unfolding q' l using c by (intro conjI) (elim conjE, assumption)+
    next
      case False
      with prune_spec [OF assms] over obtain k where k: "listFiles io q' = drop k (kept io q)" "wfQueue q'"
        "dropped q' = dropped q + of_nat (length ?L - length (listFiles io q'))"
        "maxMessages q' = maxMessages q" "maxBytes q' = maxBytes q"
        by (auto simp: not_le)
      have "set (listFiles io q') \<subseteq> set (listFiles io q)"
        unfolding k(1) using set_drop_subset [of k "kept io q"] filter_is_subset [of _ "listFiles io q"]
        unfolding kept_def by blast
      then have "set (listedNames io q') \<subseteq> set (listedNames io q)" by auto
      with k length_removedNames [OF assms(2) k(2)] show ?thesis by simp
    qed
  qed
qed

section \<open>Peek\<close>

text \<open>No call fails. What \<open>Info\<close> says of a removed file does not matter here.\<close>

definition calm :: "io \<Rightarrow> bool" where
  "calm io \<longleftrightarrow> (\<forall>n. \<not> readDirErr io n) \<and> (\<forall>name. \<not> infoErr io name \<and> \<not> readErr io name \<and> \<not> removeErr io name)"

text \<open>The readable records of the directory, by name.\<close>

definition parsedRecord :: "Queue \<Rightarrow> string \<Rightarrow> Record option" where
  "parsedRecord q name = (case fileContent q name of None \<Rightarrow> None | Some data \<Rightarrow> unmarshalRecord data)"

definition queued :: "Queue \<Rightarrow> (string \<times> Record) list" where
  "queued q = List.map_filter (\<lambda>n. map_option (Pair n) (parsedRecord q n)) (listedNames unixIO q)"

lemma calm_list: "calm io \<Longrightarrow> listFiles io q = listFiles unixIO q"
  by (auto simp: listFiles_def visibleEntry_def calm_def split: entry.splits
      intro!: arg_cong [where f = "map _"] arg_cong [where f = "sort_key _"] filter_cong)

lemma calm_read: "calm io \<Longrightarrow> readRecord io q name = parsedRecord q name"
  by (simp add: readRecord_def parsedRecord_def calm_def)

lemma fileContent_remove: "m \<noteq> n \<Longrightarrow> fileContent (removeFile n q) m = fileContent q m"
  by (simp add: fileContent_def map_of_remove)

lemma fileContent_countDrop [simp]: "fileContent (countDrop q) = fileContent q"
  by (simp add: fileContent_def fun_eq_iff)

lemma map_filter_cong: "(\<And>x. x \<in> set xs \<Longrightarrow> f x = g x) \<Longrightarrow> List.map_filter f xs = List.map_filter g xs"
  by (induction xs) (auto simp: List.map_filter_simps split: option.splits)

lemma queued_remove_head:
  assumes "wfQueue q" "listedNames unixIO q = n # names"
  shows "listedNames unixIO (removeFile n q) = names"
    and "queued q = (case parsedRecord q n of None \<Rightarrow> [] | Some r \<Rightarrow> [(n, r)]) @ queued (removeFile n q)"
proof -
  have d: "distinct (n # names)" using distinct_listedNames [OF assms(1), of unixIO] assms(2) by simp
  have "listedNames unixIO (removeFile n q) = filter (\<lambda>m. m \<noteq> n) (listedNames unixIO q)"
    by (simp add: listFiles_remove filter_map comp_def)
  with assms(2) d show l: "listedNames unixIO (removeFile n q) = names"
    by (auto simp: filter_id_conv)
  have "parsedRecord (removeFile n q) m = parsedRecord q m" if "m \<in> set names" for m
    using that d fileContent_remove [of m n q] by (cases "m = n") (auto simp: parsedRecord_def)
  then show "queued q = (case parsedRecord q n of None \<Rightarrow> [] | Some r \<Rightarrow> [(n, r)]) @ queued (removeFile n q)"
    unfolding queued_def l assms(2)
    by (auto simp: List.map_filter_simps split: option.splits intro!: map_filter_cong)
qed

lemma queued_countDrop [simp]: "queued (countDrop q) = queued q"
  by (simp add: queued_def parsedRecord_def)

lemma listed_content: "wfQueue q \<Longrightarrow> n \<in> set (listedNames io q) \<Longrightarrow> fileContent q n \<noteq> None"
  unfolding listed_iff fileContent_def by (auto simp only: option.case entry.case)

lemma peek_step:
  assumes "calm io"
  shows "peekUnlockedRetry io k q =
    (case listedNames unixIO q of
       [] \<Rightarrow> Some (Inr None, q)
     | n # _ \<Rightarrow>
         (case parsedRecord q n of
            Some r \<Rightarrow> Some (Inr (Some (n, r)), q)
          | None \<Rightarrow> peekUnlockedRetry io (Suc k) (countDrop (removeFile n q))))"
proof -
  have calm: "\<not> readDirErr io k" "\<And>n. \<not> readErr io n" "\<And>n. \<not> removeErr io n"
    using assms by (auto simp: calm_def)
  show ?thesis
    by (subst peekUnlockedRetry.simps)
      (auto simp: listLocked_def calm calm_list [OF assms] calm_read [OF assms] split: list.splits option.splits)
qed

lemma peek_retry: "peek io q = peekUnlockedRetry io 0 q"
  by (subst peekUnlockedRetry.simps) (simp only: peek_def One_nat_def)

text \<open>\<open>q'\<close> is \<open>q\<close> without the unreadable files in front of the first readable one.\<close>

definition headOf :: "(string \<times> Record) list \<Rightarrow> (string \<times> Record) option" where
  "headOf rs = (case rs of [] \<Rightarrow> None | r # _ \<Rightarrow> Some r)"

definition unreadable :: "Queue \<Rightarrow> string \<Rightarrow> bool" where
  "unreadable q n \<longleftrightarrow> parsedRecord q n = None"

lemma unreadable_remove:
  assumes "distinct (n # names)"
  shows "takeWhile (unreadable (countDrop (removeFile n q))) names = takeWhile (unreadable q) names"
    "dropWhile (unreadable (countDrop (removeFile n q))) names = dropWhile (unreadable q) names"
proof -
  have "unreadable (countDrop (removeFile n q)) m = unreadable q m" if "m \<in> set names" for m
    using that assms fileContent_remove [of m n q]
    by (cases "m = n") (auto simp: unreadable_def parsedRecord_def)
  then show "takeWhile (unreadable (countDrop (removeFile n q))) names = takeWhile (unreadable q) names"
    "dropWhile (unreadable (countDrop (removeFile n q))) names = dropWhile (unreadable q) names"
    by (auto intro: takeWhile_cong dropWhile_cong)
qed

lemma peek_calm:
  assumes "calm io" "wfQueue q"
  shows "\<exists>q'. peekUnlockedRetry io k q = Some (Inr (headOf (queued q)), q') \<and> wfQueue q' \<and>
      queued q' = queued q \<and>
      listedNames unixIO q' = dropWhile (unreadable q) (listedNames unixIO q) \<and>
      onlyRemoves (set (takeWhile (unreadable q) (listedNames unixIO q))) q q' \<and>
      dropped q' = dropped q + of_nat (length (takeWhile (unreadable q) (listedNames unixIO q)))"
  using assms(2)
proof (induction "listedNames unixIO q" arbitrary: q k)
  case Nil
  note names = Nil.hyps [symmetric]
  have "queued q = []" by (simp only: queued_def names List.map_filter_simps)
  with Nil.prems show ?case
    using names by (subst peek_step [OF assms(1)]) (simp add: headOf_def)
next
  case (Cons n names)
  note names = Cons.hyps(2) [symmetric]
  show ?case
  proof (cases "parsedRecord q n")
    case (Some r)
    then have "\<not> unreadable q n" by (simp add: unreadable_def)
    with Some queued_remove_head [OF Cons.prems names] Cons.prems show ?thesis
      by (subst peek_step [OF assms(1)]) (simp add: headOf_def names)
  next
    case None
    let ?q1 = "countDrop (removeFile n q)"
    have l1: "listedNames unixIO ?q1 = names" and q1: "queued ?q1 = queued q" "wfQueue ?q1"
      using queued_remove_head [OF Cons.prems names] None Cons.prems by (simp_all add: wfQueue_ops)
    have d: "distinct (n # names)"
      using distinct_listedNames [OF Cons.prems, of unixIO] names by simp
    have u: "unreadable q n" using None by (simp add: unreadable_def)
    from Cons.hyps(1) [OF l1 [symmetric] q1(2), of "Suc k"] obtain q' where q':
      "peekUnlockedRetry io (Suc k) ?q1 = Some (Inr (headOf (queued q)), q')" "wfQueue q'"
      "queued q' = queued q" "listedNames unixIO q' = dropWhile (unreadable q) names"
      "onlyRemoves (set (takeWhile (unreadable q) names)) ?q1 q'"
      "dropped q' = dropped ?q1 + of_nat (length (takeWhile (unreadable q) names))"
      unfolding l1 q1 unreadable_remove [OF d] by blast
    have "onlyRemoves (set (takeWhile (unreadable q) (n # names))) q q'"
      using onlyRemoves_trans [OF onlyRemoves_step [of n "{n}"] q'(5)] u by simp
    with q' u None show ?thesis
      by (subst peek_step [OF assms(1)]) (simp add: names)
  qed
qed

text \<open>When the first file is no record and cannot be removed, \<open>peek\<close> never returns.\<close>

definition stuck :: "io \<Rightarrow> Queue \<Rightarrow> bool" where
  "stuck io q \<longleftrightarrow>
     (\<exists>n names. listedNames io q = n # names \<and> readRecord io q n = None \<and> \<not> readErr io n \<and> removeErr io n) \<and>
     (\<forall>k. \<not> readDirErr io k)"

lemma stuck_countDrop [simp]: "stuck io (countDrop q) = stuck io q"
  by (simp add: stuck_def readRecord_def)

lemma peek_stuck: "stuck io q \<Longrightarrow> peekUnlockedRetry io k q = None"
proof (rule ccontr)
  assume s: "stuck io q" and "peekUnlockedRetry io k q \<noteq> None"
  then obtain res where ret: "peekUnlockedRetry io k q = Some res" by blast
  have "\<not> stuck io q"
  proof (rule peekUnlockedRetry.raw_induct [where P = "\<lambda>io k q res. \<not> stuck io q", OF _ ret])
    fix f io k q res
    assume ih: "\<And>io k q res. f io k q = Some res \<Longrightarrow> \<not> stuck io q"
      and eq: "(case listLocked io k q of
        Inl e \<Rightarrow> Some (Inl e, q)
      | Inr (files, tot) \<Rightarrow>
          (case files of
             [] \<Rightarrow> Some (Inr None, q)
           | (name, bytes) # _ \<Rightarrow>
               if readErr io name then Some (Inl ReadErr, q)
               else (case readRecord io q name of
                 None \<Rightarrow> f io (Suc k) (countDrop (if removeErr io name then q else removeFile name q))
               | Some r \<Rightarrow> Some (Inr (Some (name, r)), q)))) = Some res"
    show "\<not> stuck io q"
    proof
      assume st: "stuck io q"
      then obtain n names where n: "listedNames io q = n # names" "readRecord io q n = None"
        "\<not> readErr io n" "removeErr io n" and d: "\<not> readDirErr io k"
        by (auto simp: stuck_def)
      then obtain b files where "listFiles io q = (n, b) # files" by auto
      with eq n d have "f io (Suc k) (countDrop q) = Some res" by (simp add: listLocked_def)
      from ih [OF this] st show False by simp
    qed
  qed
  with s show False by simp
qed

section \<open>Draining\<close>

text \<open>
  What \<open>Drain\<close> promises of a queue alone: it publishes the records in the order of their
  names until a publish fails; the record that failed and all behind it stay.
\<close>

fun specDrain ::
    "(nat \<Rightarrow> Record \<Rightarrow> 'e option) \<Rightarrow> nat \<Rightarrow> (string \<times> Record) list \<Rightarrow>
       'e option \<times> Record list \<times> (string \<times> Record) list" where
  "specDrain publish i [] = (None, [], [])"
| "specDrain publish i ((n, r) # rs) =
     (case publish i r of
        Some e \<Rightarrow> (Some e, [], (n, r) # rs)
      | None \<Rightarrow> (case specDrain publish (Suc i) rs of (e, published, rest) \<Rightarrow> (e, r # published, rest)))"

lemma specDrain_split:
  "specDrain publish i rs = (e, published, rest) \<Longrightarrow>
     map snd rs = published @ map snd rest \<and> (e = None \<longleftrightarrow> rest = []) \<and>
     (\<forall>j < length published. publish (i + j) (published ! j) = None) \<and>
     (rest \<noteq> [] \<longrightarrow> publish (i + length published) (snd (hd rest)) = e)"
proof (induction publish i rs arbitrary: e published rest rule: specDrain.induct)
  case (2 publish i n r rs)
  show ?case
  proof (cases "publish i r")
    case (Some e')
    with 2 show ?thesis by auto
  next
    case None
    obtain e' published' rest' where s: "specDrain publish (Suc i) rs = (e', published', rest')"
      by (cases "specDrain publish (Suc i) rs")
    with 2 None have eq: "e = e'" "published = r # published'" "rest = rest'" by simp_all
    from "2.IH" [OF None s] None show ?thesis
      unfolding eq by (auto simp: nth_Cons split: nat.split)
  qed
qed simp

lemma parsedRecord_kept: "onlyRemoves A q q' \<Longrightarrow> n \<notin> A \<Longrightarrow> parsedRecord q' n = parsedRecord q n"
  unfolding onlyRemoves_def parsedRecord_def fileContent_def by metis

lemma dropWhile_distinct_head:
  assumes "distinct xs" "dropWhile p xs = x # ys"
  shows "\<not> p x" "x \<notin> set (takeWhile p xs)" "x \<in> set xs"
proof -
  have xs: "xs = takeWhile p xs @ x # ys" using assms(2) by (metis takeWhile_dropWhile_id)
  show "\<not> p x" using assms(2) by (metis dropWhile_eq_Cons_conv)
  show "x \<notin> set (takeWhile p xs)" using assms(1) xs by (metis disjoint_iff distinct_append list.set_intros(1))
  show "x \<in> set xs" using xs by (metis in_set_conv_decomp)
qed

lemma queued_Nil_iff: "queued q = [] \<longleftrightarrow> dropWhile (unreadable q) (listedNames unixIO q) = []"
proof -
  have "List.map_filter (\<lambda>n. map_option (Pair n) (parsedRecord q n)) ns = [] \<longleftrightarrow>
      dropWhile (unreadable q) ns = []" for ns
    by (induction ns) (auto simp: List.map_filter_simps unreadable_def split: option.splits)
  then show ?thesis by (simp add: queued_def)
qed

text \<open>One turn of \<open>Drain\<close>: the file that \<open>peek\<close> found is the first one of the listing.\<close>

lemma peek_head:
  assumes "calm io" "wfQueue q" "queued q = (n, r) # rs"
  obtains q1 names where "peek io q = Some (Inr (Some (n, r)), q1)" "wfQueue q1" "queued q1 = queued q"
    "listedNames unixIO q1 = n # names" "queued (removeFile n q1) = rs"
proof -
  from peek_calm [OF assms(1,2), of 0] obtain q1 where q1: "peek io q = Some (Inr (headOf (queued q)), q1)"
    "wfQueue q1" "queued q1 = queued q" "listedNames unixIO q1 = dropWhile (unreadable q) (listedNames unixIO q)"
    "onlyRemoves (set (takeWhile (unreadable q) (listedNames unixIO q))) q q1"
    unfolding peek_retry by blast
  have "dropWhile (unreadable q) (listedNames unixIO q) \<noteq> []"
    using queued_Nil_iff assms(3) by (metis list.distinct(1))
  then obtain m names where m: "dropWhile (unreadable q) (listedNames unixIO q) = m # names"
    by (meson list.exhaust)
  note d = dropWhile_distinct_head [OF distinct_listedNames [OF assms(2)] m]
  from d(1) obtain r' where "parsedRecord q m = Some r'" by (auto simp: unreadable_def)
  then have "parsedRecord q1 m = Some r'" using parsedRecord_kept [OF q1(5) d(2)] by simp
  with queued_remove_head(2) [OF q1(2), of m names] q1(3,4) m assms(3)
  have "m = n" "queued (removeFile m q1) = rs" by auto
  moreover from this q1(4) m have "listedNames unixIO q1 = n # names" by simp
  ultimately show thesis using that q1 assms(3) by (simp add: headOf_def)
qed

lemma peek_empty:
  assumes "calm io" "wfQueue q" "queued q = []"
  obtains q1 where "peek io q = Some (Inr None, q1)" "wfQueue q1" "queued q1 = []" "listedNames unixIO q1 = []"
proof -
  from peek_calm [OF assms(1,2), of 0] obtain q1 where "peek io q = Some (Inr (headOf (queued q)), q1)"
    "wfQueue q1" "queued q1 = queued q" "listedNames unixIO q1 = dropWhile (unreadable q) (listedNames unixIO q)"
    unfolding peek_retry by blast
  moreover from assms(3) have "dropWhile (unreadable q) (listedNames unixIO q) = []"
    by (simp only: queued_Nil_iff)
  ultimately show thesis using that assms(3) by (simp only: headOf_def list.case)
qed

lemma drainLoop_spec:
  assumes "\<And>i. calm (ios i)" "wfQueue q" "specDrain publish i (queued q) = (e, published', rest)"
  shows "\<exists>q'. drainLoop ios publish i published q = Some (map_option PublishErr e, published @ published', q') \<and>
    wfQueue q' \<and> queued q' = rest"
  using assms(2,3)
proof (induction "queued q" arbitrary: q i published published')
  case Nil
  then have e: "e = None" "published' = []" "rest = []" by (simp_all flip: Nil.hyps)
  obtain q1 where "peek (ios i) q = Some (Inr None, q1)" "wfQueue q1" "queued q1 = []"
    by (rule peek_empty [OF assms(1) Nil.prems(1) Nil.hyps [symmetric]])
  with e show ?case by (subst drainLoop.simps) simp
next
  case (Cons p rs)
  obtain n r where p: "p = (n, r)" by (cases p)
  note hq = Cons.hyps(2) [symmetric, unfolded p]
  obtain q1 names where q1: "peek (ios i) q = Some (Inr (Some (n, r)), q1)" "wfQueue q1"
    "queued q1 = queued q" "listedNames unixIO q1 = n # names" "queued (removeFile n q1) = rs"
    by (rule peek_head [OF assms(1) Cons.prems(1) hq])
  show ?case
  proof (cases "publish i r")
    case (Some e')
    from Some Cons.prems(2) have "e = Some e'" "published' = []" "rest = queued q"
      by (simp_all add: hq)
    with Some q1(1,2,3) show ?thesis by (subst drainLoop.simps) simp
  next
    case None
    obtain published2 where s: "specDrain publish (Suc i) rs = (e, published2, rest)" "published' = r # published2"
      using Cons.prems(2) None by (auto simp: hq split: prod.splits)
    let ?q2 = "removeFile n q1"
    have "map_of (entries q1) n \<noteq> None"
      using listed_iff [OF q1(2), of n unixIO] q1(4) by auto
    then have rm: "removePublished (ios i) n q1 = (None, ?q2)"
      using assms(1) [of i] by (auto simp: removePublished_def calm_def)
    from Cons.hyps(1) [of ?q2 "Suc i" published2 "published @ [r]"] q1(2,5) s(1)
    obtain q' where "drainLoop ios publish (Suc i) (published @ [r]) ?q2 =
        Some (map_option PublishErr e, (published @ [r]) @ published2, q')" "wfQueue q'" "queued q' = rest"
      by (auto simp: wfQueue_ops)
    with q1 None rm s(2) show ?thesis by (subst drainLoop.simps) simp
  qed
qed

section \<open>Properties of pruning and draining\<close>

text \<open>
  C9: Pruning, as the code has it, in one statement. When the listed files exceed a limit,
  the result is a suffix, in the order of the names, of the files that are left when every
  snapshot with a later snapshot of its topic is gone: the oldest go first, the newest
  snapshot of a topic and every event outlive the superseded ones. The drop counter grows by
  exactly the number of files removed, and when no call failed both limits hold.
\<close>
theorem prune_keeps_newest:
  assumes "pruneLocked io q = (e, q')" "wfQueue q" "0 \<le> maxMessages q" "0 \<le> maxBytes q"
    and "\<And>k. \<not> readDirErr io k"
    and "int (length (listFiles io q)) > maxMessages q \<or> totalSize (listFiles io q) > maxBytes q"
  shows "\<exists>k \<le> length (kept io q). listFiles io q' = drop k (kept io q) \<and>
      dropped q' = dropped q + of_nat (length (listFiles io q) - length (listFiles io q')) \<and>
      (e = None \<longrightarrow> int (length (listFiles io q')) \<le> maxMessages q \<and> totalSize (listFiles io q') \<le> maxBytes q)"
  using prune_spec [OF assms(1-4) assms(5) assms(5) assms(6)] by blast

definition twoEvents :: Queue where
  "twoEvents =
     (let data = marshalRecord exampleRecord
      in \<lparr>maxMessages = 100, maxBytes = int (length data),
          entries = [(''1.json'', RegularFile data), (''2.json'', RegularFile data)], dropped = 0\<rparr>)"

lemma twoEvents_wf: "wfQueue twoEvents"
  by (simp add: wfQueue_def twoEvents_def Let_def)

lemma twoEvents_list:
  "listFiles unixIO twoEvents =
     [(''1.json'', int (length (marshalRecord exampleRecord))),
      (''2.json'', int (length (marshalRecord exampleRecord)))]"
  by (simp add: listFiles_def twoEvents_def Let_def visibleEntry_def isRecordName_def HasSuffix_def
      HasPrefix_def entrySize_def less_eq_list_code less_char_def)

lemma twoEvents_read: "n \<in> set (listedNames unixIO twoEvents) \<Longrightarrow> readRecord unixIO twoEvents n = Some exampleRecord"
proof -
  assume "n \<in> set (listedNames unixIO twoEvents)"
  then have "n = ''1.json'' \<or> n = ''2.json''" by (auto simp: twoEvents_list)
  then have "fileContent twoEvents n = Some (marshalRecord exampleRecord)"
    by (auto simp: fileContent_def twoEvents_def Let_def)
  then show ?thesis
    using rc.read_back [OF exampleRecord_valid] by (simp add: readRecord_def)
qed

lemma twoEvents_kept: "kept unixIO twoEvents = listFiles unixIO twoEvents"
proof -
  have "\<not> isSnapshot exampleRecord"
    by (simp add: isSnapshot_def exampleRecord_def)
  then have "\<not> obsolete unixIO twoEvents n" if "n \<in> set (listedNames unixIO twoEvents)" for n
    using twoEvents_read [OF that] by (auto simp: obsolete_def snapshotOf_def)
  then show ?thesis by (auto simp: kept_def filter_id_conv)
qed

lemma marshalRecord_nonempty: "0 < length (marshalRecord r)"
  by (simp add: marshalRecord_def recordJson_def)

lemma twoEvents_over: "totalSize (listFiles unixIO twoEvents) > maxBytes twoEvents"
  using marshalRecord_nonempty [of exampleRecord] by (simp add: twoEvents_list) (simp add: twoEvents_def Let_def)

lemma evict_all:
  assumes "\<not> infoAfterRemove io" "\<And>n. \<not> removeErr io n"
  shows "maxBytes q < tot \<Longrightarrow> fst (evict io files tot q) = None \<and>
    dropped (snd (evict io files tot q)) = dropped q + of_nat (length files) \<and>
    (listFiles io q = files \<longrightarrow> wfQueue q \<longrightarrow> listFiles io (snd (evict io files tot q)) = [])"
proof (induction files arbitrary: q)
  case (Cons f files)
  obtain n b where f: "f = (n, b)" by (cases f)
  let ?q1 = "countDrop (removeFile n q)"
  have "listFiles io ?q1 = files" if "listFiles io q = f # files" "wfQueue q"
  proof -
    have "n \<notin> fst ` set files" using distinct_listedNames [OF that(2), of io] that(1) f by auto
    then show ?thesis using that(1) f by (auto simp: listFiles_remove filter_id_conv image_iff)
  qed
  with Cons.IH [of ?q1] Cons.prems assms f show ?case by (auto simp: wfQueue_ops)
qed simp

lemma kept_size: "totalSize (kept io q) \<le> totalSize (listFiles io q)"
proof -
  have "totalSize (filter p fs) \<le> totalSize fs" if "\<And>f. f \<in> set fs \<Longrightarrow> 0 \<le> snd f" for p fs
    using that by (induction fs) (auto intro: add_increasing)
  then show ?thesis using listFiles_size_nonneg by (auto simp: kept_def)
qed

theorem prune_keeps_newest_witness:
  "\<exists>k \<le> length (kept unixIO twoEvents).
     listFiles unixIO (snd (pruneLocked unixIO twoEvents)) = drop k (kept unixIO twoEvents) \<and>
     dropped (snd (pruneLocked unixIO twoEvents)) =
       dropped twoEvents + of_nat (length (listFiles unixIO twoEvents) -
         length (listFiles unixIO (snd (pruneLocked unixIO twoEvents)))) \<and>
     (fst (pruneLocked unixIO twoEvents) = None \<longrightarrow>
        int (length (listFiles unixIO (snd (pruneLocked unixIO twoEvents)))) \<le> maxMessages twoEvents \<and>
        totalSize (listFiles unixIO (snd (pruneLocked unixIO twoEvents))) \<le> maxBytes twoEvents)"
  by (rule prune_keeps_newest [OF surjective_pairing twoEvents_wf])
    (use twoEvents_over in \<open>simp_all\<close>, simp_all add: twoEvents_def Let_def)

text \<open>
  What the byte limit really does on Unix. \<open>file.Info()\<close> after \<open>os.Remove\<close> fails there, so
  the running total never falls: as soon as the files left after coalescing exceed the byte
  limit, pruning deletes all of them, the newest included, however few bytes too many there
  are, and counts each as dropped.
\<close>
theorem prune_over_bytes_empties:
  assumes "wfQueue q" "\<not> infoAfterRemove io" "\<And>n. \<not> removeErr io n" "\<And>k. \<not> readDirErr io k"
    and "maxBytes q < totalSize (kept io q)"
  shows "\<exists>q'. pruneLocked io q = (None, q') \<and> listFiles io q' = [] \<and>
    dropped q' = dropped q + of_nat (length (listFiles io q))"
proof -
  let ?old = "superseded io q (latestByTopic io q (listedNames io q) Map.empty)"
  let ?q1 = "coalesce io ?old (listedNames io q) q"
  note c = coalesce_spec [OF assms(1) distinct_listedNames [OF assms(1), of io], where io = io and old = ?old]
  have l1: "listFiles io ?q1 = kept io q"
    using c superseded_obsolete [OF assms(1)] by (auto simp: kept_def intro!: filter_cong)
  from c have b: "maxBytes ?q1 = maxBytes q" and w: "wfQueue ?q1"
    and d: "dropped ?q1 = dropped q +
      of_nat (length (filter (\<lambda>n. ?old n \<and> \<not> removeErr io n) (listedNames io q)))"
    by blast+
  have over: "maxBytes q < totalSize (listFiles io q)"
    using assms(5) kept_size [of io q] by simp
  then have eq: "pruneLocked io q = evict io (kept io q) (totalSize (kept io q)) ?q1"
    using assms(4) by (simp add: pruneLocked_def listLocked_def l1 Let_def)
  from evict_all [OF assms(2,3), of ?q1 "totalSize (kept io q)" "kept io q"] assms(5) b w l1
  have e: "fst (pruneLocked io q) = None" "listFiles io (snd (pruneLocked io q)) = []"
    "dropped (snd (pruneLocked io q)) = dropped ?q1 + of_nat (length (kept io q))"
    unfolding eq by simp_all
  have "dropped (snd (pruneLocked io q)) = dropped q + of_nat (length (listFiles io q))"
    unfolding e(3) d length_kept [OF assms(1), of io, symmetric] by (simp only: of_nat_add add.assoc)
  with e(1,2) show ?thesis by (metis prod.collapse)
qed

theorem prune_over_bytes_empties_witness:
  "\<exists>q'. pruneLocked unixIO twoEvents = (None, q') \<and> listFiles unixIO q' = [] \<and>
     dropped q' = dropped twoEvents + of_nat (length (listFiles unixIO twoEvents))"
  by (rule prune_over_bytes_empties [OF twoEvents_wf])
    (use twoEvents_over in \<open>simp_all add: twoEvents_kept\<close>)


lemma calm_unixIO: "calm unixIO"
  by (simp add: calm_def)

lemma parsed_twoEvents: "queued twoEvents = [(''1.json'', exampleRecord), (''2.json'', exampleRecord)]"
  using twoEvents_read unfolding queued_def calm_read [OF calm_unixIO, symmetric]
  by (simp add: twoEvents_list List.map_filter_simps)


text \<open>
  C17: \<open>peek\<close> does not always return. When the first listed file can be read but holds no record
  and cannot be removed, as in a directory the process may not write, \<open>peekUnlockedRetry\<close>
  calls itself on the same directory without end; \<open>Drain\<close> and with it the publisher hang, or
  exhaust the stack.
\<close>
theorem peek_never_returns:
  assumes "listedNames io q = n # names" "readRecord io q n = None" "\<not> readErr io n" "removeErr io n"
    and "\<And>k. \<not> readDirErr io k"
  shows "peek io q = None"
proof -
  have s: "stuck io q" using assms by (auto simp: stuck_def)
  from assms(1) obtain b files where "listFiles io q = (n, b) # files" by auto
  with assms peek_stuck [of io "countDrop q" 1] s show ?thesis by (simp add: peek_def listLocked_def)
qed

definition corruptQueue :: Queue where
  "corruptQueue =
     \<lparr>maxMessages = 100, maxBytes = 4096, entries = [(''1.json'', RegularFile [])], dropped = 0\<rparr>"

definition readOnlyIO :: io where
  "readOnlyIO = unixIO\<lparr>removeErr := (\<lambda>_. True)\<rparr>"

theorem peek_never_returns_witness: "peek readOnlyIO corruptQueue = None"
proof (rule peek_never_returns)
  show "listedNames readOnlyIO corruptQueue = [''1.json'']"
    by (simp add: listFiles_def corruptQueue_def visibleEntry_def isRecordName_def HasSuffix_def
      HasPrefix_def readOnlyIO_def)
  show "readRecord readOnlyIO corruptQueue ''1.json'' = None"
    by (simp add: readRecord_def fileContent_def corruptQueue_def unmarshalRecord_def parseJson_def
      scan_unfold(1) skipSpace_def numeral_2_eq_2)
qed (simp_all add: readOnlyIO_def)

section \<open>Enqueue\<close>

text \<open>The records as the loop writes them, with their identifiers and classes.\<close>

fun completeAll :: "(nat \<Rightarrow> nat \<times> bytes) \<Rightarrow> nat \<Rightarrow> Record list \<Rightarrow> Record list" where
  "completeAll sources i [] = []"
| "completeAll sources i (r # rs) = completeRecord (sources i) r # completeAll sources (Suc i) rs"

definition recordFile :: "Record \<Rightarrow> string \<times> entry" where
  "recordFile r = (recordName r, RegularFile (marshalRecord r))"

lemma tempName_hidden: "\<not> isRecordName (tempName r)"
  by (simp add: isRecordName_def tempName_def HasPrefix_def)

lemma writeRecord_cases:
  assumes "writeRecord io r q = (e, q')" "isRecordName n"
  shows "map_of (entries q') n =
    (if e = None \<and> n = recordName r then Some (RegularFile (marshalRecord r)) else map_of (entries q) n)"
  using assms tempName_hidden [of r]
  by (auto simp: writeRecord_def Let_def map_of_put map_of_remove split: write_outcome.splits if_splits)

lemma length_completeAll [simp]: "length (completeAll sources i rs) = length rs"
  by (induction sources i rs rule: completeAll.induct) simp_all

lemma writeRecords_spec:
  assumes "writeRecords io sources i rs q = (e, q')"
  shows "\<exists>k \<le> length rs. (e = None \<longleftrightarrow> k = length rs) \<and>
    (\<forall>n. isRecordName n \<longrightarrow>
       map_of (entries q') n =
       map_of (rev (map recordFile (take k (completeAll sources i rs))) @ entries q) n)"
  using assms
proof (induction rs arbitrary: i q)
  case (Cons r rs)
  let ?r = "completeRecord (sources i) r"
  obtain e1 q1 where w: "writeRecord io ?r q = (e1, q1)" by (cases "writeRecord io ?r q")
  note c = writeRecord_cases [OF w]
  show ?case
  proof (cases e1)
    case (Some err)
    with Cons.prems w c show ?thesis by (intro exI [of _ 0]) auto
  next
    case None
    with Cons.prems w have "writeRecords io sources (Suc i) rs q1 = (e, q')" by simp
    from Cons.IH [OF this] obtain k where k: "k \<le> length rs" "e = None \<longleftrightarrow> k = length rs"
      "\<forall>n. isRecordName n \<longrightarrow> map_of (entries q') n =
         map_of (rev (map recordFile (take k (completeAll sources (Suc i) rs))) @ entries q1) n" by blast
    have "map_of (entries q') n =
        map_of (rev (map recordFile (take (Suc k) (completeAll sources i (r # rs)))) @ entries q) n"
      if n: "isRecordName n" for n
      using k(3) n c [OF n] None by (simp add: map_add_def recordFile_def split: option.split)
    with k(1,2) show ?thesis by (intro exI [of _ "Suc k"]) auto
  qed
qed simp


definition tornIO :: io where
  "tornIO = unixIO\<lparr>writeOutcome := (\<lambda>_. WrotePart 3)\<rparr>"


end
