(* ===== verification/SpoolLog.thy ===== *)
theory SpoolLog
  imports Spool
begin

text \<open>
  The spool under its two users at once. \<open>Enqueue\<close> runs in the collection jobs, \<open>Drain\<close> in the
  drain loop; the queue's mutex makes every access of the directory one step, and \<open>Drain\<close>
  gives the mutex up while it publishes. The steps of \<open>spoolStep\<close> are those accesses, in any
  order, with any failing system calls, and a restart of the process at any point.

  Ghost fields record what the property is about: the records whose file was committed, those
  whose publish was acknowledged, and the names that pruning removed and counted.
\<close>

section \<open>Identifiers in time order\<close>

text \<open>Decimal numbers of a fixed width.\<close>

fun fixedDigits :: "nat \<Rightarrow> nat \<Rightarrow> string" where
  "fixedDigits 0 n = []"
| "fixedDigits (Suc k) n = fixedDigits k (n div 10) @ [digitChar (n mod 10)]"

lemma length_fixedDigits [simp]: "length (fixedDigits k n) = k"
  by (induction k n rule: fixedDigits.induct) simp_all

lemma fixedDigits_zero: "fixedDigits k 0 = replicate k CHR ''0''"
proof -
  have "digitChar 0 = CHR ''0''" by (simp add: digitChar_def char_of_def bit_0)
  then show ?thesis by (induction k) (simp_all add: replicate_append_same)
qed

lemma fixedDigits_pad:
  "n < 10 ^ k \<Longrightarrow> 0 < k \<Longrightarrow>
   length (natString n) \<le> k \<and> fixedDigits k n = replicate (k - length (natString n)) CHR ''0'' @ natString n"
proof (induction k arbitrary: n)
  case (Suc k)
  show ?case
  proof (cases "n < 10")
    case True
    then have "natString n = [digitChar n]" by (simp add: natString.simps [of n])
    with True show ?thesis by (simp add: fixedDigits_zero)
  next
    case False
    with Suc.prems have "n div 10 < 10 ^ k" "0 < k"
      by (simp_all add: less_mult_imp_div_less mult.commute, cases k, auto)
    from Suc.IH [OF this] have ih: "length (natString (n div 10)) \<le> k"
      "fixedDigits k (n div 10) = replicate (k - length (natString (n div 10))) CHR ''0'' @ natString (n div 10)"
      by simp_all
    from False have "natString n = natString (n div 10) @ [digitChar (n mod 10)]"
      by (simp add: natString.simps [of n])
    with ih show ?thesis by simp
  qed
qed simp

lemma padDecimal_fixed: "n < 10 ^ 20 \<Longrightarrow> padDecimal n = fixedDigits 20 n"
  using fixedDigits_pad [of n 20] by (simp add: padDecimal_def Let_def)

lemma append_less_iff: "length xs = length ys \<Longrightarrow> xs < ys \<Longrightarrow> xs @ us < ys @ (vs :: 'a :: linorder list)"
  by (induction xs ys rule: list_induct2) auto

lemma append_less_same: "us < vs \<Longrightarrow> xs @ us < xs @ (vs :: 'a :: linorder list)"
  by (induction xs) auto

lemma digitChar_less: "a < b \<Longrightarrow> b < 10 \<Longrightarrow> digitChar a < digitChar b"
  by (simp add: digitChar_def less_char_def)

lemma fixedDigits_less: "n < m \<Longrightarrow> m < 10 ^ k \<Longrightarrow> fixedDigits k n < fixedDigits k m"
proof (induction k arbitrary: n m)
  case (Suc k)
  have m: "m div 10 < 10 ^ k" using Suc.prems(2) by (simp add: less_mult_imp_div_less mult.commute)
  show ?case
  proof (cases "n div 10 < m div 10")
    case True
    with Suc.IH [OF True m] show ?thesis by (simp add: append_less_iff)
  next
    case False
    with Suc.prems(1) have "n div 10 = m div 10" by (meson div_le_mono less_imp_le_nat linorder_neqE_nat not_le)
    moreover from this Suc.prems(1) have "n mod 10 < m mod 10"
      by (metis div_mult_mod_eq nat_add_left_cancel_less)
    ultimately show ?thesis by (simp add: append_less_same digitChar_less)
  qed
qed simp

text \<open>
  Identifiers sort by time. A record enqueued at a later nanosecond has a larger identifier,
  whatever the random bytes, so the listing, which is sorted by name, is in the order of
  enqueueing; and every identifier names a file that is listed.
\<close>
theorem newID_order:
  assumes "t < t'" "t' < 10 ^ 20"
  shows "newID (t, random) @ ''.json'' < newID (t', random') @ ''.json'' \<and>
    isRecordName (newID (t, random) @ ''.json'')"
proof
  have "padDecimal t < padDecimal t'"
    using assms by (simp add: padDecimal_fixed fixedDigits_less)
  moreover have "length (padDecimal t) = length (padDecimal t')"
    using assms by (simp add: padDecimal_fixed)
  ultimately show "newID (t, random) @ ''.json'' < newID (t', random') @ ''.json''"
    by (simp add: newID_def append_less_iff)
next
  have d: "list_all digit (fixedDigits k n)" for k n
    by (induction k n rule: fixedDigits.induct) (simp_all add: digitChar)
  obtain c cs where c: "padDecimal t = c # cs"
    using assms padDecimal_fixed [of t] by (cases "padDecimal t") (auto dest: arg_cong [where f = length])
  with d [of 20 t] assms have "digit c" by (simp add: padDecimal_fixed)
  then have "c \<noteq> CHR ''.''" by (auto simp: digit_def)
  with c show "isRecordName (newID (t, random) @ ''.json'')"
    by (simp add: isRecordName_def HasPrefix_def HasSuffix_def newID_def)
qed

theorem newID_order_witness:
  "newID (1750000000000000000, [9]) @ ''.json'' < newID (1750000000000000001, [3]) @ ''.json'' \<and>
   isRecordName (newID (1750000000000000000, [9]) @ ''.json'')"
  by (rule newID_order) simp_all

section \<open>Steps\<close>

datatype drainPhase = DrainIdle | Publishing string Record | Acknowledged string Record

record Spooler =
  spQueue :: Queue
  spPhase :: drainPhase
  accepted :: "(string \<times> Record) list"
  acked :: "(string \<times> Record) list"
  pruned :: "string list"

text \<open>
  What the program does with identifiers: those of one call of \<open>Enqueue\<close> are distinct, new to
  the directory and to everything this run has seen, and name listable files. They come from a
  nanosecond clock and 48 random bits.
\<close>

definition freshRecords :: "Spooler \<Rightarrow> Record list \<Rightarrow> bool" where
  "freshRecords s rs \<longleftrightarrow>
     distinct (map recordName rs) \<and> list_all validRecord rs \<and>
     list_all (\<lambda>r. isRecordName (recordName r) \<and> recordName r \<notin> fst ` set (accepted s) \<and>
       map_of (entries (spQueue s)) (recordName r) = None \<and>
       (case spPhase s of DrainIdle \<Rightarrow> True
        | Publishing n _ \<Rightarrow> recordName r \<noteq> n | Acknowledged n _ \<Rightarrow> recordName r \<noteq> n)) rs"

definition named :: "Record list \<Rightarrow> (string \<times> Record) list" where
  "named rs = map (\<lambda>r. (recordName r, r)) rs"

text \<open>
  The records \<open>writeRecords\<close> committed: those whose file is there when the loop has ended.
\<close>

definition committed :: "Queue \<Rightarrow> Record list \<Rightarrow> (string \<times> Record) list" where
  "committed q rs = filter (\<lambda>(n, r). map_of (entries q) n = Some (RegularFile (marshalRecord r))) (named rs)"

inductive spoolStep :: "Spooler \<Rightarrow> Spooler \<Rightarrow> bool" where
  enqueue:
    "freshRecords s (completeAll sources 0 rs) \<Longrightarrow> writeRecords io sources 0 rs (spQueue s) = (e, q1) \<Longrightarrow>
     q2 = (if e = None then snd (pruneLocked io q1) else q1) \<Longrightarrow>
     spoolStep s (s\<lparr>spQueue := q2, accepted := accepted s @ committed q1 (completeAll sources 0 rs),
       pruned := pruned s @ removedNames io q1 q2\<rparr>)"
| peek:
    "spPhase s = DrainIdle \<Longrightarrow> peek io (spQueue s) = Some (Inr (Some (n, r)), q1) \<Longrightarrow>
     spoolStep s (s\<lparr>spQueue := q1, spPhase := Publishing n r\<rparr>)"
| peekNone:
    "spPhase s = DrainIdle \<Longrightarrow> peek io (spQueue s) = Some (res, q1) \<Longrightarrow> res = Inr None \<or> isl res \<Longrightarrow>
     spoolStep s (s\<lparr>spQueue := q1\<rparr>)"
| publishOK:
    "spPhase s = Publishing n r \<Longrightarrow>
     spoolStep s (s\<lparr>spPhase := Acknowledged n r, acked := acked s @ [(n, r)]\<rparr>)"
| publishFailed:
    "spPhase s = Publishing n r \<Longrightarrow> spoolStep s (s\<lparr>spPhase := DrainIdle\<rparr>)"
| remove:
    "spPhase s = Acknowledged n r \<Longrightarrow> removePublished io n (spQueue s) = (e, q1) \<Longrightarrow>
     spoolStep s (s\<lparr>spQueue := q1, spPhase := DrainIdle\<rparr>)"
| restart:
    "spoolStep s (s\<lparr>spQueue := (spQueue s)\<lparr>dropped := 0\<rparr>, spPhase := DrainIdle\<rparr>)"

inductive spoolReach :: "Spooler \<Rightarrow> Spooler \<Rightarrow> bool" where
  reach_start: "spoolReach s s"
| reach_step: "spoolReach s t \<Longrightarrow> spoolStep t u \<Longrightarrow> spoolReach s u"

definition newSpooler :: "Queue \<Rightarrow> Spooler" where
  "newSpooler q = \<lparr>spQueue = q, spPhase = DrainIdle, accepted = [], acked = [], pruned = []\<rparr>"

section \<open>The invariant\<close>

definition present :: "Queue \<Rightarrow> string \<Rightarrow> Record \<Rightarrow> bool" where
  "present q n r \<longleftrightarrow> map_of (entries q) n = Some (RegularFile (marshalRecord r))"

definition accounted :: "Spooler \<Rightarrow> bool" where
  "accounted s \<longleftrightarrow>
     (\<forall>(n, r) \<in> set (accepted s).
        validRecord r \<and> isRecordName n \<and>
        (present (spQueue s) n r \<or> (n, r) \<in> set (acked s) \<or> n \<in> set (pruned s)) \<and>
        (map_of (entries (spQueue s)) n = None \<or> present (spQueue s) n r))"

definition wfSpooler :: "Spooler \<Rightarrow> bool" where
  "wfSpooler s \<longleftrightarrow> wfQueue (spQueue s) \<and> 0 \<le> maxMessages (spQueue s) \<and> 0 \<le> maxBytes (spQueue s)"

definition phaseAgrees :: "Spooler \<Rightarrow> bool" where
  "phaseAgrees s \<longleftrightarrow>
     (case spPhase s of
        DrainIdle \<Rightarrow> True
      | Publishing n r \<Rightarrow> \<forall>r'. (n, r') \<in> set (accepted s) \<longrightarrow> r' = r
      | Acknowledged n r \<Rightarrow> (\<forall>r'. (n, r') \<in> set (accepted s) \<longrightarrow> r' = r) \<and> (n, r) \<in> set (acked s))"

section \<open>Each step keeps the invariant\<close>

lemma unreadable_onlyRemoves_trans:
  assumes "onlyRemoves {n. parsedRecord q n = None} q q1" "onlyRemoves {n. parsedRecord q1 n = None} q1 q2"
  shows "onlyRemoves {n. parsedRecord q n = None} q q2"
proof -
  have "parsedRecord q n = None" if "parsedRecord q1 n = None" "map_of (entries q1) n \<noteq> None" for n
    using assms(1) that unfolding onlyRemoves_def parsedRecord_def fileContent_def by metis
  then show ?thesis
    using assms unfolding onlyRemoves_def by (metis (mono_tags, lifting) mem_Collect_eq)
qed

definition peekResult :: "Queue \<Rightarrow> peeked \<Rightarrow> Queue \<Rightarrow> bool" where
  "peekResult q res q' \<longleftrightarrow>
     wfQueue q' \<and> onlyRemoves {n. parsedRecord q n = None} q q' \<and>
     maxMessages q' = maxMessages q \<and> maxBytes q' = maxBytes q \<and>
     (\<forall>n r. res = Inr (Some (n, r)) \<longrightarrow> isRecordName n \<and> parsedRecord q' n = Some r)"

lemma peekResult_trans: "peekResult q res q1 \<Longrightarrow> peekResult q1 res' q2 \<Longrightarrow> peekResult q res' q2"
  using unreadable_onlyRemoves_trans unfolding peekResult_def by auto

lemma readRecord_parsed: "\<not> readErr io n \<Longrightarrow> readRecord io q n = parsedRecord q n"
  by (simp add: readRecord_def parsedRecord_def)

lemma peekResult_drop:
  "wfQueue q \<Longrightarrow> parsedRecord q n = None \<Longrightarrow>
   peekResult q (Inr None) (countDrop (if removeErr io n then q else removeFile n q))"
  by (simp add: peekResult_def wfQueue_ops onlyRemoves_def map_of_remove)

lemma peekRetry_result:
  assumes ret: "peekUnlockedRetry io k q = Some (res, q')" and "wfQueue q"
  shows "peekResult q res q'"
proof -
  have "wfQueue q \<longrightarrow> peekResult q (fst (res, q')) (snd (res, q'))"
  proof (rule peekUnlockedRetry.raw_induct
      [where P = "\<lambda>io k q out. wfQueue q \<longrightarrow> peekResult q (fst out) (snd out)", OF _ ret], intro impI)
    fix f io k q out
    assume ih: "\<And>io k q out. f io k q = Some out \<Longrightarrow> wfQueue q \<longrightarrow> peekResult q (fst out) (snd out)"
      and eq: "(case listLocked io k q of
        Inl e \<Rightarrow> Some (Inl e, q)
      | Inr (files, tot) \<Rightarrow>
          (case files of
             [] \<Rightarrow> Some (Inr None, q)
           | (name, bytes) # _ \<Rightarrow>
               if readErr io name then Some (Inl ReadErr, q)
               else (case readRecord io q name of
                 None \<Rightarrow> f io (Suc k) (countDrop (if removeErr io name then q else removeFile name q))
               | Some r \<Rightarrow> Some (Inr (Some (name, r)), q)))) = Some out"
      and wf: "wfQueue q"
    have same: "peekResult q r q" if "\<forall>n s. r = Inr (Some (n, s)) \<longrightarrow> isRecordName n \<and> parsedRecord q n = Some s" for r
      using that wf by (simp add: peekResult_def)
    show "peekResult q (fst out) (snd out)"
    proof (cases "readDirErr io k \<or> listFiles io q = []")
      case True
      then have "out = (Inl ReadDirErr, q) \<or> out = (Inr None, q)"
        using eq by (cases "readDirErr io k") (simp_all add: listLocked_def)
      then show ?thesis using same by auto
    next
      case False
      then obtain n b files where l: "listFiles io q = (n, b) # files"
        by (cases "listFiles io q") auto
      have name: "isRecordName n"
        using listed_iff [OF wf, of n io] l by simp
      show ?thesis
      proof (cases "readErr io n \<or> readRecord io q n \<noteq> None")
        case True
        with eq l False show ?thesis
          by (auto simp: listLocked_def readRecord_parsed name intro!: same split: if_splits)
      next
        case bad: False
        let ?q1 = "countDrop (if removeErr io n then q else removeFile n q)"
        have p: "peekResult q (Inr None) ?q1"
          using bad readRecord_parsed [of io n q] by (intro peekResult_drop [OF wf]) simp
        have "f io (Suc k) ?q1 = Some out" using eq l False bad by (simp add: listLocked_def)
        from ih [OF this] p have "peekResult ?q1 (fst out) (snd out)" by (simp add: peekResult_def)
        with p show ?thesis by (rule peekResult_trans)
      qed
    qed
  qed
  with assms(2) show ?thesis by simp
qed

lemma peek_as_retry: "peek io q = peekUnlockedRetry io 0 q"
  by (subst peekUnlockedRetry.simps) (simp only: peek_def One_nat_def)

lemma peek_result: "peek io q = Some (res, q') \<Longrightarrow> wfQueue q \<Longrightarrow> peekResult q res q'"
  unfolding peek_as_retry by (rule peekRetry_result)

lemma present_parsed: "present q n r \<Longrightarrow> validRecord r \<Longrightarrow> parsedRecord q n = Some r"
  by (simp add: present_def parsedRecord_def fileContent_def rc.read_back)

lemma present_kept:
  assumes "onlyRemoves {n. parsedRecord q n = None} q q'" "present q n r" "validRecord r"
  shows "present q' n r"
proof -
  have "map_of (entries q') n = map_of (entries q) n"
    using assms(1) [unfolded onlyRemoves_def, THEN spec, of n] present_parsed [OF assms(2,3)] by simp
  with assms(2) show ?thesis by (simp add: present_def)
qed

text \<open>Committing fresh records leaves what is there and adds them whole.\<close>

lemma writeRecords_wf:
  assumes "writeRecords io sources i rs q = (e, q')" "wfQueue q"
  shows "wfQueue q' \<and> maxMessages q' = maxMessages q \<and> maxBytes q' = maxBytes q"
  using assms
proof (induction rs arbitrary: i q)
  case (Cons r rs)
  obtain e1 q1 where w: "writeRecord io (completeRecord (sources i) r) q = (e1, q1)"
    by (cases "writeRecord io (completeRecord (sources i) r) q")
  then have "wfQueue q1 \<and> maxMessages q1 = maxMessages q \<and> maxBytes q1 = maxBytes q"
    using Cons.prems(2)
    by (auto simp: writeRecord_def Let_def wfQueue_ops split: write_outcome.splits if_splits)
  with Cons w show ?case by (cases e1) auto
qed simp

lemma writeRecords_new:
  assumes "writeRecords io sources 0 rs q = (e, q')" "isRecordName n"
  shows "map_of (entries q') n = map_of (entries q) n \<or>
    (\<exists>r \<in> set (completeAll sources 0 rs). n = recordName r \<and> present q' n r)"
proof -
  from writeRecords_spec [OF assms(1)] assms(2) obtain k where
    "map_of (entries q') n = map_of (rev (map recordFile (take k (completeAll sources 0 rs))) @ entries q) n"
    by blast
  moreover have "\<exists>r \<in> set (completeAll sources 0 rs). n = recordName r \<and> x = RegularFile (marshalRecord r)"
    if "map_of (rev (map recordFile (take k (completeAll sources 0 rs)))) n = Some x" for x
    using map_of_SomeD [OF that] by (auto simp: recordFile_def dest: in_set_takeD)
  ultimately show ?thesis
    by (auto simp: present_def map_add_def split: option.splits)
qed

lemma fresh_names:
  assumes "freshRecords s rs" "r \<in> set rs" "r' \<in> set rs" "recordName r = recordName r'"
  shows "r = r'"
proof -
  have "inj_on recordName (set rs)" using assms(1) by (simp add: freshRecords_def distinct_map)
  then show ?thesis using assms(2-4) by (meson inj_onD)
qed

lemma prune_or_same:
  assumes "q2 = (if b then snd (pruneLocked io q1) else q1)" "wfQueue q1" "0 \<le> maxMessages q1" "0 \<le> maxBytes q1"
  shows "wfQueue q2 \<and> maxMessages q2 = maxMessages q1 \<and> maxBytes q2 = maxBytes q1 \<and>
    (map_of (entries q2) n = map_of (entries q1) n \<or>
     map_of (entries q2) n = None \<and> n \<in> set (removedNames io q1 q2))"
proof (cases b)
  case True
  then have q2: "q2 = snd (pruneLocked io q1)" using assms(1) by simp
  then have c: "wfQueue q2 \<and> maxMessages q2 = maxMessages q1 \<and> maxBytes q2 = maxBytes q1"
    using prune_counts [of io q1 "fst (pruneLocked io q1)" q2] assms(2-4) by simp
  have "map_of (entries q2) n = map_of (entries q1) n \<or>
      n \<in> set (listedNames io q1) \<and> map_of (entries q2) n = None"
    using prune_onlyRemoves [OF assms(2), of io] unfolding q2 onlyRemoves_def by blast
  moreover have "n \<notin> set (listedNames io q2)" if "map_of (entries q2) n = None"
    using listed_iff [of q2 n io] c that by simp
  ultimately show ?thesis using c by (auto simp: removedNames_def)
qed (use assms in simp)

definition uniqueNames :: "Spooler \<Rightarrow> bool" where
  "uniqueNames s \<longleftrightarrow>
     (\<forall>n r r'. (n, r) \<in> set (accepted s) \<longrightarrow> (n, r') \<in> set (accepted s) \<longrightarrow> r = r')"

definition spoolInv :: "Spooler \<Rightarrow> bool" where
  "spoolInv s \<longleftrightarrow> wfSpooler s \<and> accounted s \<and> phaseAgrees s \<and> uniqueNames s"

lemma accountedD:
  assumes "accounted s" "(n, r) \<in> set (accepted s)"
  shows "validRecord r" "isRecordName n"
    "present (spQueue s) n r \<or> (n, r) \<in> set (acked s) \<or> n \<in> set (pruned s)"
    "map_of (entries (spQueue s)) n = None \<or> present (spQueue s) n r"
  using assms by (auto simp: accounted_def)

lemma freshD:
  assumes "freshRecords s rs" "r \<in> set rs"
  shows "validRecord r" "isRecordName (recordName r)" "(recordName r, r') \<notin> set (accepted s)"
    "spPhase s = Publishing n x \<Longrightarrow> recordName r \<noteq> n" "spPhase s = Acknowledged n x \<Longrightarrow> recordName r \<noteq> n"
  using assms by (force simp: freshRecords_def list_all_iff)+

lemma committedD: "(n, r) \<in> set (committed q rs) \<Longrightarrow> r \<in> set rs \<and> n = recordName r \<and> present q n r"
  by (auto simp: committed_def named_def present_def)

lemma enqueue_keeps:
  assumes inv: "spoolInv s" and fresh: "freshRecords s (completeAll sources 0 rs)"
    and w: "writeRecords io sources 0 rs (spQueue s) = (e, q1)"
    and q2: "q2 = (if e = None then snd (pruneLocked io q1) else q1)"
  shows "spoolInv (s\<lparr>spQueue := q2, accepted := accepted s @ committed q1 (completeAll sources 0 rs),
    pruned := pruned s @ removedNames io q1 q2\<rparr>)" (is "spoolInv ?t")
proof -
  let ?new = "completeAll sources 0 rs"
  have wf: "wfQueue (spQueue s)" "0 \<le> maxMessages (spQueue s)" "0 \<le> maxBytes (spQueue s)"
    and acc: "accounted s" and ph: "phaseAgrees s" and un: "uniqueNames s"
    using inv by (auto simp: spoolInv_def wfSpooler_def)
  have q1: "wfQueue q1" "maxMessages q1 = maxMessages (spQueue s)" "maxBytes q1 = maxBytes (spQueue s)"
    using writeRecords_wf [OF w wf(1)] by auto
  then have p: "wfQueue q2 \<and> maxMessages q2 = maxMessages q1 \<and> maxBytes q2 = maxBytes q1"
    "map_of (entries q2) n = map_of (entries q1) n \<or>
      map_of (entries q2) n = None \<and> n \<in> set (removedNames io q1 q2)" for n
    using prune_or_same [OF q2] wf(2,3) by auto
  have old: "map_of (entries q1) n = map_of (entries (spQueue s)) n" if a: "(n, r) \<in> set (accepted s)" for n r
    using writeRecords_new [OF w accountedD(2) [OF acc a]] freshD(3) [OF fresh] a by blast
  have now: "present q1 n r \<or> map_of (entries q1) n = None \<and> ((n, r) \<in> set (acked s) \<or> n \<in> set (pruned s))"
    if "(n, r) \<in> set (accepted ?t)" for n r
  proof (cases "(n, r) \<in> set (accepted s)")
    case True
    then show ?thesis using old [OF True] accountedD(3,4) [OF acc True] by (auto simp: present_def)
  next
    case False
    with that committedD [of n r q1] show ?thesis by simp
  qed
  have valid: "validRecord r \<and> isRecordName n" if "(n, r) \<in> set (accepted ?t)" for n r
    using that accountedD(1,2) [OF acc, of n r] committedD [of n r q1] freshD(1,2) [OF fresh] by auto
  have "accounted ?t"
    unfolding accounted_def
  proof (clarsimp simp del: set_append)
    fix n r assume a: "(n, r) \<in> set (accepted s @ committed q1 ?new)"
    then have a': "(n, r) \<in> set (accepted ?t)" by simp
    show "validRecord r \<and> isRecordName n \<and>
        (present q2 n r \<or> (n, r) \<in> set (acked s) \<or> n \<in> set (pruned s @ removedNames io q1 q2)) \<and>
        (map_of (entries q2) n = None \<or> present q2 n r)"
      using valid [OF a'] now [OF a'] p(2) [of n] by (auto simp: present_def)
  qed
  moreover have "phaseAgrees ?t"
    using ph freshD(4,5) [OF fresh] committedD
    by (fastforce simp: phaseAgrees_def split: drainPhase.splits)
  moreover have "uniqueNames ?t"
    unfolding uniqueNames_def
  proof (intro allI impI)
    fix n x y assume a: "(n, x) \<in> set (accepted ?t)" "(n, y) \<in> set (accepted ?t)"
    have cross: False if "(n, u) \<in> set (accepted s)" "(n, v) \<in> set (committed q1 ?new)" for u v
      using committedD [OF that(2)] freshD(3) [OF fresh, of v u] that(1) by simp
    have both: "x = y" if "(n, x) \<in> set (committed q1 ?new)" "(n, y) \<in> set (committed q1 ?new)"
      using committedD [OF that(1)] committedD [OF that(2)] fresh_names [OF fresh, of x y] by simp
    from a cross [of x y] cross [of y x] both show "x = y"
      using un [unfolded uniqueNames_def, THEN spec, of n] by auto
  qed
  moreover have "wfSpooler ?t"
    using p(1) q1 wf by (simp add: wfSpooler_def)
  ultimately show ?thesis by (simp add: spoolInv_def)
qed

lemma peek_keeps:
  assumes inv: "spoolInv s" and idle: "spPhase s = DrainIdle" and pk: "peek io (spQueue s) = Some (res, q1)"
  shows "spoolInv (s\<lparr>spQueue := q1\<rparr>)"
    "res = Inr (Some (n, r)) \<Longrightarrow> spoolInv (s\<lparr>spQueue := q1, spPhase := Publishing n r\<rparr>)"
proof -
  have wf: "wfQueue (spQueue s)" "0 \<le> maxMessages (spQueue s)" "0 \<le> maxBytes (spQueue s)"
    and acc: "accounted s" and un: "uniqueNames s"
    using inv by (auto simp: spoolInv_def wfSpooler_def)
  have res: "peekResult (spQueue s) res q1" by (rule peek_result [OF pk wf(1)])
  then have q1: "wfQueue q1" "maxMessages q1 = maxMessages (spQueue s)" "maxBytes q1 = maxBytes (spQueue s)"
    and rm: "onlyRemoves {n. parsedRecord (spQueue s) n = None} (spQueue s) q1"
    by (auto simp: peekResult_def)
  have keep: "present q1 n r = present (spQueue s) n r \<and>
      (map_of (entries (spQueue s)) n = None \<longrightarrow> map_of (entries q1) n = None)"
    if "(n, r) \<in> set (accepted s)" for n r
  proof -
    have "present q1 n r" if "present (spQueue s) n r"
      using present_kept [OF rm that] accountedD(1) [OF acc \<open>(n, r) \<in> set (accepted s)\<close>] by simp
    moreover have "map_of (entries q1) n = map_of (entries (spQueue s)) n \<or> map_of (entries q1) n = None"
      using rm [unfolded onlyRemoves_def, THEN spec, of n] by (elim disjE conjE) simp_all
    ultimately show ?thesis by (elim disjE) (auto simp: present_def)
  qed
  have a1: "accounted (s\<lparr>spQueue := q1\<rparr>)"
    unfolding accounted_def
  proof clarsimp
    fix n r assume a: "(n, r) \<in> set (accepted s)"
    show "validRecord r \<and> isRecordName n \<and>
        (present q1 n r \<or> (n, r) \<in> set (acked s) \<or> n \<in> set (pruned s)) \<and>
        (map_of (entries q1) n = None \<or> present q1 n r)"
      using accountedD [OF acc a] keep [OF a] by auto
  qed
  have u1: "uniqueNames (s\<lparr>spQueue := q1\<rparr>)" using un by (simp add: uniqueNames_def)
  have w1: "wfSpooler (s\<lparr>spQueue := q1\<rparr>)" using q1 wf by (simp add: wfSpooler_def)
  show "spoolInv (s\<lparr>spQueue := q1\<rparr>)"
    using a1 u1 w1 idle by (simp add: spoolInv_def phaseAgrees_def)
  assume "res = Inr (Some (n, r))"
  with res have pr: "parsedRecord q1 n = Some r" by (simp add: peekResult_def)
  have same: "r' = r" if a: "(n, r') \<in> set (accepted s)" for r'
  proof -
    have "map_of (entries q1) n \<noteq> None"
      using pr by (auto simp: parsedRecord_def fileContent_def split: option.splits)
    then have "present q1 n r'" using accountedD(4) [OF a1, of n r'] a by auto
    with present_parsed [OF this accountedD(1) [OF acc a]] pr show ?thesis by simp
  qed
  have "accounted (s\<lparr>spQueue := q1, spPhase := Publishing n r\<rparr>)"
    "uniqueNames (s\<lparr>spQueue := q1, spPhase := Publishing n r\<rparr>)"
    "wfSpooler (s\<lparr>spQueue := q1, spPhase := Publishing n r\<rparr>)"
    using a1 u1 w1 by (simp_all add: accounted_def uniqueNames_def wfSpooler_def)
  moreover have "phaseAgrees (s\<lparr>spQueue := q1, spPhase := Publishing n r\<rparr>)"
    using same by (simp add: phaseAgrees_def)
  ultimately show "spoolInv (s\<lparr>spQueue := q1, spPhase := Publishing n r\<rparr>)"
    by (simp add: spoolInv_def)
qed

lemma idle_keeps:
  assumes inv: "spoolInv s" shows "spoolInv (s\<lparr>spPhase := DrainIdle\<rparr>)"
  using inv by (simp add: spoolInv_def wfSpooler_def accounted_def phaseAgrees_def uniqueNames_def)

lemma restart_keeps:
  assumes inv: "spoolInv s"
  shows "spoolInv (s\<lparr>spQueue := (spQueue s)\<lparr>dropped := 0\<rparr>, spPhase := DrainIdle\<rparr>)"
proof -
  have "present ((spQueue s)\<lparr>dropped := 0\<rparr>) = present (spQueue s)"
    by (intro ext) (simp add: present_def)
  with inv show ?thesis
    by (simp add: spoolInv_def wfSpooler_def accounted_def phaseAgrees_def uniqueNames_def wfQueue_def)
qed

lemma publishOK_keeps:
  assumes inv: "spoolInv s" and ph: "spPhase s = Publishing n r"
  shows "spoolInv (s\<lparr>spPhase := Acknowledged n r, acked := acked s @ [(n, r)]\<rparr>)"
proof -
  have w: "wfSpooler s" and a: "accounted s" and u: "uniqueNames s"
    and p: "\<forall>r'. (n, r') \<in> set (accepted s) \<longrightarrow> r' = r"
    using inv ph by (simp_all add: spoolInv_def phaseAgrees_def)
  have "accounted (s\<lparr>spPhase := Acknowledged n r, acked := acked s @ [(n, r)]\<rparr>)"
    using accountedD [OF a] by (fastforce simp: accounted_def)
  with w u p show ?thesis
    by (simp add: spoolInv_def wfSpooler_def phaseAgrees_def uniqueNames_def)
qed

lemma removePublished_cases:
  "removePublished io n q = (e, q1) \<Longrightarrow> q1 = q \<or> q1 = removeFile n q"
  by (auto simp: removePublished_def Let_def split: if_splits)

lemma remove_keeps:
  assumes inv: "spoolInv s" and ph: "spPhase s = Acknowledged n r"
    and rm: "removePublished io n (spQueue s) = (e, q1)"
  shows "spoolInv (s\<lparr>spQueue := q1, spPhase := DrainIdle\<rparr>)"
proof -
  have w: "wfSpooler s" and a: "accounted s" and u: "uniqueNames s"
    and p: "\<forall>r'. (n, r') \<in> set (accepted s) \<longrightarrow> r' = r" and k: "(n, r) \<in> set (acked s)"
    using inv ph by (simp_all add: spoolInv_def phaseAgrees_def)
  have w1: "wfQueue q1" "maxMessages q1 = maxMessages (spQueue s)" "maxBytes q1 = maxBytes (spQueue s)"
    and other: "map_of (entries q1) m = map_of (entries (spQueue s)) m \<or> m = n \<and> map_of (entries q1) n = None" for m
    using removePublished_cases [OF rm] w by (auto simp: wfSpooler_def wfQueue_ops map_of_remove split: if_splits)
  have "accounted (s\<lparr>spQueue := q1, spPhase := DrainIdle\<rparr>)"
    unfolding accounted_def
  proof clarsimp
    fix m x assume mx: "(m, x) \<in> set (accepted s)"
    from other [of m] show "validRecord x \<and> isRecordName m \<and>
        (present q1 m x \<or> (m, x) \<in> set (acked s) \<or> m \<in> set (pruned s)) \<and>
        (map_of (entries q1) m = None \<or> present q1 m x)"
    proof
      assume "map_of (entries q1) m = map_of (entries (spQueue s)) m"
      then show ?thesis using accountedD [OF a mx] by (simp add: present_def)
    next
      assume "m = n \<and> map_of (entries q1) n = None"
      then show ?thesis using accountedD(1,2) [OF a mx] p mx k by simp
    qed
  qed
  with w w1 u show ?thesis by (simp add: spoolInv_def wfSpooler_def phaseAgrees_def uniqueNames_def)
qed

lemma step_keeps: "spoolStep s t \<Longrightarrow> spoolInv s \<Longrightarrow> spoolInv t"
proof (induction rule: spoolStep.induct)
  case enqueue then show ?case using enqueue_keeps by blast
next
  case peek then show ?case using peek_keeps(2) by blast
next
  case peekNone then show ?case using peek_keeps(1) by blast
next
  case publishOK then show ?case by (simp add: publishOK_keeps)
next
  case publishFailed then show ?case by (simp add: idle_keeps)
next
  case remove then show ?case using remove_keeps by blast
next
  case restart then show ?case by (rule restart_keeps)
qed

lemma reach_keeps: "spoolReach s t \<Longrightarrow> spoolInv s \<Longrightarrow> spoolInv t"
  by (induction rule: spoolReach.induct) (auto intro: step_keeps)

lemma newSpooler_inv:
  "wfQueue q \<Longrightarrow> 0 \<le> maxMessages q \<Longrightarrow> 0 \<le> maxBytes q \<Longrightarrow> spoolInv (newSpooler q)"
  by (simp add: newSpooler_def spoolInv_def wfSpooler_def accounted_def phaseAgrees_def uniqueNames_def)

section \<open>The spool invents nothing\<close>

text \<open>A record is known if it was in the directory at the start or has been accepted since.\<close>

definition known :: "Queue \<Rightarrow> Spooler \<Rightarrow> string \<Rightarrow> Record \<Rightarrow> bool" where
  "known q0 s n r \<longleftrightarrow> parsedRecord q0 n = Some r \<or> (n, r) \<in> set (accepted s)"

definition originInv :: "Queue \<Rightarrow> Spooler \<Rightarrow> bool" where
  "originInv q0 s \<longleftrightarrow>
     (\<forall>n r. isRecordName n \<longrightarrow> parsedRecord (spQueue s) n = Some r \<longrightarrow> known q0 s n r) \<and>
     (case spPhase s of DrainIdle \<Rightarrow> True | Publishing n r \<Rightarrow> known q0 s n r | Acknowledged n r \<Rightarrow> known q0 s n r) \<and>
     (\<forall>(n, r) \<in> set (acked s). known q0 s n r)"

lemma originD:
  "originInv q0 s \<Longrightarrow> isRecordName n \<Longrightarrow> parsedRecord (spQueue s) n = Some r \<Longrightarrow> known q0 s n r"
  "originInv q0 s \<Longrightarrow> (n, r) \<in> set (acked s) \<Longrightarrow> known q0 s n r"
  "originInv q0 s \<Longrightarrow> spPhase s = Publishing n r \<Longrightarrow> known q0 s n r"
  by (auto simp: originInv_def)

lemma parsed_same: "map_of (entries q') n = map_of (entries q) n \<Longrightarrow> parsedRecord q' n = parsedRecord q n"
  by (simp add: parsedRecord_def fileContent_def)

lemma parsed_gone: "map_of (entries q') n = None \<Longrightarrow> parsedRecord q' n = None"
  by (simp add: parsedRecord_def fileContent_def)

lemma origin_shrink:
  assumes "originInv q0 s" "\<And>n. map_of (entries q1) n = map_of (entries (spQueue s)) n \<or> map_of (entries q1) n = None"
    and "\<And>n r. ph = Publishing n r \<or> ph = Acknowledged n r \<Longrightarrow> known q0 s n r"
  shows "originInv q0 (s\<lparr>spQueue := q1, spPhase := ph\<rparr>)"
proof -
  have "known q0 s n r" if "isRecordName n" "parsedRecord q1 n = Some r" for n r
    using assms(2) [of n] parsed_same [of q1 n "spQueue s"] parsed_gone [of q1 n] originD(1) [OF assms(1) that(1), of r] that(2) by auto
  with assms show ?thesis
    by (auto simp: originInv_def known_def split: drainPhase.splits)
qed

lemma origin_enqueue:
  assumes inv: "originInv q0 s" "spoolInv s" and fresh: "freshRecords s (completeAll sources 0 rs)"
    and w: "writeRecords io sources 0 rs (spQueue s) = (e, q1)"
    and q2: "q2 = (if e = None then snd (pruneLocked io q1) else q1)"
  shows "originInv q0 (s\<lparr>spQueue := q2, accepted := accepted s @ committed q1 (completeAll sources 0 rs),
    pruned := pruned s @ removedNames io q1 q2\<rparr>)" (is "originInv q0 ?t")
proof -
  have wf: "wfQueue (spQueue s)" "0 \<le> maxMessages (spQueue s)" "0 \<le> maxBytes (spQueue s)"
    using inv(2) by (auto simp: spoolInv_def wfSpooler_def)
  have more: "known q0 ?t n r" if "known q0 s n r" for n r
    using that by (auto simp: known_def)
  have "known q0 ?t n r" if n: "isRecordName n" and p: "parsedRecord q2 n = Some r" for n r
  proof -
    have "map_of (entries q2) n = map_of (entries q1) n"
      using prune_or_same [OF q2, of n] writeRecords_wf [OF w wf(1)] wf(2,3) p parsed_gone [of q2 n] by auto
    with p have p1: "parsedRecord q1 n = Some r" using parsed_same by metis
    from writeRecords_new [OF w n] show ?thesis
    proof (elim disjE bexE conjE)
      assume "map_of (entries q1) n = map_of (entries (spQueue s)) n"
      then show ?thesis using originD(1) [OF inv(1) n, of r] p1 parsed_same more by metis
    next
      fix x assume x: "x \<in> set (completeAll sources 0 rs)" "n = recordName x" "present q1 n x"
      then have "x = r" using present_parsed [OF x(3) freshD(1) [OF fresh x(1)]] p1 by simp
      with x show ?thesis by (auto simp: known_def committed_def named_def present_def)
    qed
  qed
  with inv(1) more show ?thesis by (auto simp: originInv_def split: drainPhase.splits)
qed

lemma origin_peek:
  assumes inv: "originInv q0 s" "spoolInv s" and pk: "peek io (spQueue s) = Some (res, q1)"
    and ph: "ph = DrainIdle \<or> (\<exists>n r. res = Inr (Some (n, r)) \<and> ph = Publishing n r)"
  shows "originInv q0 (s\<lparr>spQueue := q1, spPhase := ph\<rparr>)"
proof -
  have "wfQueue (spQueue s)" using inv(2) by (simp add: spoolInv_def wfSpooler_def)
  from peek_result [OF pk this]
  have rm: "onlyRemoves {n. parsedRecord (spQueue s) n = None} (spQueue s) q1"
    and got: "\<And>n r. res = Inr (Some (n, r)) \<Longrightarrow> isRecordName n \<and> parsedRecord q1 n = Some r"
    by (auto simp: peekResult_def)
  have files: "map_of (entries q1) n = map_of (entries (spQueue s)) n \<or> map_of (entries q1) n = None" for n
    using rm [unfolded onlyRemoves_def, THEN spec, of n] by (elim disjE conjE) simp_all
  have "known q0 s n r" if "res = Inr (Some (n, r))" for n r
    using got [OF that] files [of n] parsed_same [of q1 n "spQueue s"] parsed_gone [of q1 n] originD(1) [OF inv(1), of n r] by auto
  with ph show ?thesis by (intro origin_shrink [OF inv(1) files]) auto
qed

lemma origin_step: "spoolStep s t \<Longrightarrow> originInv q0 s \<Longrightarrow> spoolInv s \<Longrightarrow> originInv q0 t"
proof (induction rule: spoolStep.induct)
  case enqueue then show ?case using origin_enqueue by blast
next
  case (peek s io n r q1) then show ?case by (intro origin_peek) auto
next
  case (peekNone s io res q1)
  then have "originInv q0 (s\<lparr>spQueue := q1, spPhase := DrainIdle\<rparr>)" by (intro origin_peek) auto
  with peekNone.hyps(1) show ?case by (simp add: originInv_def known_def)
next
  case (publishOK s n r)
  then have "known q0 s n r" using originD(3) by blast
  with publishOK show ?case by (auto simp: originInv_def known_def)
next
  case (publishFailed s n r)
  then show ?case by (simp add: originInv_def known_def)
next
  case (remove s n r io e q1)
  then have "map_of (entries q1) m = map_of (entries (spQueue s)) m \<or> map_of (entries q1) m = None" for m
    using removePublished_cases [OF remove.hyps(2)] by (auto simp: spoolInv_def wfSpooler_def map_of_remove split: if_splits)
  with remove show ?case by (intro origin_shrink) auto
next
  case (restart s)
  then show ?case by (intro origin_shrink) auto
qed

lemma reach_origin:
  assumes "spoolReach s t" "spoolInv s" "originInv q0 s" shows "originInv q0 t"
  using assms by (induction rule: spoolReach.induct) (auto intro: origin_step reach_keeps)

lemma newSpooler_origin: "originInv q (newSpooler q)"
  by (simp add: originInv_def newSpooler_def known_def)

text \<open>
  C3: At-least-once through crashes and faults. Whatever the order of enqueues, drain steps and
  restarts, and whichever system calls fail, a record whose file was committed is, at every
  moment, still in the spool with the contents it was accepted with, or acknowledged by the
  broker, or among the files that pruning removed to stay within the bounds.
\<close>
theorem accepted_is_never_lost:
  assumes "wfQueue q" "0 \<le> maxMessages q" "0 \<le> maxBytes q"
    and "spoolReach (newSpooler q) s"
    and "(n, r) \<in> set (accepted s)"
  shows "parsedRecord (spQueue s) n = Some r \<or> (n, r) \<in> set (acked s) \<or> n \<in> set (pruned s)"
proof -
  have "accounted s"
    using reach_keeps [OF assms(4)] newSpooler_inv [OF assms(1-3)] by (simp add: spoolInv_def)
  from accountedD [OF this assms(5)] show ?thesis by (auto dest: present_parsed)
qed


text \<open>One record that just fits: enqueued, published and acknowledged, then a restart.\<close>

definition demoQueue :: Queue where
  "demoQueue =
     \<lparr>maxMessages = 1, maxBytes = int (length (marshalRecord exampleRecord)), entries = [], dropped = 0\<rparr>"

definition demoName :: string where
  "demoName = ''00000000000000000001-a.json''"

definition demoStored :: Queue where
  "demoStored = demoQueue\<lparr>entries := [(demoName, RegularFile (marshalRecord exampleRecord))]\<rparr>"

lemma demoName_eq: "recordName exampleRecord = demoName"
  by (simp add: recordName_def exampleRecord_def demoName_def)

lemma demoName_listed: "isRecordName demoName"
  by (simp add: isRecordName_def HasPrefix_def HasSuffix_def demoName_def)

lemma demo_complete: "completeAll sources 0 [exampleRecord] = [exampleRecord]"
  by (simp add: completeRecord_def exampleRecord_def Let_def)

lemma demo_write: "writeRecords unixIO sources 0 [exampleRecord] demoQueue = (None, demoStored)"
proof -
  have c: "completeRecord (sources 0) exampleRecord = exampleRecord"
    by (simp add: completeRecord_def exampleRecord_def Let_def)
  have "tempName exampleRecord \<noteq> demoName"
    by (simp add: tempName_def demoName_eq)
  then show ?thesis
    by (simp add: c writeRecord_def Let_def putFile_def removeFile_def demoName_eq demoQueue_def demoStored_def)
qed

lemma demo_files: "listFiles unixIO demoStored = [(demoName, int (length (marshalRecord exampleRecord)))]"
  by (simp add: listFiles_def demoStored_def visibleEntry_def demoName_listed entrySize_def)

lemma demo_limits:
  "maxMessages demoStored = 1" "maxBytes demoStored = int (length (marshalRecord exampleRecord))"
  by (simp_all add: demoStored_def demoQueue_def)

lemma demo_prune: "pruneLocked unixIO demoStored = (None, demoStored)"
  by (simp add: pruneLocked_def listLocked_def demo_files totalSize_def demo_limits)

lemma demo_peek: "peek unixIO demoStored = Some (Inr (Some (demoName, exampleRecord)), demoStored)"
proof -
  have "fileContent demoStored demoName = Some (marshalRecord exampleRecord)"
    by (simp add: fileContent_def demoStored_def)
  then show ?thesis
    by (simp add: peek_def listLocked_def demo_files readRecord_def rc.read_back exampleRecord_valid)
qed

lemma demo_run:
  "\<exists>s. spoolReach (newSpooler demoQueue) s \<and> accepted s = [(demoName, exampleRecord)] \<and>
     acked s = [(demoName, exampleRecord)] \<and> pruned s = [] \<and> spQueue s = demoStored"
proof -
  let ?s0 = "newSpooler demoQueue"
  let ?s1 = "\<lparr>spQueue = demoStored, spPhase = DrainIdle, accepted = [(demoName, exampleRecord)],
    acked = [], pruned = []\<rparr>"
  have q: "spQueue ?s0 = demoQueue" "entries demoQueue = []" by (simp_all add: newSpooler_def demoQueue_def)
  have "freshRecords ?s0 [exampleRecord]"
    by (simp add: freshRecords_def demoName_eq demoName_listed exampleRecord_valid newSpooler_def demoQueue_def)
  then have "spoolStep ?s0 (?s0\<lparr>spQueue := demoStored,
      accepted := accepted ?s0 @ committed demoStored (completeAll (\<lambda>_. (0, [])) 0 [exampleRecord]),
      pruned := pruned ?s0 @ removedNames unixIO demoStored demoStored\<rparr>)"
    by (intro spoolStep.enqueue [where io = unixIO and e = None])
       (simp_all only: demo_complete demo_write q demo_prune if_True simp_thms snd_conv)
  moreover have "committed demoStored [exampleRecord] = [(demoName, exampleRecord)]"
    by (simp add: committed_def named_def demoName_eq demoStored_def)
  ultimately have "spoolStep ?s0 ?s1"
    by (simp only: demo_complete) (simp add: newSpooler_def removedNames_def)
  then have r1: "spoolReach ?s0 ?s1" by (blast intro: spoolReach.intros)
  have "spoolStep ?s1 (?s1\<lparr>spQueue := demoStored, spPhase := Publishing demoName exampleRecord\<rparr>)"
    by (rule spoolStep.peek [where io = unixIO]) (simp_all add: demo_peek)
  with r1 have r2: "spoolReach ?s0 (?s1\<lparr>spPhase := Publishing demoName exampleRecord\<rparr>)"
    using spoolReach.reach_step [of ?s0 ?s1] by simp
  let ?s2 = "?s1\<lparr>spPhase := Publishing demoName exampleRecord\<rparr>"
  have "spoolStep ?s2 (?s2\<lparr>spPhase := Acknowledged demoName exampleRecord,
      acked := acked ?s2 @ [(demoName, exampleRecord)]\<rparr>)"
    by (rule spoolStep.publishOK) simp
  with r2 have "spoolReach ?s0 (?s2\<lparr>spPhase := Acknowledged demoName exampleRecord,
      acked := acked ?s2 @ [(demoName, exampleRecord)]\<rparr>)" by (rule spoolReach.reach_step)
  then show ?thesis by (intro exI conjI) (assumption, simp_all)
qed

theorem accepted_is_never_lost_witness:
  "\<exists>s. spoolReach (newSpooler demoQueue) s \<and> accepted s = [(demoName, exampleRecord)] \<and> pruned s = [] \<and>
     (parsedRecord (spQueue s) demoName = Some exampleRecord \<or>
      (demoName, exampleRecord) \<in> set (acked s) \<or> demoName \<in> set (pruned s))"
proof -
  obtain s where s: "spoolReach (newSpooler demoQueue) s" "accepted s = [(demoName, exampleRecord)]" "pruned s = []"
    using demo_run by blast
  have "wfQueue demoQueue" "0 \<le> maxMessages demoQueue" "0 \<le> maxBytes demoQueue"
    by (simp_all add: wfQueue_def demoQueue_def)
  from accepted_is_never_lost [OF this s(1), of demoName exampleRecord] s show ?thesis
    by (intro exI [of _ s] conjI) simp_all
qed

end
