(* ===== verification/Compact.thy ===== *)
theory Compact
  imports Codec
begin

text \<open>
  A \<open>json.RawMessage\<close> inside a value that is marshalled: \<open>encoding/json\<close> writes it compactly,
  without the space between tokens and with the characters of HTML escaped. What the scanner
  accepts is well formed, and stays so.
\<close>

section \<open>Compact text\<close>

text \<open>
  The characters \<open><\<close>, \<open>>\<close> and \<open>&\<close> and the two line separators of Unicode are escaped where
  they stand, which in valid JSON is inside a string.
\<close>

fun escapeHTML :: "string \<Rightarrow> string" where
  "escapeHTML [] = []"
| "escapeHTML (c # cs) =
     (if byteval c = 60 \<or> byteval c = 62 \<or> byteval c = 38
      then (CHR 0x5C # ''u00'' @ hexPair (byteval c)) @ escapeHTML cs
      else (case cs of
         a # b # rest \<Rightarrow>
           if byteval c = 226 \<and> byteval a = 128 \<and> (byteval b = 168 \<or> byteval b = 169)
           then (CHR 0x5C # ''u202'' @ [hexDigit (byteval b mod 16)]) @ escapeHTML rest
           else c # escapeHTML cs
       | _ \<Rightarrow> c # escapeHTML cs))"

declare escapeHTML.simps(2) [simp del]

fun compactJson :: "json \<Rightarrow> json" where
  "compactJson (JStr raw) = JStr (escapeHTML raw)"
| "compactJson (JArr vs) = JArr (map compactJson vs)"
| "compactJson (JObj ms) = JObj (map (\<lambda>(k, v). (escapeHTML k, compactJson v)) ms)"
| "compactJson j = j"

definition rawMessage :: "string \<Rightarrow> json option" where
  "rawMessage payload = map_option compactJson (parseJson payload)"

section \<open>What the scanner accepts is well formed\<close>

lemma scanString_split:
  "scanString s = Some (raw, rest) \<Longrightarrow>
   (\<exists>q. byteval q = 34 \<and> s = raw @ q # rest) \<and> wfStr raw"
proof (induction s arbitrary: raw rest rule: scanString.induct)
  case (2 c cs)
  consider "byteval c = 34" | "byteval c = 92" | "byteval c \<noteq> 34" "byteval c \<noteq> 92" by blast
  then show ?case
  proof cases
    case 1
    with "2.prems" show ?thesis by (auto simp: wfStr_def)
  next
    case 2: 2
    with "2.prems" obtain e cs1 where cs: "cs = e # cs1" by (cases cs) simp_all
    show ?thesis
    proof (cases "escapeChar e")
      case True
      with "2.prems" 2 cs obtain r where r: "scanString cs1 = Some (r, rest)" "raw = c # e # r"
        by auto
      with "2.IH"(1) [OF _ 2 cs True r(1)] 2 True cs show ?thesis by (auto simp: wfStr_def)
    next
      case False
      with "2.prems" 2 cs obtain h1 h2 h3 h4 cs2 where h: "cs1 = h1 # h2 # h3 # h4 # cs2"
        by (auto split: list.splits if_splits)
      have u: "byteval e = 117" and hx: "hexChar h1 \<and> hexChar h2 \<and> hexChar h3 \<and> hexChar h4"
        using "2.prems" 2 cs False h by (auto split: if_splits)
      with "2.prems" 2 cs False h obtain r where
        r: "scanString cs2 = Some (r, rest)" "raw = c # e # h1 # h2 # h3 # h4 # r" by auto
      with "2.IH"(2) [OF _ 2 cs False u h refl refl refl hx r(1)] 2 False u hx cs h show ?thesis
        by (auto simp: wfStr_def)
    qed
  next
    case 3
    with "2.prems" obtain r where r: "scanString cs = Some (r, rest)" "raw = c # r" "\<not> byteval c < 32"
      by (auto split: if_splits)
    with "2.IH"(3) [OF 3 r(3,1)] 3 show ?thesis by (auto simp: wfStr_def)
  qed
qed simp

definition noDigit :: "string \<Rightarrow> bool" where
  "noDigit u \<longleftrightarrow> (case u of [] \<Rightarrow> True | c # _ \<Rightarrow> \<not> digit c)"

lemma spanDigits_all: "list_all digit ds \<Longrightarrow> noDigit u \<Longrightarrow> spanDigits (ds @ u) = (ds, u)"
  by (induction ds) (auto simp: spanDigits_def noDigit_def split: list.splits)

lemma spanDigits_split: "spanDigits s = (ds, rest) \<Longrightarrow> s = ds @ rest \<and> list_all digit ds"
  by (auto simp: spanDigits_def list_all_iff dest: set_takeWhileD)

lemma scanSign_split:
  "scanSign signs s = (g, r) \<Longrightarrow>
   s = g @ r \<and> (u \<noteq> [] \<longrightarrow> byteval (hd u) \<notin> signs \<longrightarrow> scanSign signs (g @ u) = (g, u))"
  by (auto simp: scanSign_def split: list.splits if_splits)

lemma scanInt_split:
  "scanInt s = Some (i, r) \<Longrightarrow>
   s = i @ r \<and> (\<exists>c cs. i = c # cs \<and> digit c) \<and> (noDigit u \<longrightarrow> scanInt (i @ u) = Some (i, u))"
proof (cases s)
  case (Cons c cs)
  assume a: "scanInt s = Some (i, r)"
  show ?thesis
  proof (cases "byteval c = 48")
    case True
    with Cons a show ?thesis by (auto simp: scanInt_def digit_def)
  next
    case False
    with Cons a have d: "digit c" and sp: "spanDigits s = (i, r)"
      by (auto simp: scanInt_def split: if_splits)
    then obtain ds where i: "i = c # ds"
      using Cons by (auto simp: spanDigits_def)
    with spanDigits_split [OF sp] spanDigits_all [of i u] False d show ?thesis
      by (auto simp: scanInt_def)
  qed
qed (simp add: scanInt_def)

lemma scanFrac_split:
  "scanFrac s = Some (f, r) \<Longrightarrow>
   s = f @ r \<and> noDigit f \<and>
   (noDigit u \<longrightarrow> (u = [] \<or> byteval (hd u) \<noteq> 46) \<longrightarrow> scanFrac (f @ u) = Some (f, u))"
proof (cases s)
  case (Cons c cs)
  assume a: "scanFrac s = Some (f, r)"
  show ?thesis
  proof (cases "byteval c = 46")
    case True
    obtain ds rest where sp: "spanDigits cs = (ds, rest)" by (cases "spanDigits cs")
    with Cons a True have "ds \<noteq> []" "f = c # ds" "r = rest"
      by (auto simp: scanFrac_def split: if_splits)
    with spanDigits_split [OF sp] spanDigits_all [of ds u] True Cons show ?thesis
      by (auto simp: scanFrac_def noDigit_def digit_def)
  next
    case False
    with Cons a show ?thesis by (cases u) (auto simp: scanFrac_def noDigit_def)
  qed
qed (cases u; auto simp: scanFrac_def noDigit_def)

lemma scanExp_split:
  "scanExp s = Some (e, r) \<Longrightarrow>
   s = e @ r \<and> noDigit e \<and> (e = [] \<or> byteval (hd e) \<noteq> 46) \<and> scanExp e = Some (e, [])"
proof (cases s)
  case (Cons c cs)
  assume a: "scanExp s = Some (e, r)"
  show ?thesis
  proof (cases "byteval c = 101 \<or> byteval c = 69")
    case True
    obtain g cs1 where g: "scanSign {43, 45} cs = (g, cs1)" by (cases "scanSign {43, 45} cs")
    obtain ds rest where sp: "spanDigits cs1 = (ds, rest)" by (cases "spanDigits cs1")
    with Cons a True g have e: "ds \<noteq> []" "e = c # g @ ds" "r = rest"
      by (auto simp: scanExp_def Let_def split: if_splits)
    from spanDigits_split [OF sp] have d: "cs1 = ds @ rest" "list_all digit ds" by auto
    with e have "byteval (hd ds) \<notin> {43, 45}"
      by (cases ds) (auto simp: digit_def)
    with scanSign_split [OF g, of ds] e(1) have "cs = g @ cs1" "scanSign {43, 45} (g @ ds) = (g, ds)"
      by auto
    with spanDigits_all [OF d(2), of "[]"] True Cons e d(1) show ?thesis
      by (auto simp: scanExp_def noDigit_def digit_def Let_def)
  next
    case False
    with Cons a show ?thesis by (auto simp: scanExp_def noDigit_def)
  qed
qed (auto simp: scanExp_def noDigit_def)

lemma noDigit_append: "noDigit f \<Longrightarrow> noDigit e \<Longrightarrow> noDigit (f @ e)"
  by (simp add: noDigit_def split: list.splits)

lemma scanNumber_wf:
  assumes "scanNumber s = Some (t, rest)" shows "s = t @ rest \<and> wfNum t"
proof -
  obtain g s1 where g: "scanSign {45} s = (g, s1)" by (cases "scanSign {45} s")
  from assms g obtain i s2 where i: "scanInt s1 = Some (i, s2)"
    by (auto simp: scanNumber_def split: option.splits)
  with assms g obtain f s3 where f: "scanFrac s2 = Some (f, s3)"
    by (auto simp: scanNumber_def split: option.splits)
  with assms g i obtain e where e: "scanExp s3 = Some (e, rest)" and t: "t = g @ i @ f @ e"
    by (auto simp: scanNumber_def split: option.splits)
  from scanExp_split [OF e] have e': "s3 = e @ rest" "noDigit e" "e = [] \<or> byteval (hd e) \<noteq> 46"
    "scanExp e = Some (e, [])" by auto
  from scanFrac_split [OF f, of e] e' have f': "s2 = f @ s3" "noDigit (f @ e)" "scanFrac (f @ e) = Some (f, e)"
    by (auto intro: noDigit_append)
  from scanInt_split [OF i, of "f @ e"] f' have i': "s1 = i @ s2" "scanInt (i @ f @ e) = Some (i, f @ e)"
    and "\<exists>c cs. i = c # cs \<and> digit c" by auto
  then have "byteval (hd (i @ f @ e)) \<noteq> 45" "i @ f @ e \<noteq> []"
    by (auto simp: digit_def)
  with scanSign_split [OF g, of "i @ f @ e"] have "s = g @ s1" "scanSign {45} (g @ i @ f @ e) = (g, i @ f @ e)"
    by auto
  with i' f' e' t show ?thesis by (simp add: wfNum_def scanNumber_def)
qed

lemma scan_wf:
  "scanValue n d s = Some (v, rest) \<Longrightarrow> wfJson d v"
  "scanElements n d s = Some (vs, rest) \<Longrightarrow> list_all (wfJson d) vs"
  "scanMembers n d s = Some (ms, rest) \<Longrightarrow> list_all (\<lambda>(k, v). wfStr k \<and> wfJson d v) ms"
proof (induction n d s and n d s and n d s arbitrary: v rest and vs rest and ms rest
    rule: scanValue_scanElements_scanMembers.induct)
  case (2 n d s)
  then show ?case
    by (auto simp: scan_unfold split: if_splits list.splits dest: scanString_split scanNumber_wf)
next
  case (4 n d s)
  then show ?case
    by (force simp: scan_unfold split: if_splits list.splits option.splits)
next
  case (6 n d s)
  then show ?case
    by (force simp: scan_unfold split: if_splits list.splits option.splits dest: scanString_split)
qed simp_all

lemma parse_wf: "parseJson s = Some v \<Longrightarrow> wfJson maxNestingDepth v"
  by (auto simp: parseJson_def split: option.splits if_splits dest: scan_wf(1))

section \<open>Escaping keeps it well formed\<close>

lemma through_escapeHTML_pieces:
  "byteval c = 60 \<or> byteval c = 62 \<or> byteval c = 38 \<Longrightarrow> through (CHR 0x5C # ''u00'' @ hexPair (byteval c))"
  "byteval b = 168 \<or> byteval b = 169 \<Longrightarrow> through (CHR 0x5C # ''u202'' @ [hexDigit (byteval b mod 16)])"
  by (auto simp: hexPair_def hexDigit_def hexChar_def digit_def intro!: through_hex)

lemma four_or_fewer:
  obtains a b c d r where "xs = a # b # c # d # r" | "length xs < 4"
proof (cases "length xs < 4")
  case False
  then have "4 \<le> length xs" by simp
  then obtain a b c d r where "xs = a # b # c # d # r"
    by (auto simp: numeral_eq_Suc Suc_le_length_iff)
  with that(1) show ?thesis .
qed

lemma few_hex: "length cs < 4 \<Longrightarrow> \<not> escapeChar e \<Longrightarrow> byteval c = 92 \<Longrightarrow> scanString (c # e # cs @ [CHR 0x22]) = None"
  by (cases cs; cases "tl cs"; cases "tl (tl cs)"; cases "tl (tl (tl cs))")
    (auto simp: hexChar_def digit_def)

lemma wfStr_cases:
  assumes "wfStr raw"
  obtains "raw = []"
  | c cs where "raw = c # cs" "plain c" "wfStr cs"
  | c e cs where "raw = c # e # cs" "byteval c = 92" "escapeChar e" "wfStr cs"
  | c u h1 h2 h3 h4 cs where "raw = c # u # h1 # h2 # h3 # h4 # cs" "byteval c = 92" "byteval u = 117"
      "list_all hexChar [h1, h2, h3, h4]" "wfStr cs"
proof (cases raw)
  case Nil
  with that(1) show ?thesis .
next
  case (Cons c cs)
  with assms have s: "scanString (c # cs @ [CHR 0x22]) = Some (c # cs, [])" by (simp add: wfStr_def)
  consider "byteval c = 34" | "byteval c = 92" | "byteval c \<noteq> 34" "byteval c \<noteq> 92" by blast
  then show ?thesis
  proof cases
    case 1
    with s show ?thesis by simp
  next
    case 3
    with s have "plain c" "wfStr cs" by (auto simp: plain_def wfStr_def split: if_splits)
    with Cons that(2) show ?thesis by blast
  next
    case 2
    with s obtain e cs1 where cs: "cs = e # cs1" by (cases cs) (auto simp: escapeChar_def)
    show ?thesis
    proof (cases "escapeChar e")
      case True
      with s 2 cs have "wfStr cs1" by (auto simp: wfStr_def)
      with Cons cs 2 True that(3) show ?thesis by blast
    next
      case False
      show ?thesis
      proof (rule four_or_fewer [of cs1])
        assume "length cs1 < 4"
        with few_hex [of cs1 e c] False 2 s cs show ?thesis by simp
      next
        fix h1 h2 h3 h4 r assume h: "cs1 = h1 # h2 # h3 # h4 # r"
        with s 2 cs False have "byteval e = 117" "list_all hexChar [h1, h2, h3, h4]" "wfStr r"
          by (auto simp: wfStr_def split: if_splits)
        with Cons cs h 2 that(4) show ?thesis by blast
      qed
    qed
  qed
qed

lemma escapeHTML_keeps:
  "byteval c \<noteq> 60 \<Longrightarrow> byteval c \<noteq> 62 \<Longrightarrow> byteval c \<noteq> 38 \<Longrightarrow> byteval c \<noteq> 226 \<Longrightarrow>
   escapeHTML (c # cs) = c # escapeHTML cs"
  by (simp add: escapeHTML.simps(2) split: list.splits)

lemma escapeHTML_cases:
  obtains "byteval c = 60 \<or> byteval c = 62 \<or> byteval c = 38"
    "escapeHTML (c # cs) = (CHR 0x5C # ''u00'' @ hexPair (byteval c)) @ escapeHTML cs"
  | a b rest where "cs = a # b # rest" "byteval a = 128" "byteval b = 168 \<or> byteval b = 169"
    "escapeHTML (c # cs) = (CHR 0x5C # ''u202'' @ [hexDigit (byteval b mod 16)]) @ escapeHTML rest"
  | "escapeHTML (c # cs) = [c] @ escapeHTML cs"
proof (cases "byteval c = 60 \<or> byteval c = 62 \<or> byteval c = 38")
  case True
  with that(1) show ?thesis by (simp add: escapeHTML.simps(2))
next
  case False
  show ?thesis
  proof (cases "\<exists>a b rest. cs = a # b # rest \<and> byteval c = 226 \<and> byteval a = 128 \<and> (byteval b = 168 \<or> byteval b = 169)")
    case True
    then obtain a b rest where r: "cs = a # b # rest" "byteval c = 226" "byteval a = 128"
      "byteval b = 168 \<or> byteval b = 169" by blast
    then show ?thesis
      by (intro that(2) [OF r(1,3,4)]) (simp add: escapeHTML.simps(2))
  next
    case no: False
    have "escapeHTML (c # cs) = [c] @ escapeHTML cs"
    proof (cases "\<exists>a b rest. cs = a # b # rest")
      case True
      then obtain a b rest where cs: "cs = a # b # rest" by blast
      with no have "\<not> (byteval c = 226 \<and> byteval a = 128 \<and> (byteval b = 168 \<or> byteval b = 169))"
        by blast
      with False cs show ?thesis by (simp only: escapeHTML.simps(2) list.case if_False append.simps)
    next
      case short: False
      then have "cs = [] \<or> (\<exists>a. cs = [a])" by (cases cs; cases "tl cs") auto
      with False show ?thesis
        by (elim disjE exE; simp only: escapeHTML.simps(2) list.case if_False append.simps)
    qed
    with that(3) show ?thesis .
  qed
qed

lemma wfStr_tail: "wfStr (c # cs) \<Longrightarrow> byteval c \<noteq> 92 \<Longrightarrow> wfStr cs"
  by (erule wfStr_cases) auto

lemma through_escapeHTML: "wfStr raw \<Longrightarrow> through (escapeHTML raw)"
proof (induction "length raw" arbitrary: raw rule: less_induct)
  case less
  from less.prems show ?case
  proof (cases rule: wfStr_cases)
    case 1
    then show ?thesis by (simp add: through_Nil)
  next
    case (2 c cs)
    then have ih: "through (escapeHTML cs)" using less.hyps [of cs] by simp
    show ?thesis
    proof (cases c cs rule: escapeHTML_cases)
      case 1
      with through_append [OF through_escapeHTML_pieces(1) ih] 2 show ?thesis by simp
    next
      case two: (2 a b rest)
      with 2 have "wfStr rest" using wfStr_tail [of a "b # rest"] wfStr_tail [of b rest] by auto
      then have "through (escapeHTML rest)" using less.hyps [of rest] 2 two by simp
      with through_append [OF through_escapeHTML_pieces(2) [OF two(3)]] two(4) 2(1) show ?thesis by simp
    next
      case 3
      with through_append [OF through_char [OF 2(2)] ih] 2(1) show ?thesis by simp
    qed
  next
    case (3 c e cs)
    then have "escapeHTML (c # e # cs) = [c, e] @ escapeHTML cs"
      by (auto simp: escapeHTML_keeps escapeChar_def)
    with through_append [OF through_escape [OF 3(2,3)], of "escapeHTML cs"] less.hyps [of cs] 3(1,4)
    show ?thesis by simp
  next
    case (4 c u h1 h2 h3 h4 cs)
    have x: "escapeHTML (x # ys) = x # escapeHTML ys" if "hexChar x" for x ys
      using that by (intro escapeHTML_keeps) (auto simp: hexChar_def digit_def)
    have "escapeHTML raw = [c, u, h1, h2, h3, h4] @ escapeHTML cs"
      using 4 x by (simp add: escapeHTML_keeps)
    with through_append [OF through_hex [OF 4(2,3,4)], of "escapeHTML cs"] less.hyps [of cs] 4(1,5)
    show ?thesis by simp
  qed
qed

lemma wfStr_escapeHTML: "wfStr raw \<Longrightarrow> wfStr (escapeHTML raw)"
  by (rule through_wfStr [OF through_escapeHTML])

lemma wfJson_compact: "wfJson d v \<Longrightarrow> wfJson d (compactJson v)"
proof (induction v arbitrary: d)
  case (JArr vs)
  then show ?case by (auto simp: list_all_iff)
next
  case (JObj ms)
  then show ?case by (fastforce simp: list_all_iff wfStr_escapeHTML)
qed (simp_all add: wfStr_escapeHTML)

section \<open>Quoted text is already escaped\<close>

lemma escapeHTML_ascii:
  "list_all (\<lambda>c. byteval c < 128 \<and> byteval c \<noteq> 60 \<and> byteval c \<noteq> 62 \<and> byteval c \<noteq> 38) p \<Longrightarrow>
   escapeHTML (p @ t) = p @ escapeHTML t"
  by (induction p) (simp_all add: escapeHTML_keeps)

lemma escapeHTML_quoteASCII: "b < 128 \<Longrightarrow> escapeHTML (quoteASCII b @ t) = quoteASCII b @ escapeHTML t"
proof (rule escapeHTML_ascii)
  assume b: "b < 128"
  have h: "byteval (hexDigit n) < 128 \<and> byteval (hexDigit n) \<noteq> 60 \<and> byteval (hexDigit n) \<noteq> 62 \<and> byteval (hexDigit n) \<noteq> 38"
    if "n < 16" for n
    using hexDigit_hexChar [OF that] by (auto simp: hexChar_def digit_def)
  have "b div 16 < 16" "b mod 16 < 16" using b by auto
  with h [of "b div 16"] h [of "b mod 16"] b
  show "list_all (\<lambda>c. byteval c < 128 \<and> byteval c \<noteq> 60 \<and> byteval c \<noteq> 62 \<and> byteval c \<noteq> 38) (quoteASCII b)"
    by (simp add: quoteASCII_def hexPair_def)
qed

lemma escapeHTML_lead:
  assumes "128 \<le> byteval c" "byteval c \<noteq> 226"
  shows "escapeHTML (c # t) = c # escapeHTML t"
  using assms by (intro escapeHTML_keeps) auto

lemma separator_bytes:
  "multibyte [226, 128, b] r \<Longrightarrow> b = 168 \<Longrightarrow> r = 8232" "multibyte [226, 128, b] r \<Longrightarrow> b = 169 \<Longrightarrow> r = 8233"
  by simp_all

lemma escapeHTML_multi:
  assumes m: "multibyte (map byteval p) r" and r: "r \<noteq> 8232" "r \<noteq> 8233"
  shows "escapeHTML (p @ t) = p @ escapeHTML t"
proof -
  have tail: "escapeHTML (q @ t) = q @ escapeHTML t" if "\<forall>c \<in> set q. 128 \<le> byteval c \<and> byteval c < 192" for q
    using that by (induction q) (auto simp: escapeHTML_lead)
  obtain c q where p: "p = c # q" using multibyte_high(3) [OF m] by (cases p) auto
  have q: "\<forall>c \<in> set q. 128 \<le> byteval c \<and> byteval c < 192" and c: "128 \<le> byteval c"
    using m p by (cases "(map byteval p, r)" rule: multibyte.cases; auto simp: cont_def split: if_splits)+
  show ?thesis
  proof (cases "byteval c = 226")
    case False
    with p c tail [OF q] show ?thesis by (simp add: escapeHTML_lead)
  next
    case True
    with m p obtain a b where ab: "q = [a, b]"
      by (cases "(map byteval p, r)" rule: multibyte.cases) auto
    have "\<not> (byteval a = 128 \<and> (byteval b = 168 \<or> byteval b = 169))"
    proof
      assume "byteval a = 128 \<and> (byteval b = 168 \<or> byteval b = 169)"
      with m p ab True separator_bytes [of "byteval b" r] r show False by auto
    qed
    with True p ab tail [OF q] show ?thesis by (simp add: escapeHTML.simps(2) [of c])
  qed
qed

lemma escapeHTML_quoteText: "escapeHTML (quoteText s) = quoteText s"
proof (induction s rule: chunk_induct)
  case (multi p r t)
  then show ?case
    by (auto simp: quoteText_multi [OF multi(1)] escapeHTML_multi [OF multi(1)] escapeHTML_keeps)
next
  case (invalid c t)
  then show ?case by (simp add: quoteText_invalid escapeHTML_keeps)
qed (simp_all add: quoteText_ascii escapeHTML_quoteASCII)

end
