(* ===== verification/Topics.thy ===== *)
theory Topics
  imports AppConfig Sha256
begin

text \<open>
  Topic names: \<open>TopicSegment\<close> of \<open>internal/envelope/envelope.go\<close>, \<open>joinTopic\<close> and the topic
  methods of \<open>internal/app/topics.go\<close>, and the fleet identifier and discovery topic of
  \<open>internal/app/discovery.go\<close>. A method of \<open>App\<close> that only reads the configuration takes the
  configuration.
\<close>

section \<open>Segments\<close>

definition segRune :: "rune \<Rightarrow> bool" where
  "segRune r \<longleftrightarrow> (97 \<le> r \<and> r \<le> 122) \<or> (48 \<le> r \<and> r \<le> 57) \<or> r = 95 \<or> r = 45"

text \<open>The loop of \<open>TopicSegment\<close>; its state is \<open>lastDash\<close>, its result what it writes to \<open>b\<close>.\<close>

fun segLoop :: "bool \<Rightarrow> rune list \<Rightarrow> string" where
  "segLoop lastDash [] = []"
| "segLoop lastDash (r # rs) =
     (if segRune r then char_of r # segLoop False rs
      else if \<not> lastDash then CHR ''-'' # segLoop True rs
      else segLoop lastDash rs)"

definition TopicSegment :: "string \<Rightarrow> string" where
  "TopicSegment value =
     (let value = TrimSpace (ToLower value);
          out = Trim ''-'' (segLoop False (runes value))
      in if out = '''' then ''default'' else out)"

section \<open>Topics\<close>

definition cleanPart :: "string \<Rightarrow> string list" where
  "cleanPart part =
     concat (map (\<lambda>segment.
       if TrimSpace segment = '''' then []
       else (let segment = TopicSegment segment in if segment \<noteq> '''' then [segment] else []))
     (Split CHR ''/'' part))"

definition joinTopic :: "string list \<Rightarrow> string" where
  "joinTopic parts = Join ''/'' (concat (map cleanPart parts))"

abbreviation topicPrefix :: "AppConfig \<Rightarrow> string" where
  "topicPrefix cfg \<equiv> MQTT_TopicPrefix (MQTT cfg)"

abbreviation machineID :: "AppConfig \<Rightarrow> string" where
  "machineID cfg \<equiv> Machine_ID (Machine cfg)"

definition availabilityTopic :: "AppConfig \<Rightarrow> string" where
  "availabilityTopic cfg = joinTopic [topicPrefix cfg, ''nodes'', machineID cfg, ''availability'']"

definition metaTopic :: "AppConfig \<Rightarrow> string" where
  "metaTopic cfg = joinTopic [topicPrefix cfg, ''nodes'', machineID cfg, ''meta'']"

definition heartbeatTopic :: "AppConfig \<Rightarrow> string" where
  "heartbeatTopic cfg = joinTopic [topicPrefix cfg, ''nodes'', machineID cfg, ''heartbeat'']"

definition eventTopic :: "AppConfig \<Rightarrow> string \<Rightarrow> string" where
  "eventTopic cfg kind = joinTopic [topicPrefix cfg, ''events'', machineID cfg, kind]"

definition snapshotTopic :: "AppConfig \<Rightarrow> string \<Rightarrow> string \<Rightarrow> string" where
  "snapshotTopic cfg kind scope =
     joinTopic [topicPrefix cfg, ''nodes'', machineID cfg, ''snapshots'', kind, scope]"

section \<open>Fleet and discovery\<close>

definition discoveryRoot :: string where
  "discoveryRoot = ''codexbar/discovery/v1''"

definition fleetID :: "string \<Rightarrow> string" where
  "fleetID prefix =
     (let canonical = joinTopic [prefix];
          digest = sha256 (bytes_of canonical)
      in hexEncode (take 8 digest))"

definition discoveryTopic :: "AppConfig \<Rightarrow> string" where
  "discoveryTopic cfg = joinTopic [discoveryRoot, fleetID (topicPrefix cfg), machineID cfg]"

section \<open>Slugs: what a segment can be\<close>

text \<open>
  The grammar of a segment: one or more of \<open>a-z0-9_-\<close>, with no dash at either end.
\<close>

definition slug :: "string \<Rightarrow> bool" where
  "slug s \<longleftrightarrow> s \<noteq> [] \<and> list_all (\<lambda>c. segRune (byteval c)) s \<and> hd s \<noteq> CHR ''-'' \<and> last s \<noteq> CHR ''-''"

lemma segRune_char_of: "segRune r \<Longrightarrow> byteval (char_of r :: char) = r"
  by (auto simp: segRune_def)

lemma segLoop_chars: "list_all (\<lambda>c. segRune (byteval c)) (segLoop d rs)"
  by (induction d rs rule: segLoop.induct) (auto simp: segRune_char_of simp del: of_char_of, auto simp: segRune_def)

lemma slug_default: "slug ''default''"
  by (simp add: slug_def segRune_def)

lemma slug_TopicSegment: "slug (TopicSegment value)"
proof -
  define s where "s = segLoop False (runes (TrimSpace (ToLower value)))"
  have all: "list_all (\<lambda>c. segRune (byteval c)) (Trim ''-'' s)"
    using segLoop_chars set_Trim [of "''-''" s] unfolding s_def list_all_iff by blast
  have "slug (Trim ''-'' s)" if "Trim ''-'' s \<noteq> []"
    using that all Trim_ends [OF that] by (auto simp: slug_def)
  then show ?thesis
    using slug_default by (auto simp: TopicSegment_def s_def Let_def)
qed

section \<open>A slug is a fixed point\<close>

lemma slug_ascii: "list_all (\<lambda>c. segRune (byteval c)) s \<Longrightarrow> list_all asciiChar s"
  by (auto simp: list_all_iff segRune_def asciiChar_def dest!: bspec)

lemma segRune_lower: "segRune r \<Longrightarrow> lowerRune r = r"
  by (auto simp: segRune_def lowerRune_def)

lemma segRune_not_space: "segRune r \<Longrightarrow> \<not> isSpace r"
  by (auto simp: segRune_def isSpace_def)

lemma chunks_slug:
  "list_all (\<lambda>c. segRune (byteval c)) s \<Longrightarrow> chunks s = map (\<lambda>c. (byteval c, [c])) s"
  by (rule chunks_ascii [OF slug_ascii])

lemma concat_singletons [simp]: "concat (map (\<lambda>c. [c]) s) = s"
  by (induction s) simp_all

lemma ToLower_slug: "list_all (\<lambda>c. segRune (byteval c)) s \<Longrightarrow> ToLower s = s"
  by (induction s) (simp_all add: ToLower_def chunks_slug comp_def segRune_lower)

lemma TrimSpace_slug: "list_all (\<lambda>c. segRune (byteval c)) s \<Longrightarrow> TrimSpace s = s"
proof (cases "s = []")
  case False
  assume a: "list_all (\<lambda>c. segRune (byteval c)) s"
  have "\<not> isSpace (byteval (hd s))" "\<not> isSpace (byteval (last s))"
    using a hd_in_set [OF False] last_in_set [OF False] by (auto simp: list_all_iff segRune_not_space)
  then have "trimBy (isSpace \<circ> fst) (chunks s) = chunks s"
    using False a by (intro trimBy_no) (simp_all add: chunks_slug hd_map last_map)
  then show ?thesis by (simp add: TrimSpace_def concat_chunks)
qed (simp add: TrimSpace_def trimBy_def)

lemma segLoop_slug: "list_all (\<lambda>c. segRune (byteval c)) s \<Longrightarrow> segLoop d (map byteval s) = s"
  by (induction s arbitrary: d) auto

lemma TopicSegment_slug:
  assumes "slug s"
  shows "TopicSegment s = s"
proof -
  from assms have a: "list_all (\<lambda>c. segRune (byteval c)) s" and ne: "s \<noteq> []"
    and ends: "hd s \<notin> set ''-''" "last s \<notin> set ''-''"
    by (simp_all add: slug_def)
  show ?thesis
    using a ne Trim_no [OF ends]
    by (simp add: TopicSegment_def ToLower_slug TrimSpace_slug runes_ascii slug_ascii segLoop_slug)
qed

lemma TopicSegment_fixed: "TopicSegment s = s \<longleftrightarrow> slug s"
  by (metis TopicSegment_slug slug_TopicSegment)

text \<open>
  Every segment \<open>TopicSegment\<close> makes is a slug: non-empty, only \<open>a-z0-9_-\<close>, no dash at
  either end, whatever bytes it is given; and the slugs are exactly the strings it leaves
  unchanged, so it is idempotent and no segment has a slash or an MQTT wildcard.
\<close>
theorem topic_segments: "slug (TopicSegment value) \<and> (TopicSegment value = value \<longleftrightarrow> slug value)"
  using slug_TopicSegment TopicSegment_fixed by blast

section \<open>Joined topics\<close>

lemma slug_no_slash: "slug s \<Longrightarrow> CHR ''/'' \<notin> set s"
  by (auto simp: slug_def list_all_iff segRune_def)

lemma slug_nonempty: "slug s \<Longrightarrow> s \<noteq> []"
  by (simp add: slug_def)

lemma slug_TrimSpace: "slug s \<Longrightarrow> TrimSpace s = s"
  by (simp add: slug_def TrimSpace_slug)

text \<open>The segments of a topic: those of its parts, in order.\<close>

abbreviation segments :: "string list \<Rightarrow> string list" where
  "segments parts \<equiv> concat (map cleanPart parts)"

lemma TrimSpace_Nil [simp]: "TrimSpace [] = []"
  by (simp add: TrimSpace_def trimBy_def)

lemma concat_if_singleton: "concat (map (\<lambda>x. if p x then [] else [f x]) xs) = map f (filter (\<lambda>x. \<not> p x) xs)"
  by (induction xs) simp_all

lemma cleanPart_alt:
  "cleanPart part = map TopicSegment (filter (\<lambda>s. TrimSpace s \<noteq> []) (Split CHR ''/'' part))"
proof -
  have "(let s = TopicSegment segment in if s \<noteq> [] then [s] else []) = [TopicSegment segment]" for segment
    using slug_nonempty [OF slug_TopicSegment] by (simp add: Let_def)
  then show ?thesis by (simp only: cleanPart_def concat_if_singleton if_cancel)
qed

lemma slugs_cleanPart: "list_all slug (cleanPart part)"
  by (auto simp: cleanPart_alt list_all_iff slug_TopicSegment)

lemma slugs_segments: "list_all slug (segments parts)"
  using slugs_cleanPart by (auto simp: list_all_iff)

lemma cleanPart_empty [simp]: "cleanPart [] = []"
  by (simp add: cleanPart_alt)

lemma filter_slugs: "list_all slug ss \<Longrightarrow> filter (\<lambda>s. TrimSpace s \<noteq> []) ss = ss"
  by (induction ss) (auto simp: slug_TrimSpace slug_nonempty)

lemma map_slugs: "list_all slug ss \<Longrightarrow> map TopicSegment ss = ss"
  by (induction ss) (auto simp: TopicSegment_slug)

lemma Split_slugs: "list_all slug ss \<Longrightarrow> ss \<noteq> [] \<Longrightarrow> Split CHR ''/'' (Join ''/'' ss) = ss"
  by (rule Split_Join) (auto simp: list_all_iff slug_no_slash)

lemma cleanPart_Join: "list_all slug ss \<Longrightarrow> cleanPart (Join ''/'' ss) = ss"
  by (cases "ss = []") (simp_all add: cleanPart_alt Split_slugs filter_slugs map_slugs)

lemma cleanPart_slug: "slug s \<Longrightarrow> cleanPart s = [s]"
  using cleanPart_Join [of "[s]"] by simp

lemma cleanPart_joinTopic [simp]: "cleanPart (joinTopic parts) = segments parts"
  by (simp add: joinTopic_def cleanPart_Join slugs_segments)

lemma joinTopic_inject: "joinTopic ps = joinTopic qs \<longleftrightarrow> segments ps = segments qs"
  by (metis cleanPart_joinTopic joinTopic_def)

text \<open>
  \<open>joinTopic\<close> is canonical. Its result reads back, split at the slashes, as a list of
  slugs (the empty topic when every part is blank), so it holds no wildcard, no empty level
  and no leading or trailing slash; joining it again, alone or as the prefix of further parts,
  changes nothing.
\<close>
theorem joinTopic_canonical:
  "(joinTopic parts = [] \<or>
      list_all slug (Split CHR ''/'' (joinTopic parts)) \<and>
      joinTopic parts = Join ''/'' (Split CHR ''/'' (joinTopic parts))) \<and>
   joinTopic (joinTopic parts # rest) = joinTopic (parts @ rest)"
proof -
  have "Split CHR ''/'' (joinTopic parts) = segments parts" if "segments parts \<noteq> []"
    using that by (simp add: joinTopic_def Split_slugs slugs_segments)
  then show ?thesis
    using slugs_segments [of parts]
    by (cases "segments parts = []")
      (simp_all add: joinTopic_def cleanPart_Join del: concat_eq_Nil_conv Split.simps)
qed

lemma joinTopic_no_wildcards: "set (joinTopic parts) \<inter> set ''+#'' = {}"
proof -
  have "CHR ''+'' \<notin> set s \<and> CHR ''#'' \<notin> set s" if "slug s" for s
    using that by (auto simp: slug_def list_all_iff segRune_def)
  then show ?thesis
    using set_Join [of "''/''" "segments parts"] slugs_segments [of parts]
    unfolding joinTopic_def list_all_iff by fastforce
qed

section \<open>The topic tree of a fleet\<close>

lemmas topic_defs =
  availabilityTopic_def metaTopic_def heartbeatTopic_def eventTopic_def snapshotTopic_def
  discoveryTopic_def

lemma slug_levels: "slug ''nodes''" "slug ''events''" "slug ''snapshots''" "slug ''availability''"
  "slug ''meta''" "slug ''heartbeat''"
  by (simp_all add: slug_def segRune_def)

text \<open>The topics an agent publishes to, with what each is for.\<close>

datatype topicUse = Availability | Meta | Heartbeat | Event string | Snapshot string string

fun topicFor :: "AppConfig \<Rightarrow> topicUse \<Rightarrow> string" where
  "topicFor cfg Availability = availabilityTopic cfg"
| "topicFor cfg Meta = metaTopic cfg"
| "topicFor cfg Heartbeat = heartbeatTopic cfg"
| "topicFor cfg (Event kind) = eventTopic cfg kind"
| "topicFor cfg (Snapshot kind scope) = snapshotTopic cfg kind scope"

fun slugUse :: "topicUse \<Rightarrow> bool" where
  "slugUse (Event kind) \<longleftrightarrow> slug kind"
| "slugUse (Snapshot kind scope) \<longleftrightarrow> slug kind \<and> slug scope"
| "slugUse _ \<longleftrightarrow> True"



text \<open>
  The fleet identifier is 16 hexadecimal digits and depends only on the topic the prefix
  gives: the prefix and its joined form, with stray slashes, blanks and case gone, have the same
  fleet and put a machine on the same discovery topic.
\<close>
theorem fleetID_normalises:
  "length (fleetID p) = 16 \<and> set (fleetID p) \<subseteq> set ''0123456789abcdef'' \<and>
   fleetID (joinTopic [p]) = fleetID p \<and>
   discoveryTopic (cfg\<lparr>MQTT := (MQTT cfg)\<lparr>MQTT_TopicPrefix := joinTopic [topicPrefix cfg]\<rparr>\<rparr>) =
     discoveryTopic cfg"
  by (simp add: fleetID_def Let_def set_hexEncode discoveryTopic_def joinTopic_def cleanPart_Join
      slugs_cleanPart slugs_segments del: set_simps list.set)

text \<open>
  The identifiers \<open>Validate\<close> accepts do not name a machine: two of them can make the same
  topics, because \<open>TopicSegment\<close> folds the case and turns a dot into a dash.
\<close>
theorem machine_topics_collide:
  "machineIDPattern ''Mac.Book'' \<and> machineIDPattern ''mac-book'' \<and>
   topicFor (cfg\<lparr>Machine := (Machine cfg)\<lparr>Machine_ID := ''Mac.Book''\<rparr>\<rparr>) use =
   topicFor (cfg\<lparr>Machine := (Machine cfg)\<lparr>Machine_ID := ''mac-book''\<rparr>\<rparr>) use"
proof -
  have lower: "ToLower ''Mac.Book'' = ''mac.book''"
    by (simp add: string_eval)
  have trim: "TrimSpace ''mac.book'' = ''mac.book''"
    by (simp add: string_eval)
  have "TopicSegment ''Mac.Book'' = ''mac-book''"
    by (simp add: TopicSegment_def lower trim) (simp add: string_eval segRune_def)
  moreover have "slug ''mac-book''"
    by (simp add: slug_def segRune_def)
  moreover have "TrimSpace ''Mac.Book'' = ''Mac.Book''"
    by (simp add: string_eval)
  ultimately have "cleanPart ''Mac.Book'' = cleanPart ''mac-book''"
    by (simp add: cleanPart_slug) (simp add: cleanPart_alt)
  then have "topicFor (cfg\<lparr>Machine := (Machine cfg)\<lparr>Machine_ID := ''Mac.Book''\<rparr>\<rparr>) use =
      topicFor (cfg\<lparr>Machine := (Machine cfg)\<lparr>Machine_ID := ''mac-book''\<rparr>\<rparr>) use"
    by (cases use) (simp_all add: topic_defs joinTopic_inject)
  then show ?thesis
    by (simp add: machineIDPattern_def alnumRune_def idRune_def)
qed

end
