(* ===== verification/Envelope.thy ===== *)
theory Envelope
  imports GoTime Compact Topics "HOL-Library.List_Lexorder" "HOL-Library.Char_ord"
begin

text \<open>
  \<open>internal/envelope/envelope.go\<close>: observations, how they are made and their JSON text. A map
  from strings to strings is an association list with distinct keys, in any order; a nil map or
  slice is the empty one, and a payload is the text of a \<open>json.RawMessage\<close>.
\<close>

section \<open>Data\<close>

definition Schema :: string where
  "Schema = ''io.github.mplummeridge.codexbar_mqtt.observation.v1''"

record Machine =
  ID :: string
  Name :: string
  Hostname :: string
  Tags :: tags

record Agent =
  Version :: string
  Commit :: string
  BuildDate :: string

record Collection =
  Transport :: string
  Operation :: string
  SemanticScope :: string
  CorrelationID :: string
  Phase :: string
  StartedAt :: instant
  FinishedAt :: instant
  Endpoint :: string
  Query :: "(string \<times> string) list"
  Command :: "string list"
  ExitCode :: "int option"
  DurationMS :: int
  ContentType :: string
  Success :: bool
  Error :: string
  Stderr :: string

record Observation =
  obsSchema :: string
  EventID :: string
  Kind :: string
  SnapshotScope :: string
  ObservedAt :: instant
  obsMachine :: Machine
  obsAgent :: Agent
  obsCollection :: Collection
  PayloadSHA256 :: string
  Payload :: string

record ErrorPayload =
  Job :: string
  errText :: string
  Retryable :: bool

section \<open>Making observations\<close>

fun hexString :: "nat \<Rightarrow> string" where
  "hexString n = (if n < 16 then [hexDigit n] else hexString (n div 16) @ [hexDigit (n mod 16)])"

declare hexString.simps [simp del]

text \<open>The clock in nanoseconds since 1970 and eight random bytes, unless there are none.\<close>

type_synonym idSource = "nat \<times> bytes option"

definition newEventID :: "idSource \<Rightarrow> string" where
  "newEventID source =
     (case source of
        (nanos, None) \<Rightarrow> hexString nanos @ ''-'' @ natString (nanos div 10 ^ 9)
      | (nanos, Some random) \<Rightarrow>
          (let s = hexString nanos in replicate (16 - length s) CHR ''0'' @ s @ ''-'' @ hexEncode random))"

definition newObservation ::
    "instant \<Rightarrow> idSource \<Rightarrow> string \<Rightarrow> string \<Rightarrow> Machine \<Rightarrow> Agent \<Rightarrow> Collection \<Rightarrow> string \<Rightarrow> Observation" where
  "newObservation now source kind scope machine agent collection payload =
     (let observedAt = (if FinishedAt collection = 0 then now else FinishedAt collection);
          obs = \<lparr>obsSchema = Schema, EventID = newEventID source, Kind = kind, SnapshotScope = scope,
                 ObservedAt = observedAt, obsMachine = machine, obsAgent = agent,
                 obsCollection = collection, PayloadSHA256 = '''', Payload = ''''\<rparr>
      in if length payload > 0
         then obs\<lparr>Payload := payload, PayloadSHA256 := hexEncode (sha256 (bytes_of payload))\<rparr>
         else obs)"

section \<open>JSON text\<close>

abbreviation jtext :: "string \<Rightarrow> json" where
  "jtext s \<equiv> JStr (quoteText s)"

text \<open>The members that \<open>omitempty\<close> leaves out.\<close>

definition omitText :: "string \<Rightarrow> string \<Rightarrow> (string \<times> json) list" where
  "omitText k s = (if s = '''' then [] else [(k, jtext s)])"

definition stringMap :: "(string \<times> string) list \<Rightarrow> json" where
  "stringMap m = JObj (map (\<lambda>(k, v). (quoteText k, jtext v)) (sort_key fst m))"

definition omitMap :: "string \<Rightarrow> (string \<times> string) list \<Rightarrow> (string \<times> json) list" where
  "omitMap k m = (if m = [] then [] else [(k, stringMap m)])"

definition omitTexts :: "string \<Rightarrow> string list \<Rightarrow> (string \<times> json) list" where
  "omitTexts k ss = (if ss = [] then [] else [(k, JArr (map jtext ss))])"

definition omitInt :: "string \<Rightarrow> int option \<Rightarrow> (string \<times> json) list" where
  "omitInt k i = (case i of None \<Rightarrow> [] | Some i \<Rightarrow> [(k, JNum (intString i))])"

definition machineJson :: "Machine \<Rightarrow> json" where
  "machineJson m =
     JObj ([(''id'', jtext (ID m))] @ omitText ''name'' (Name m) @ omitText ''hostname'' (Hostname m) @
       omitMap ''tags'' (Tags m))"

definition agentJson :: "Agent \<Rightarrow> json" where
  "agentJson a =
     JObj ([(''version'', jtext (Version a))] @ omitText ''commit'' (Commit a) @
       omitText ''build_date'' (BuildDate a))"

datatype marshal_error = YearOutOfRange | InvalidRawMessage

text \<open>\<open>omitempty\<close> never leaves out a \<open>time.Time\<close>, which is a struct.\<close>

definition collectionJson :: "Collection \<Rightarrow> json option" where
  "collectionJson c =
     (case (marshalTime (StartedAt c), marshalTime (FinishedAt c)) of
        (Some started, Some finished) \<Rightarrow>
          Some (JObj ([(''transport'', jtext (Transport c)), (''operation'', jtext (Operation c)),
             (''semantic_scope'', jtext (SemanticScope c))] @
            omitText ''correlation_id'' (CorrelationID c) @ omitText ''phase'' (Phase c) @
            [(''started_at'', started), (''finished_at'', finished)] @
            omitText ''endpoint'' (Endpoint c) @ omitMap ''query'' (Query c) @
            omitTexts ''command'' (Command c) @ omitInt ''exit_code'' (ExitCode c) @
            [(''duration_ms'', JNum (intString (DurationMS c)))] @
            omitText ''content_type'' (ContentType c) @ [(''success'', JBool (Success c))] @
            omitText ''error'' (Error c) @ omitText ''stderr'' (Stderr c)))
      | _ \<Rightarrow> None)"

definition observationJson :: "Observation \<Rightarrow> marshal_error + json" where
  "observationJson o1 =
     (case (marshalTime (ObservedAt o1), collectionJson (obsCollection o1)) of
        (Some observed, Some collection) \<Rightarrow>
          (let front = [(''schema'', jtext (obsSchema o1)), (''event_id'', jtext (EventID o1)),
               (''kind'', jtext (Kind o1)), (''snapshot_scope'', jtext (SnapshotScope o1)),
               (''observed_at'', observed), (''machine'', machineJson (obsMachine o1)),
               (''agent'', agentJson (obsAgent o1)), (''collection'', collection)] @
               omitText ''payload_sha256'' (PayloadSHA256 o1)
           in if Payload o1 = '''' then Inr (JObj front)
              else (case rawMessage (Payload o1) of
                 None \<Rightarrow> Inl InvalidRawMessage
               | Some v \<Rightarrow> Inr (JObj (front @ [(''payload'', v)]))))
      | _ \<Rightarrow> Inl YearOutOfRange)"

definition Marshal :: "Observation \<Rightarrow> marshal_error + string" where
  "Marshal o1 = map_sum id renderJson (observationJson o1)"

definition errorPayloadJson :: "ErrorPayload \<Rightarrow> json" where
  "errorPayloadJson p =
     JObj [(''job'', jtext (Job p)), (''error'', jtext (errText p)), (''retryable'', JBool (Retryable p))]"

definition newErrorObservation ::
    "instant \<Rightarrow> idSource \<Rightarrow> string \<Rightarrow> string \<Rightarrow> Machine \<Rightarrow> Agent \<Rightarrow> Collection \<Rightarrow> string \<Rightarrow>
       string option \<Rightarrow> bool \<Rightarrow> Observation" where
  "newErrorObservation now source kind scope machine agent collection job err retryable =
     (let collection = collection\<lparr>Success := False\<rparr>;
          collection = (case err of None \<Rightarrow> collection | Some e \<Rightarrow> collection\<lparr>Error := e\<rparr>);
          payload = renderJson (errorPayloadJson \<lparr>Job = job, errText = Error collection, Retryable = retryable\<rparr>)
      in newObservation now source kind scope machine agent collection payload)"

section \<open>Observations are valid JSON\<close>

lemma wfStr_literal: "list_all plain s \<Longrightarrow> wfStr s"
  by (rule through_wfStr [OF through_plain])

lemma plain_digit: "digit c \<Longrightarrow> plain c"
  by (auto simp: plain_def digit_def)

lemma plain_padInt: "list_all plain (padInt k n)"
proof -
  have "list_all plain (natString (nat n))"
    using natString_digits [of "nat n"] plain_digit unfolding list_all_iff by blast
  moreover have "plain CHR ''0''" by (simp add: plain_def)
  ultimately show ?thesis by (auto simp: padInt_def Let_def list_all_iff)
qed

lemma plain_fraction: "list_all plain (fraction n)"
proof -
  have "plain c" if "c \<in> set (trimZeros (padInt 9 n))" for c
  proof -
    from that have "c \<in> set (padInt 9 n)"
      by (auto simp: trimZeros_def dest: set_dropWhileD)
    with plain_padInt [of 9 n] show ?thesis by (simp add: list_all_iff)
  qed
  then have "list_all plain (trimZeros (padInt 9 n))" by (simp add: list_all_iff)
  then show ?thesis by (simp add: fraction_def plain_def)
qed

lemma wfStr_formatTime: "wfStr (formatTime t)"
  by (rule wfStr_literal)
    (simp add: formatTime_def Let_def split_beta plain_padInt plain_fraction, simp add: plain_def)

lemma wfJson_time: "marshalTime t = Some v \<Longrightarrow> wfJson d v"
  by (auto simp: marshalTime_def wfStr_formatTime split: if_splits)

lemma wfMembers_omit:
  "wfStr k \<Longrightarrow> list_all (\<lambda>(k, v). wfStr k \<and> wfJson d v) (omitText k s)"
  "wfStr k \<Longrightarrow> 0 < d \<Longrightarrow> list_all (\<lambda>(k, v). wfStr k \<and> wfJson d v) (omitMap k m)"
  "wfStr k \<Longrightarrow> 0 < d \<Longrightarrow> list_all (\<lambda>(k, v). wfStr k \<and> wfJson d v) (omitTexts k ss)"
  "wfStr k \<Longrightarrow> list_all (\<lambda>(k, v). wfStr k \<and> wfJson d v) (omitInt k j)"
  by (auto simp: omitText_def omitMap_def stringMap_def omitTexts_def omitInt_def wfStr_quoteText
      wfNum_intString list_all_iff split: option.splits)

lemmas wfJson_parts = wfMembers_omit wfStr_quoteText wfStr_literal plain_def wfNum_intString

lemma wfJson_machine: "1 < d \<Longrightarrow> wfJson d (machineJson m)"
  by (simp add: machineJson_def wfJson_parts)

lemma wfJson_agent: "0 < d \<Longrightarrow> wfJson d (agentJson a)"
  by (simp add: agentJson_def wfJson_parts)

lemma wfJson_collection:
  assumes "collectionJson c = Some v" "1 < d"
  shows "wfJson d v"
proof -
  from assms(1) obtain s f where "marshalTime (StartedAt c) = Some s" "marshalTime (FinishedAt c) = Some f"
    by (auto simp: collectionJson_def split: option.splits)
  with assms wfJson_time [of _ s "d - 1"] wfJson_time [of _ f "d - 1"] show ?thesis
    by (auto simp: collectionJson_def wfJson_parts)
qed

lemma wfJson_observation:
  assumes "observationJson o1 = Inr v"
    and "\<And>p. parseJson (Payload o1) = Some p \<Longrightarrow> wfJson (d - 1) p" and "2 < d"
  shows "wfJson d v"
proof -
  from assms(1) obtain observed c where t: "marshalTime (ObservedAt o1) = Some observed"
    "collectionJson (obsCollection o1) = Some c"
    by (auto simp: observationJson_def split: option.splits)
  have parts: "wfJson (d - 1) observed" "wfJson (d - 1) c" "wfJson (d - 1) (machineJson (obsMachine o1))"
    "wfJson (d - 1) (agentJson (obsAgent o1))"
    using t assms(3) by (simp_all add: wfJson_time wfJson_collection wfJson_machine wfJson_agent)
  show ?thesis
  proof (cases "Payload o1 = ''''")
    case True
    with assms t parts show ?thesis
      by (auto simp: observationJson_def Let_def wfJson_parts)
  next
    case False
    with assms(1) t obtain p where p: "parseJson (Payload o1) = Some p"
      by (auto simp: observationJson_def Let_def rawMessage_def split: option.splits)
    with assms(2) have "wfJson (d - 1) (compactJson p)" by (simp add: wfJson_compact)
    with False assms t parts p show ?thesis
      by (auto simp: observationJson_def Let_def rawMessage_def wfJson_parts)
  qed
qed

section \<open>What a reader of an observation finds\<close>

definition timely :: "instant \<Rightarrow> Collection \<Rightarrow> bool" where
  "timely now c \<longleftrightarrow>
     marshalTime now \<noteq> None \<and> marshalTime (StartedAt c) \<noteq> None \<and> marshalTime (FinishedAt c) \<noteq> None"

definition member :: "string \<Rightarrow> json option \<Rightarrow> json option" where
  "member k v = (case v of Some (JObj ms) \<Rightarrow> map_of ms k | _ \<Rightarrow> None)"

lemma observation_members:
  assumes "parseJson payload = Some v" "wfJson (maxNestingDepth - 1) v" "timely now c"
  shows "\<exists>t. Marshal (newObservation now source kind scope machine agent c payload) = Inr t \<and>
    member ''schema'' (parseJson t) = Some (jtext Schema) \<and>
    member ''kind'' (parseJson t) = Some (jtext kind) \<and>
    member ''snapshot_scope'' (parseJson t) = Some (jtext scope) \<and>
    member ''success'' (member ''collection'' (parseJson t)) = Some (JBool (Success c)) \<and>
    member ''payload'' (parseJson t) = Some (compactJson v) \<and>
    member ''payload_sha256'' (parseJson t) = Some (jtext (hexEncode (sha256 (bytes_of payload))))"
proof -
  let ?o = "newObservation now source kind scope machine agent c payload"
  have "payload \<noteq> ''''"
    using assms(1) by (auto simp: parseJson_def scan_unfold skipSpace_def)
  then have o: "Payload ?o = payload" "PayloadSHA256 ?o = hexEncode (sha256 (bytes_of payload))"
    "obsSchema ?o = Schema" "Kind ?o = kind" "SnapshotScope ?o = scope" "obsCollection ?o = c"
    "ObservedAt ?o = (if FinishedAt c = 0 then now else FinishedAt c)"
    by (simp_all add: newObservation_def Let_def)
  have digest: "PayloadSHA256 ?o \<noteq> ''''"
    using length_hexEncode [of "sha256 (bytes_of payload)"] unfolding o by (metis length_sha256 list.size(3) mult_eq_0_iff zero_neq_numeral)
  obtain s f ob where t: "marshalTime (StartedAt c) = Some s" "marshalTime (FinishedAt c) = Some f"
    "marshalTime (ObservedAt ?o) = Some ob"
    using assms(3) o(7) by (cases "FinishedAt c = 0") (auto simp: timely_def)
  then obtain cm where cj: "collectionJson c = Some (JObj cm)" and ok: "map_of cm ''success'' = Some (JBool (Success c))"
    by (simp add: collectionJson_def omitText_def omitMap_def omitTexts_def omitInt_def split: option.split)
  from t cj o(1,6) \<open>payload \<noteq> ''''\<close> assms(1) obtain j where j: "observationJson ?o = Inr j"
    by (simp add: observationJson_def Let_def rawMessage_def)
  have "wfJson maxNestingDepth j"
    using wfJson_observation [OF j, of maxNestingDepth] assms(1,2) o(1) by (simp add: maxNestingDepth_def)
  then have "parseJson (renderJson j) = Some j" by (rule parse_render)
  moreover have "Marshal ?o = Inr (renderJson j)" using j by (simp add: Marshal_def)
  moreover have "member ''schema'' (Some j) = Some (jtext Schema)" "member ''kind'' (Some j) = Some (jtext kind)"
    "member ''snapshot_scope'' (Some j) = Some (jtext scope)"
    "member ''collection'' (Some j) = Some (JObj cm)" "member ''payload'' (Some j) = Some (compactJson v)"
    "member ''payload_sha256'' (Some j) = Some (jtext (hexEncode (sha256 (bytes_of payload))))"
    using j t cj o assms(1) digest \<open>payload \<noteq> ''''\<close>
    by (auto simp: observationJson_def Let_def rawMessage_def member_def omitText_def)
  moreover have "member ''success'' (Some (JObj cm)) = Some (JBool (Success c))"
    using ok by (simp add: member_def)
  ultimately show ?thesis by (intro exI [of _ "renderJson j"]) simp
qed


text \<open>A response of the health endpoint, with a space that is not published.\<close>

definition exampleMachine :: Machine where
  "exampleMachine = \<lparr>ID = ''m4'', Name = '''', Hostname = ''m4.local'', Tags = [(''room'', ''study'')]\<rparr>"

definition exampleAgent :: Agent where
  "exampleAgent = \<lparr>Version = ''0.1.0'', Commit = '''', BuildDate = ''''\<rparr>"

definition exampleCollection :: Collection where
  "exampleCollection =
     \<lparr>Transport = ''http'', Operation = ''health'', SemanticScope = ''machine_runtime_health'',
      CorrelationID = '''', Phase = '''', StartedAt = 63885596800000000000, FinishedAt = 63885596801000000000,
      Endpoint = ''/health'', Query = [], Command = [], ExitCode = None, DurationMS = 1000,
      ContentType = ''application/json'', Success = True, Error = '''', Stderr = ''''\<rparr>"

lemma example_timely: "timely 63885596802000000000 exampleCollection"
  by (simp add: timely_def exampleCollection_def marshalTime_def year_def yearAndDay_def
      daysPer400Years_def daysPer100Years_def daysPer4Years_def Let_def)

lemma example_parse: "parseJson ''{ }'' = Some (JObj [])"
  by (simp add: parseJson_def scan_unfold skipSpace_def jsonSpace_def maxNestingDepth_def eval_nat_numeral)


lemma error_members:
  assumes "timely now c" "validText e"
  shows "\<exists>t p raw. Marshal (newErrorObservation now source kind scope machine agent c job (Some e) retry) = Inr t \<and>
    member ''success'' (member ''collection'' (parseJson t)) = Some (JBool False) \<and>
    member ''payload'' (parseJson t) = Some p \<and>
    member ''job'' (Some p) = Some (jtext job) \<and>
    member ''retryable'' (Some p) = Some (JBool retry) \<and>
    member ''error'' (Some p) = Some (JStr raw) \<and> unquoteText raw = e"
proof -
  let ?c = "c\<lparr>Success := False, Error := e\<rparr>"
  let ?p = "errorPayloadJson \<lparr>Job = job, errText = e, Retryable = retry\<rparr>"
  have t: "timely now ?c" using assms(1) by (simp add: timely_def)
  have w: "wfJson (Suc d) ?p" for d
    by (simp add: errorPayloadJson_def wfJson_parts)
  have deep: "maxNestingDepth = Suc 9999" "maxNestingDepth - 1 = Suc 9998" by (simp_all add: maxNestingDepth_def)
  have parse: "parseJson (renderJson ?p) = Some ?p"
    by (rule parse_render) (simp only: deep w)
  have "compactJson ?p = ?p"
    by (simp add: errorPayloadJson_def escapeHTML_quoteText) (simp add: escapeHTML_keeps)
  moreover have "newErrorObservation now source kind scope machine agent c job (Some e) retry =
      newObservation now source kind scope machine agent ?c (renderJson ?p)"
    by (simp add: newErrorObservation_def Let_def)
  moreover have "wfJson (maxNestingDepth - 1) ?p"
    unfolding deep(2) by (rule w)
  ultimately show ?thesis
    using observation_members [OF parse _ t, of source kind scope machine agent] assms(2)
    by (auto simp: member_def errorPayloadJson_def unquote_quoteText)
qed



end
