(* ===== verification/CodexBar.thy ===== *)
theory CodexBar
  imports Url GoTime
begin

text \<open>
  \<open>internal/codexbar\<close>: the HTTP client of \<open>client.go\<close>, the command runner of \<open>runner.go\<close> and the
  supervisor of \<open>supervisor.go\<close>. What the server sends, how a process ends and what the file
  system says are parameters. An error carries what its text is made of.
\<close>

section \<open>The HTTP client\<close>

record HTTPClient =
  baseURL :: string
  clientTimeout :: duration

definition NewHTTPClient :: "string \<Rightarrow> duration \<Rightarrow> HTTPClient" where
  "NewHTTPClient base timeout =
     \<lparr>baseURL = TrimRight ''/'' base, clientTimeout = (if timeout \<le> 0 then 90 * second else timeout)\<rparr>"

record HTTPResponse =
  respPayload :: string
  respStatusCode :: int
  respContentType :: string
  respStartedAt :: instant
  respFinishedAt :: instant
  respDuration :: duration

datatype fetchError =
    BadURL string
  | BadRequest string
  | DoFailed string
  | ReadFailed string
  | TooLarge
  | InvalidJSON
  | HTTPStatusError int string

fun fetchErrorText :: "fetchError \<Rightarrow> string" where
  "fetchErrorText (BadURL e) = e"
| "fetchErrorText (BadRequest e) = e"
| "fetchErrorText (DoFailed e) = e"
| "fetchErrorText (ReadFailed e) = e"
| "fetchErrorText TooLarge = ''CodexBar response exceeds 64 MiB''"
| "fetchErrorText InvalidJSON = ''CodexBar returned invalid JSON''"
| "fetchErrorText (HTTPStatusError code body) = ''CodexBar HTTP status '' @ intString code @ '': '' @ body"

text \<open>What the server answers: a status, a content type and a body, whose reading may fail.\<close>

record reply =
  replyStatus :: int
  replyContentType :: string
  replyBody :: string
  replyReadErr :: "string option"

text \<open>
  One exchange: the texts of the errors of \<open>url.Parse\<close> and \<open>http.NewRequest\<close>, the outcome of
  \<open>client.Do\<close> for a URL, and the clock before and after it.
\<close>

record exchange =
  parseErrText :: "string \<Rightarrow> string"
  requestErr :: "URL \<Rightarrow> string option"
  doRequest :: "URL \<Rightarrow> string + reply"
  startedAt :: instant
  finishedAt :: instant

definition maxBody :: nat where
  "maxBody = 64 * 1024 * 1024"

text \<open>The entries of the query that are not empty are set over those of the URL.\<close>

definition queryFor :: "(string \<times> string) list \<Rightarrow> queryValues \<Rightarrow> queryValues" where
  "queryFor query vals = fold (\<lambda>(k, v) m. if v \<noteq> '''' then setValue k v m else m) query vals"

definition emptyResponse :: HTTPResponse where
  "emptyResponse =
     \<lparr>respPayload = '''', respStatusCode = 0, respContentType = '''', respStartedAt = 0,
      respFinishedAt = 0, respDuration = 0\<rparr>"

definition requestURL :: "HTTPClient \<Rightarrow> string \<Rightarrow> (string \<times> string) list \<Rightarrow> URL option" where
  "requestURL c path query =
     map_option
       (\<lambda>u. u\<lparr>url_RawQuery := encodeValues (queryFor query (parseQuery (url_RawQuery u)))\<rparr>)
       (parseURL (baseURL c @ path))"

definition Fetch ::
    "exchange \<Rightarrow> HTTPClient \<Rightarrow> string \<Rightarrow> (string \<times> string) list \<Rightarrow> HTTPResponse \<times> fetchError option" where
  "Fetch x c path query =
     (case requestURL c path query of
        None \<Rightarrow> (emptyResponse, Some (BadURL (parseErrText x (baseURL c @ path))))
      | Some u \<Rightarrow>
          (case requestErr x u of
                Some e \<Rightarrow> (emptyResponse, Some (BadRequest e))
              | None \<Rightarrow>
                  (let timed = emptyResponse\<lparr>respStartedAt := startedAt x, respFinishedAt := finishedAt x,
                         respDuration := finishedAt x - startedAt x\<rparr>
                   in case doRequest x u of
                        Inl e \<Rightarrow> (timed, Some (DoFailed e))
                      | Inr r \<Rightarrow>
                          (let body = take (maxBody + 1) (replyBody r);
                               coded = timed\<lparr>respStatusCode := replyStatus r\<rparr>;
                               typed = coded\<lparr>respContentType := replyContentType r\<rparr>;
                               result = typed\<lparr>respPayload := body\<rparr>
                           in case replyReadErr r of
                                Some e \<Rightarrow> (typed, Some (ReadFailed e))
                              | None \<Rightarrow>
                                  if length body > maxBody then (coded, Some TooLarge)
                                  else if \<not> validJson body then (result, Some InvalidJSON)
                                  else if replyStatus r < 200 \<or> replyStatus r \<ge> 300 then
                                    (let excerpt = TrimSpace body
                                     in (result, Some (HTTPStatusError (replyStatus r)
                                          (if length excerpt > 1024 then take 1024 excerpt else excerpt))))
                                  else (result, None)))))"

definition Healthy :: "exchange \<Rightarrow> HTTPClient \<Rightarrow> bool" where
  "Healthy x c =
     (case Fetch x c ''/health'' [] of (resp, err) \<Rightarrow> err = None \<and> respStatusCode resp = 200)"

section \<open>The command runner\<close>

record Runner =
  runBinary :: string
  runTimeout :: duration

record CommandResponse =
  cmdPayload :: string
  cmdStderr :: string
  cmdExitCode :: int
  cmdStartedAt :: instant
  cmdFinishedAt :: instant
  cmdDuration :: duration
  cmdCommand :: "string list"

datatype processEnd = Succeeded | ExitError int | OtherError string

record process =
  procStdout :: string
  procStderr :: string
  procEnd :: processEnd
  procStarted :: instant
  procFinished :: instant

datatype runError = CommandFailed int string | CommandInvalidJSON | CommandExited int

fun runErrorText :: "runError \<Rightarrow> string" where
  "runErrorText (CommandFailed code err) = ''CodexBar command failed (exit '' @ intString code @ ''): '' @ TrimSpace err"
| "runErrorText CommandInvalidJSON = ''CodexBar command returned invalid JSON''"
| "runErrorText (CommandExited code) = ''CodexBar command exited '' @ intString code"

definition boundedString :: "string \<Rightarrow> nat \<Rightarrow> string" where
  "boundedString value mx =
     (let value = TrimSpace value
      in if length value > mx then take mx value @ map char_of [226, 128, 166 :: nat] else value)"

definition exitCodeOf :: "processEnd \<Rightarrow> int" where
  "exitCodeOf e = (case e of Succeeded \<Rightarrow> 0 | ExitError code \<Rightarrow> code | OtherError _ \<Rightarrow> - 1)"

definition runTimeoutFor :: "Runner \<Rightarrow> duration \<Rightarrow> duration" where
  "runTimeoutFor r dflt = (if runTimeout r \<le> 0 then dflt else runTimeout r)"

text \<open>
  \<open>RunJSON\<close>: \<open>run\<close> gives how the process ends, for the command and the time it may take.
\<close>

definition RunJSON ::
    "(duration \<Rightarrow> string list \<Rightarrow> process) \<Rightarrow> Runner \<Rightarrow> string list \<Rightarrow> CommandResponse \<times> runError option" where
  "RunJSON run r args =
     (let p = run (runTimeoutFor r (120 * second)) (runBinary r # args);
          exitCode = exitCodeOf (procEnd p);
          response =
            \<lparr>cmdPayload = procStdout p, cmdStderr = boundedString (procStderr p) 16384,
             cmdExitCode = exitCode, cmdStartedAt = procStarted p, cmdFinishedAt = procFinished p,
             cmdDuration = procFinished p - procStarted p, cmdCommand = runBinary r # args\<rparr>
      in if \<not> validJson (cmdPayload response) then
           (if procEnd p \<noteq> Succeeded then (response, Some (CommandFailed exitCode (cmdStderr response)))
            else (response, Some CommandInvalidJSON))
         else if procEnd p \<noteq> Succeeded then (response, Some (CommandExited exitCode))
         else (response, None))"

text \<open>\<open>Version\<close>: the text of the error of the process, or its output.\<close>

definition runnerVersion ::
    "(duration \<Rightarrow> string list \<Rightarrow> string + string) \<Rightarrow> Runner \<Rightarrow> string + string" where
  "runnerVersion run r =
     (case run (runTimeoutFor r (15 * second)) [runBinary r, ''--version''] of
        Inl e \<Rightarrow> Inl e
      | Inr output \<Rightarrow> Inr (TrimSpace output))"

record fileInfo =
  infoIsDir :: bool
  infoMode :: nat

record host =
  lookPath :: "string option"
  darwin :: bool
  absPath :: "string \<Rightarrow> string option"
  statFile :: "string \<Rightarrow> fileInfo option"

definition executable :: "host \<Rightarrow> string \<Rightarrow> bool" where
  "executable h path =
     (case statFile h path of
        None \<Rightarrow> False
      | Some info \<Rightarrow> \<not> infoIsDir info \<and>
          (odd (infoMode info div 64) \<or> odd (infoMode info div 8) \<or> odd (infoMode info)))"

definition binaryCandidates :: "host \<Rightarrow> string \<Rightarrow> string list" where
  "binaryCandidates h configured =
     (if configured \<noteq> '''' then [configured] else []) @
     (case lookPath h of Some path \<Rightarrow> [path] | None \<Rightarrow> []) @
     (if darwin h
      then [''/opt/homebrew/bin/codexbar'', ''/usr/local/bin/codexbar'',
            ''/Applications/CodexBar.app/Contents/Helpers/CodexBarCLI'']
      else [])"

fun discoverLoop :: "host \<Rightarrow> string list \<Rightarrow> string list \<Rightarrow> string option" where
  "discoverLoop h seen [] = None"
| "discoverLoop h seen (candidate # rest) =
     (if candidate = '''' then discoverLoop h seen rest
      else (case absPath h candidate of
        None \<Rightarrow> discoverLoop h seen rest
      | Some absolute \<Rightarrow>
          if absolute \<in> set seen then discoverLoop h seen rest
          else if executable h absolute then Some absolute
          else discoverLoop h (absolute # seen) rest))"

definition DiscoverBinary :: "host \<Rightarrow> string \<Rightarrow> string option" where
  "DiscoverBinary h configured = discoverLoop h [] (binaryCandidates h configured)"

section \<open>The supervisor\<close>

text \<open>
  \<open>Run\<close> at the points where it waits: the health check at the top of the loop, the five seconds
  after a good one, \<open>cmd.Start\<close>, \<open>cmd.Wait\<close> and the pause before the next turn. \<open>svCmd\<close> is the
  field \<open>cmd\<close>, which \<open>stop\<close> reads; \<open>svSignalled\<close> are the processes it sent \<open>SIGTERM\<close>, and
  \<open>svRunning\<close> the one that is alive. \<open>exec.CommandContext\<close> kills it when the context ends.
\<close>

datatype svPhase = Top | HealthyPause | Starting | Waiting nat | BackingOff | Returned

record Supervisor =
  svPhase :: svPhase
  svBackoff :: duration
  svCmd :: "nat option"
  svRunning :: "nat option"
  svSignalled :: "nat list"
  svStarts :: nat

definition newSupervisor :: Supervisor where
  "newSupervisor =
     \<lparr>svPhase = Top, svBackoff = second, svCmd = None, svRunning = None, svSignalled = [], svStarts = 0\<rparr>"

definition stopServe :: "Supervisor \<Rightarrow> Supervisor" where
  "stopServe s = (case svCmd s of None \<Rightarrow> s | Some pid \<Rightarrow> s\<lparr>svSignalled := svSignalled s @ [pid]\<rparr>)"

definition growBackoff :: "Supervisor \<Rightarrow> Supervisor" where
  "growBackoff s = s\<lparr>svBackoff := min (svBackoff s * 2) (30 * second)\<rparr>"

datatype svEvent =
    Cancelled
  | HealthChecked bool
  | SleptEnough
  | StartFailed
  | Started nat
  | Exited

text \<open>\<open>Cancelled\<close> is the end of the context, noticed where the code looks at it.\<close>

fun svStep :: "Supervisor \<Rightarrow> svEvent \<Rightarrow> Supervisor option" where
  "svStep s e =
     (case (svPhase s, e) of
        (Top, Cancelled) \<Rightarrow> Some ((stopServe s)\<lparr>svPhase := Returned\<rparr>)
      | (Top, HealthChecked healthy) \<Rightarrow> Some (s\<lparr>svPhase := if healthy then HealthyPause else Starting\<rparr>)
      | (HealthyPause, SleptEnough) \<Rightarrow> Some (s\<lparr>svPhase := Top\<rparr>)
      | (HealthyPause, Cancelled) \<Rightarrow> Some ((stopServe s)\<lparr>svPhase := Returned\<rparr>)
      | (Starting, StartFailed) \<Rightarrow> Some (s\<lparr>svPhase := BackingOff\<rparr>)
      | (Starting, Started pid) \<Rightarrow>
          Some (s\<lparr>svPhase := Waiting pid, svCmd := Some pid, svRunning := Some pid, svStarts := svStarts s + 1\<rparr>)
      | (Waiting pid, Exited) \<Rightarrow> Some (s\<lparr>svPhase := BackingOff, svCmd := None, svRunning := None\<rparr>)
      | (Waiting pid, Cancelled) \<Rightarrow> Some (s\<lparr>svPhase := Returned, svCmd := None, svRunning := None\<rparr>)
      | (BackingOff, SleptEnough) \<Rightarrow> Some ((growBackoff s)\<lparr>svPhase := Top\<rparr>)
      | (BackingOff, Cancelled) \<Rightarrow> Some (s\<lparr>svPhase := Returned\<rparr>)
      | _ \<Rightarrow> None)"

declare svStep.simps [simp del]

fun svRun :: "Supervisor \<Rightarrow> svEvent list \<Rightarrow> Supervisor option" where
  "svRun s [] = Some s"
| "svRun s (e # es) = (case svStep s e of None \<Rightarrow> None | Some t \<Rightarrow> svRun t es)"

definition serveArgs :: "int \<Rightarrow> int \<Rightarrow> int \<Rightarrow> string list" where
  "serveArgs port refresh timeout =
     [''serve'', ''--port'', intString port, ''--refresh-interval'', intString refresh,
      ''--request-timeout'', intString timeout, ''--json-output'', ''--log-level'', ''warning'']"

section \<open>What is asked for\<close>

lemma queryFor_wf: "wfValues m \<Longrightarrow> wfValues (queryFor query m)"
  unfolding queryFor_def by (induction query arbitrary: m) (auto simp: wfValues_set)

lemma queryFor_lookup:
  "distinct (map fst query) \<Longrightarrow>
   map_of (queryFor query m) k =
     (case map_of query k of None \<Rightarrow> map_of m k | Some v \<Rightarrow> if v = '''' then map_of m k else Some [v])"
  unfolding queryFor_def
proof (induction query arbitrary: m)
  case (Cons p query)
  obtain j v where p: "p = (j, v)" by (cases p)
  from Cons.prems p have "map_of query j = None" by (auto simp: map_of_eq_None_iff)
  with Cons.IH [of "if v \<noteq> '''' then setValue j v m else m"] Cons.prems p show ?case
    by (auto simp: setValue_lookup split: option.splits)
qed simp

text \<open>
  C29: The request asks for what the caller wants: a server that parses the query of the URL
  finds every non-empty entry of the caller's query with its value, whatever characters it has,
  in place of any of that name in the configured URL, and beside them the URL's other entries.
\<close>
theorem fetch_query:
  assumes "parseURL (baseURL c @ path) = Some u" "distinct (map fst query)"
  shows "map_option (\<lambda>u'. map_of (parseQuery (url_RawQuery u')) k) (requestURL c path query) =
    Some (case map_of query k of
            None \<Rightarrow> map_of (parseQuery (url_RawQuery u)) k
          | Some v \<Rightarrow> if v = '''' then map_of (parseQuery (url_RawQuery u)) k else Some [v])"
  using assms
  by (simp add: requestURL_def query_roundtrip queryFor_wf wfValues_parse queryFor_lookup)

theorem fetch_query_witness:
  "map_option (\<lambda>u'. map_of (parseQuery (url_RawQuery u')) ''provider'')
     (requestURL (NewHTTPClient ''http://127.0.0.1:8080/'' 0) ''/usage'' [(''provider'', ''a&b'')]) = Some (Some [''a&b''])"
proof -
  have "parseURL (baseURL (NewHTTPClient ''http://127.0.0.1:8080/'' 0) @ ''/usage'') =
      Some \<lparr>url_Scheme = ''http'', url_Opaque = '''', url_User = None, url_Host = ''127.0.0.1:8080'',
            url_Path = ''/usage'', url_RawQuery = '''', url_Fragment = ''''\<rparr>"
    by (simp add: string_eval NewHTTPClient_def TrimRight_def)
  from fetch_query [OF this, of "[(''provider'', ''a&b'')]" "''provider''"] show ?thesis by simp
qed

section \<open>What comes back\<close>

definition repeatedBody :: "fetchError option \<Rightarrow> string" where
  "repeatedBody e = (case e of Some (HTTPStatusError code body) \<Rightarrow> body | _ \<Rightarrow> [])"

text \<open>
  C30: \<open>Fetch\<close> reports no error exactly when the request was made and the server sent a status
  of the 200s with a body of at most 64 MiB that is valid JSON; then the payload is that body.
  The payload is never longer, and the body an error repeats is bounded.
\<close>
theorem fetch_outcome:
  "(snd (Fetch x c path query) = None \<longleftrightarrow>
     (\<exists>u r. requestURL c path query = Some u \<and> requestErr x u = None \<and> doRequest x u = Inr r \<and>
        replyReadErr r = None \<and> length (replyBody r) \<le> maxBody \<and> validJson (replyBody r) \<and>
        200 \<le> replyStatus r \<and> replyStatus r < 300 \<and>
        respPayload (fst (Fetch x c path query)) = replyBody r)) \<and>
   length (respPayload (fst (Fetch x c path query))) \<le> maxBody \<and>
   length (repeatedBody (snd (Fetch x c path query))) \<le> 1024"
proof -
  let ?f = "Fetch x c path query"
  have "?thesis" if "\<not> (\<exists>u r. requestURL c path query = Some u \<and> requestErr x u = None \<and> doRequest x u = Inr r)"
  proof -
    from that have "snd ?f \<noteq> None" "respPayload (fst ?f) = ''''" "repeatedBody (snd ?f) = ''''"
      by (auto simp: Fetch_def Let_def emptyResponse_def repeatedBody_def split: option.splits sum.splits)
    with that show ?thesis by auto
  qed
  moreover have "?thesis"
    if u: "requestURL c path query = Some u" "requestErr x u = None" "doRequest x u = Inr r" for u r
  proof -
    let ?body = "take (maxBody + 1) (replyBody r)"
    let ?ok = "200 \<le> replyStatus r \<and> replyStatus r < 300"
    have short: "length ?body \<le> maxBody \<longleftrightarrow> length (replyBody r) \<le> maxBody"
      "length (replyBody r) \<le> maxBody \<Longrightarrow> take (Suc maxBody) (replyBody r) = replyBody r" by auto
    consider e where "replyReadErr r = Some e" | "replyReadErr r = None" "\<not> length ?body \<le> maxBody"
      | "replyReadErr r = None" "length ?body \<le> maxBody" "\<not> validJson ?body"
      | "replyReadErr r = None" "length ?body \<le> maxBody" "validJson ?body" "\<not> ?ok"
      | "replyReadErr r = None" "length ?body \<le> maxBody" "validJson ?body" "?ok"
      by (cases "replyReadErr r") blast+
    then show ?thesis
    proof cases
      case 1
      with u show ?thesis by (simp add: Fetch_def Let_def repeatedBody_def emptyResponse_def)
    next
      case 2
      with u short show ?thesis by (simp add: Fetch_def Let_def repeatedBody_def emptyResponse_def)
    next
      case 3
      with u short show ?thesis by (simp add: Fetch_def Let_def repeatedBody_def)
    next
      case 4
      then have "replyStatus r < 200 \<or> 300 \<le> replyStatus r" by auto
      with 4 u short show ?thesis by (auto simp: Fetch_def Let_def repeatedBody_def)
    next
      case 5
      with u short show ?thesis by (simp add: Fetch_def Let_def repeatedBody_def)
    qed
  qed
  ultimately show ?thesis by blast
qed

text \<open>
  \<open>RunJSON\<close> reports no error exactly when the process succeeded and wrote valid JSON. The
  response always carries what it wrote, its exit code and the command; the text kept of its
  standard error is at most 16384 bytes and an ellipsis.
\<close>
theorem run_outcome:
  "(snd (RunJSON run r args) = None \<longleftrightarrow>
     procEnd (run (runTimeoutFor r (120 * second)) (runBinary r # args)) = Succeeded \<and>
     validJson (procStdout (run (runTimeoutFor r (120 * second)) (runBinary r # args)))) \<and>
   cmdPayload (fst (RunJSON run r args)) = procStdout (run (runTimeoutFor r (120 * second)) (runBinary r # args)) \<and>
   cmdExitCode (fst (RunJSON run r args)) = exitCodeOf (procEnd (run (runTimeoutFor r (120 * second)) (runBinary r # args))) \<and>
   cmdCommand (fst (RunJSON run r args)) = runBinary r # args \<and>
   length (cmdStderr (fst (RunJSON run r args))) \<le> 16387"
  by (simp add: RunJSON_def boundedString_def Let_def)

text \<open>The loop over the candidates picks the first that is there and executable.\<close>

lemma discoverLoop_find:
  "\<forall>p \<in> set seen. \<not> executable h p \<Longrightarrow>
   discoverLoop h seen cs = find (executable h) (List.map_filter (absPath h) (filter (\<lambda>p. p \<noteq> '''') cs))"
  by (induction h seen cs rule: discoverLoop.induct) (auto simp: map_filter_simps split: option.splits)

lemma discover_first:
  "DiscoverBinary h configured =
     find (executable h) (List.map_filter (absPath h) (filter (\<lambda>p. p \<noteq> '''') (binaryCandidates h configured)))"
  by (simp add: DiscoverBinary_def discoverLoop_find)

section \<open>The supervisor's runs\<close>

definition svInv :: "Supervisor \<Rightarrow> bool" where
  "svInv s \<longleftrightarrow>
     svSignalled s = [] \<and> second \<le> svBackoff s \<and> svBackoff s \<le> 30 * second \<and>
     svCmd s = svRunning s \<and>
     (case svPhase s of Waiting pid \<Rightarrow> svRunning s = Some pid | _ \<Rightarrow> svRunning s = None)"

lemma svStep_inv:
  "svInv s \<Longrightarrow> svStep s e = Some t \<Longrightarrow> svInv t"
  "svInv s \<Longrightarrow> svStep s e = Some t \<Longrightarrow> svBackoff s \<le> svBackoff t"
  by (cases "svPhase s"; cases e;
      auto simp: svStep.simps svInv_def stopServe_def growBackoff_def min_def split: if_splits)+

lemma svRun_inv: "svRun s es = Some t \<Longrightarrow> svInv s \<Longrightarrow> svInv t \<and> svBackoff s \<le> svBackoff t"
proof (induction es arbitrary: s)
  case (Cons e es)
  then obtain u where u: "svStep s e = Some u" "svRun u es = Some t" by (auto split: option.splits)
  with Cons.IH [OF u(2)] svStep_inv [OF Cons.prems(2) u(1)] show ?case by simp
qed simp

lemma newSupervisor_inv: "svInv newSupervisor"
  by (simp add: newSupervisor_def svInv_def)

text \<open>
  C31: In every run the supervisor has at most one server, and only while it waits for it; the
  pause between starts stays between one and thirty seconds and never becomes shorter again,
  however long a server ran; and \<open>stop\<close> never sends a signal, since no server is running
  wherever it is called.
\<close>
theorem supervisor_runs:
  assumes "svRun newSupervisor es = Some s" "svRun s es' = Some t"
  shows "(svRunning t = None \<or> (\<exists>pid. svPhase t = Waiting pid \<and> svRunning t = Some pid)) \<and>
    second \<le> svBackoff s \<and> svBackoff s \<le> svBackoff t \<and> svBackoff t \<le> 30 * second \<and> svSignalled t = []"
proof -
  have "svInv s" "svInv t" "svBackoff s \<le> svBackoff t"
    using svRun_inv [OF assms(1) newSupervisor_inv] svRun_inv [OF assms(2)] by auto
  then show ?thesis by (auto simp: svInv_def split: svPhase.splits)
qed

definition firstRestart :: "svEvent list" where
  "firstRestart = [HealthChecked False, StartFailed, SleptEnough, HealthChecked False]"

theorem supervisor_runs_witness:
  "\<exists>s t. svRun newSupervisor firstRestart = Some s \<and> svRun s [Started 7] = Some t \<and>
     svPhase t = Waiting 7 \<and> svBackoff t = 2 * second \<and> svSignalled t = []"
proof -
  obtain s where s: "svRun newSupervisor firstRestart = Some s" "svPhase s = Starting" "svBackoff s = 2 * second"
    by (auto simp: firstRestart_def newSupervisor_def svStep.simps growBackoff_def)
  then obtain t where t: "svRun s [Started 7] = Some t" "svPhase t = Waiting 7" "svBackoff t = 2 * second"
    by (auto simp: svStep.simps)
  from supervisor_runs [OF s(1) t(1)] s t show ?thesis by blast
qed

end
