(* ===== verification/Jobs.thy ===== *)
theory Jobs
  imports SpoolLog Envelope CodexBar
begin

text \<open>
  \<open>internal/app/jobs.go\<close> and the parts of \<open>app.go\<close> it uses: the collection jobs, what each of
  them collects, and what it puts into the spool.

  The world outside is a value of \<open>outside\<close> for each collection: the clock and the random bytes,
  the system calls of the spool, the server and the processes. \<open>observed\<close> is a ghost: the
  observations a run has made, in order.
\<close>

section \<open>State\<close>

record JobState =
  LastAttemptAt :: instant
  LastSuccessAt :: instant
  LastErrorAt :: instant
  LastError :: string
  Attempts :: "64 word"
  Successes :: "64 word"

definition zeroJobState :: JobState where
  "zeroJobState =
     \<lparr>LastAttemptAt = 0, LastSuccessAt = 0, LastErrorAt = 0, LastError = '''', Attempts = 0, Successes = 0\<rparr>"

record App =
  appCfg :: AppConfig
  appHTTP :: HTTPClient
  appRunner :: Runner
  appSpool :: Queue
  appMachine :: Machine
  appAgent :: Agent
  appStartedAt :: instant
  appJobs :: "(string \<times> JobState) list"
  appVersion :: string
  observed :: "Observation list"

datatype goError =
    FetchErr fetchError
  | RunErr runError
  | MarshalErr marshal_error
  | SpoolErr spool_error
  | PublishErr string
  | PanicErr string
  | JoinedErr "goError list"

text \<open>\<open>err.Error()\<close>; the texts of the errors of other packages are parameters.\<close>

fun errorText :: "(spool_error \<Rightarrow> string) \<Rightarrow> (marshal_error \<Rightarrow> string) \<Rightarrow> goError \<Rightarrow> string" where
  "errorText st mt (FetchErr e) = fetchErrorText e"
| "errorText st mt (RunErr e) = runErrorText e"
| "errorText st mt (MarshalErr e) = mt e"
| "errorText st mt (SpoolErr e) = st e"
| "errorText st mt (PublishErr e) = e"
| "errorText st mt (PanicErr e) = ''job panic: '' @ e"
| "errorText st mt (JoinedErr es) = Join [char_of (10 :: nat)] (map (errorText st mt) es)"

definition joinErrors :: "goError option list \<Rightarrow> goError option" where
  "joinErrors es =
     (let es = concat (map (\<lambda>e. case e of None \<Rightarrow> [] | Some e \<Rightarrow> [e]) es)
      in if es = [] then None else Some (JoinedErr es))"

record outside =
  clock :: instant
  eventSource :: idSource
  spoolIDs :: "nat \<Rightarrow> nat \<times> bytes"
  spoolIO :: io
  server :: exchange
  runProcess :: "duration \<Rightarrow> string list \<Rightarrow> process"

section \<open>Observations into the spool\<close>

definition observationRecords :: "AppConfig \<Rightarrow> Observation \<Rightarrow> string \<Rightarrow> Record list" where
  "observationRecords c obs payload =
     (if Publish_PublishEvents (Publish c)
      then [\<lparr>recID = '''', recClass = ''event'', recTopic = eventTopic c (Kind obs), recQoS = MQTT_QoS (MQTT c),
             recRetain = False, recPayload = Some (bytes_of payload)\<rparr>]
      else []) @
     (if Publish_RetainSnapshots (Publish c) \<and> Success (obsCollection obs)
      then [\<lparr>recID = '''', recClass = ''snapshot'', recTopic = snapshotTopic c (Kind obs) (SnapshotScope obs),
             recQoS = MQTT_QoS (MQTT c), recRetain = True, recPayload = Some (bytes_of payload)\<rparr>]
      else [])"

definition enqueueObservation :: "outside \<Rightarrow> Observation \<Rightarrow> App \<Rightarrow> goError option \<times> App" where
  "enqueueObservation w obs a =
     (let a = a\<lparr>observed := observed a @ [obs]\<rparr>
      in case Marshal obs of
           Inl e \<Rightarrow> (Some (MarshalErr e), a)
         | Inr payload \<Rightarrow>
             (let records = observationRecords (appCfg a) obs payload
              in if length records = 0 then (None, a)
                 else (case Enqueue (spoolIO w) (spoolIDs w) records (appSpool a) of
                   (e, q) \<Rightarrow> (map_option SpoolErr e, a\<lparr>appSpool := q\<rparr>))))"

section \<open>Collections\<close>

record collectionMeta =
  metaCorrelationID :: string
  metaPhase :: string

definition noMeta :: collectionMeta where
  "noMeta = \<lparr>metaCorrelationID = '''', metaPhase = ''''\<rparr>"

definition cloneMap :: "(string \<times> string) list \<Rightarrow> (string \<times> string) list" where
  "cloneMap input = (if length input = 0 then [] else fold (\<lambda>(k, v). AList.update k v) input [])"

definition cliOperation :: "string list \<Rightarrow> string" where
  "cliOperation args =
     (case args of [] \<Rightarrow> ''usage'' | a # _ \<Rightarrow> if HasPrefix a ''-'' then ''usage'' else a)"

definition milliseconds :: "duration \<Rightarrow> int" where
  "milliseconds d = d sdiv millisecond"

text \<open>
  What is the same for both transports: the observation of a response that is valid JSON, or
  an error observation, goes into the spool, and the error of the collection is returned with
  that of the spool.
\<close>

definition collectedObservation ::
    "outside \<Rightarrow> string \<Rightarrow> string \<Rightarrow> Collection \<Rightarrow> string \<Rightarrow> string option \<Rightarrow> App \<Rightarrow> Observation" where
  "collectedObservation w kind scope collection payload message a =
     (if length payload > 0 \<and> validJson payload
      then newObservation (clock w) (eventSource w) kind scope (appMachine a) (appAgent a) collection payload
      else newErrorObservation (clock w) (eventSource w) ''agent/error'' (kind @ ''-'' @ scope)
             (appMachine a) (appAgent a) collection kind message True)"

definition publishCollection ::
    "outside \<Rightarrow> string \<Rightarrow> string \<Rightarrow> Collection \<Rightarrow> string \<Rightarrow> goError option \<Rightarrow> string option \<Rightarrow> App \<Rightarrow>
       goError option \<times> App" where
  "publishCollection w kind scope collection payload err message a =
     (case enqueueObservation w (collectedObservation w kind scope collection payload message a) a of
        (Some e, a') \<Rightarrow> (joinErrors [err, Some e], a')
      | (None, a') \<Rightarrow> (err, a'))"

definition httpCollection ::
    "string \<Rightarrow> string \<Rightarrow> (string \<times> string) list \<Rightarrow> collectionMeta \<Rightarrow> HTTPResponse \<Rightarrow> fetchError option \<Rightarrow> Collection" where
  "httpCollection semanticScope path query meta response fetchErr =
     \<lparr>Transport = ''http'', Operation = TrimPrefix path ''/'', SemanticScope = semanticScope,
      CorrelationID = metaCorrelationID meta, Phase = metaPhase meta,
      StartedAt = respStartedAt response, FinishedAt = respFinishedAt response,
      Endpoint = path, Query = cloneMap query, Command = [], ExitCode = None,
      DurationMS = milliseconds (respDuration response), ContentType = respContentType response,
      Success = (fetchErr = None),
      Error = (case fetchErr of None \<Rightarrow> '''' | Some e \<Rightarrow> fetchErrorText e), Stderr = ''''\<rparr>"

definition collectHTTPMeta ::
    "outside \<Rightarrow> string \<Rightarrow> string \<Rightarrow> string \<Rightarrow> string \<Rightarrow> (string \<times> string) list \<Rightarrow> collectionMeta \<Rightarrow> App \<Rightarrow>
       goError option \<times> App" where
  "collectHTTPMeta w kind scope semanticScope path query meta a =
     (case Fetch (server w) (appHTTP a) path query of
        (response, fetchErr) \<Rightarrow>
          publishCollection w kind scope (httpCollection semanticScope path query meta response fetchErr)
            (respPayload response) (map_option FetchErr fetchErr) (map_option fetchErrorText fetchErr) a)"

definition cliCollection ::
    "bool \<Rightarrow> string \<Rightarrow> string list \<Rightarrow> collectionMeta \<Rightarrow> CommandResponse \<Rightarrow> runError option \<Rightarrow> Collection" where
  "cliCollection includeStderr semanticScope args meta response runErr =
     \<lparr>Transport = ''cli'', Operation = cliOperation args, SemanticScope = semanticScope,
      CorrelationID = metaCorrelationID meta, Phase = metaPhase meta,
      StartedAt = cmdStartedAt response, FinishedAt = cmdFinishedAt response,
      Endpoint = '''', Query = [], Command = cmdCommand response, ExitCode = Some (cmdExitCode response),
      DurationMS = milliseconds (cmdDuration response), ContentType = ''application/json'',
      Success = (runErr = None),
      Error = (case runErr of None \<Rightarrow> '''' | Some e \<Rightarrow> runErrorText e),
      Stderr = (if includeStderr then cmdStderr response else '''')\<rparr>"

text \<open>\<open>cliMu\<close> lets one command run at a time: here, one collection is one step.\<close>

definition collectCLIMeta ::
    "outside \<Rightarrow> string \<Rightarrow> string \<Rightarrow> string \<Rightarrow> string list \<Rightarrow> collectionMeta \<Rightarrow> App \<Rightarrow> goError option \<times> App" where
  "collectCLIMeta w kind scope semanticScope args meta a =
     (case RunJSON (runProcess w) (appRunner a) args of
        (response, runErr) \<Rightarrow>
          publishCollection w kind scope
            (cliCollection (Publish_IncludeStderr (Publish (appCfg a))) semanticScope args meta response runErr)
            (cmdPayload response) (map_option RunErr runErr) (map_option runErrorText runErr) a)"

text \<open>\<open>encodedQuery\<close>, which nothing calls.\<close>

definition encodedQuery :: "(string \<times> string) list \<Rightarrow> string" where
  "encodedQuery query = encodeValues (fold (\<lambda>(k, v). setValue k v) query [])"

section \<open>The cost attribution cycle\<close>

fun distinctProviders :: "string list \<Rightarrow> string list \<Rightarrow> string list" where
  "distinctProviders seen [] = []"
| "distinctProviders seen (p # ps) =
     (let provider = TrimSpace p
      in if provider = '''' \<or> provider \<in> set seen then distinctProviders seen ps
         else provider # distinctProviders (provider # seen) ps)"

definition probeArgs :: "string \<Rightarrow> string list" where
  "probeArgs provider = [''--provider'', provider, ''--format'', ''json'', ''--json-only'']"

text \<open>The probes of one phase, the outside world given by their number; the errors in order.\<close>

fun probeAll ::
    "(nat \<Rightarrow> outside) \<Rightarrow> nat \<Rightarrow> collectionMeta \<Rightarrow> string list \<Rightarrow> App \<Rightarrow> goError list \<times> App" where
  "probeAll ws i meta [] a = ([], a)"
| "probeAll ws i meta (provider # rest) a =
     (case collectCLIMeta (ws i) ''cli/active-account-probe'' provider ''cost_attribution_account_bracket''
             (probeArgs provider) meta a of
        (err, a') \<Rightarrow>
          (case probeAll ws (i + 1) meta rest a' of
             (errs, a'') \<Rightarrow> ((case err of None \<Rightarrow> errs | Some e \<Rightarrow> e # errs), a'')))"

definition cycleID :: "AppConfig \<Rightarrow> int \<Rightarrow> string" where
  "cycleID c nanos = ''cost-'' @ machineID c @ ''-'' @ intString nanos"

definition runCostAttributionCycle ::
    "int \<Rightarrow> (nat \<Rightarrow> outside) \<Rightarrow> string \<Rightarrow> (string \<times> string) list \<Rightarrow> App \<Rightarrow> goError option \<times> App" where
  "runCostAttributionCycle nanos ws costScope costQuery a =
     (let cycle = cycleID (appCfg a) nanos;
          providers = distinctProviders [] (Poll_ActiveAccountProbeProviders (Poll (appCfg a)));
          n = length providers;
          (before, a1) = probeAll ws 0 \<lparr>metaCorrelationID = cycle, metaPhase = ''before-cost''\<rparr> providers a;
          (err, a2) = collectHTTPMeta (ws n) ''serve/cost'' costScope ''machine_local_cost_snapshot'' ''/cost''
                        costQuery \<lparr>metaCorrelationID = cycle, metaPhase = ''cost''\<rparr> a1;
          (after, a3) = probeAll ws (n + 1) \<lparr>metaCorrelationID = cycle, metaPhase = ''after-cost''\<rparr> providers a2
      in (joinErrors (map Some before @ [err] @ map Some after), a3))"

section \<open>Jobs\<close>

datatype task =
    HTTPTask string string string string "(string \<times> string) list"
  | CLITask string string string "string list"
  | CostCycle string "(string \<times> string) list"

record job =
  jobName :: string
  jobInterval :: duration
  jobDelay :: duration
  jobTask :: task

definition addJob :: "string \<Rightarrow> int \<Rightarrow> duration \<Rightarrow> task \<Rightarrow> job list" where
  "addJob name seconds delay task =
     (if seconds \<le> 0 then []
      else [\<lparr>jobName = name, jobInterval = seconds * second, jobDelay = delay, jobTask = task\<rparr>])"

definition costArgs :: "AppConfig \<Rightarrow> int \<Rightarrow> string list" where
  "costArgs c days =
     [''cost''] @
     (if CodexBar_CostProvider (CodexBar c) \<noteq> '''' then [''--provider'', CodexBar_CostProvider (CodexBar c)] else []) @
     [''--days'', intString days, ''--format'', ''json'', ''--json-only'']"

definition activeAccountJobs :: "AppConfig \<Rightarrow> job list" where
  "activeAccountJobs c =
     concat (map (\<lambda>(i, p).
       (let provider = TrimSpace p
        in if provider = '''' then []
           else addJob (''cli-active-account-'' @ provider) (Poll_ActiveAccountProbeSeconds (Poll c))
                  (5 * second + int i * 2 * second)
                  (CLITask ''cli/active-account-probe'' provider ''current_default_account_probe'' (probeArgs provider))))
       (List.enumerate 0 (Poll_ActiveAccountProbeProviders (Poll c))))"

definition accountCatalogueJobs :: "AppConfig \<Rightarrow> job list" where
  "accountCatalogueJobs c =
     concat (map (\<lambda>(i, p).
       (let provider = TrimSpace p
        in if provider = '''' then []
           else addJob (''cli-account-catalogue-'' @ provider) (Poll_AccountCatalogueSeconds (Poll c))
                  (20 * second + int i * 3 * second)
                  (CLITask ''cli/account-catalogue'' provider ''all_visible_or_configured_accounts''
                     [''--provider'', provider, ''--all-accounts'', ''--format'', ''json'', ''--json-only''])))
       (List.enumerate 0 (Poll_AccountCatalogueProviders (Poll c))))"

definition costScopeOf :: "AppConfig \<Rightarrow> string" where
  "costScopeOf c = (if CodexBar_CostProvider (CodexBar c) \<noteq> '''' then CodexBar_CostProvider (CodexBar c) else ''enabled'')"

definition costHorizonJobs :: "AppConfig \<Rightarrow> job list" where
  "costHorizonJobs c =
     concat (map (\<lambda>(i, days).
       addJob (''cli-cost-'' @ intString days @ ''d'') (Poll_CostHorizonSeconds (Poll c))
         (30 * second + int i * 3 * second)
         (CLITask ''cli/cost-horizon'' (costScopeOf c @ ''-'' @ intString days @ ''d'') ''machine_local_cost_history''
            (costArgs c days)))
       (List.enumerate 0 (Poll_CostHorizonsDays (Poll c))))"

definition providerQuery :: "string \<Rightarrow> (string \<times> string) list" where
  "providerQuery provider = (if provider \<noteq> '''' then [(''provider'', provider)] else [])"

definition buildJobs :: "AppConfig \<Rightarrow> job list" where
  "buildJobs c =
     (let usage = CodexBar_UsageProvider (CodexBar c);
          usageScope = (if usage \<noteq> '''' then usage else ''enabled'');
          status = (if Poll_StatusProvider (Poll c) = '''' then ''all'' else Poll_StatusProvider (Poll c))
      in addJob ''serve-health'' (Poll_HealthSeconds (Poll c)) 0
           (HTTPTask ''serve/health'' ''default'' ''machine_runtime_health'' ''/health'' []) @
         addJob ''serve-usage'' (Poll_UsageSeconds (Poll c)) second
           (HTTPTask ''serve/usage'' usageScope ''serve_usage_snapshot'' ''/usage'' (providerQuery usage)) @
         addJob ''cost-attribution-cycle'' (Poll_CostSeconds (Poll c)) (3 * second)
           (CostCycle (costScopeOf c) (providerQuery (CodexBar_CostProvider (CodexBar c)))) @
         addJob ''serve-all-providers'' (Poll_AllProvidersSeconds (Poll c)) (10 * second)
           (HTTPTask ''serve/usage'' ''all'' ''all_registered_provider_snapshot'' ''/usage'' [(''provider'', ''all'')]) @
         addJob ''cli-status'' (Poll_StatusSeconds (Poll c)) (15 * second)
           (CLITask ''cli/usage-status'' status ''provider_status_enriched_usage''
              [''--provider'', status, ''--format'', ''json'', ''--json-only'', ''--status'']) @
         activeAccountJobs c @ accountCatalogueJobs c @ costHorizonJobs c @
         addJob ''cli-config-validate'' (Poll_ConfigValidateSeconds (Poll c)) (45 * second)
           (CLITask ''cli/config-validation'' ''default'' ''local_codexbar_config_validation''
              [''config'', ''validate'', ''--format'', ''json'', ''--json-only'']))"

text \<open>\<open>ws\<close> is the outside world of each collection of the task, \<open>nanos\<close> the clock the cycle starts at.\<close>

fun runTask :: "int \<Rightarrow> (nat \<Rightarrow> outside) \<Rightarrow> task \<Rightarrow> App \<Rightarrow> goError option \<times> App" where
  "runTask nanos ws (HTTPTask kind scope semanticScope path query) a =
     collectHTTPMeta (ws 0) kind scope semanticScope path query noMeta a"
| "runTask nanos ws (CLITask kind scope semanticScope args) a =
     collectCLIMeta (ws 0) kind scope semanticScope args noMeta a"
| "runTask nanos ws (CostCycle costScope costQuery) a =
     runCostAttributionCycle nanos ws costScope costQuery a"

section \<open>Running a job\<close>

definition updateJob :: "instant \<Rightarrow> (goError \<Rightarrow> string) \<Rightarrow> string \<Rightarrow> goError option \<Rightarrow> App \<Rightarrow> App" where
  "updateJob now etext name err a =
     (let state = (case map_of (appJobs a) name of Some s \<Rightarrow> s | None \<Rightarrow> zeroJobState);
          state = state\<lparr>LastAttemptAt := now, Attempts := Attempts state + 1\<rparr>;
          state = (case err of
             None \<Rightarrow> state\<lparr>LastSuccessAt := now, Successes := Successes state + 1, LastError := ''''\<rparr>
           | Some e \<Rightarrow> state\<lparr>LastErrorAt := now, LastError := etext e\<rparr>)
      in a\<lparr>appJobs := AList.update name state (appJobs a)\<rparr>)"

text \<open>A panic of the job is recovered and counted as its error.\<close>

datatype outcome = Completed "goError option" | Panicked string

definition executeJob ::
    "instant \<Rightarrow> (goError \<Rightarrow> string) \<Rightarrow> (App \<Rightarrow> outcome \<times> App) \<Rightarrow> string \<Rightarrow> App \<Rightarrow> goError option \<times> App" where
  "executeJob now etext run name a =
     (case run a of
        (Completed err, a') \<Rightarrow> (err, updateJob now etext name err a')
      | (Panicked what, a') \<Rightarrow> (Some (PanicErr what), updateJob now etext name (Some (PanicErr what)) a'))"

text \<open>\<open>scheduleJob\<close>: an initial delay, a first run, then a run at each tick, until the context ends.\<close>

datatype schedPhase = Delaying | Ticking | Ended
datatype schedEvent = TimerFired | TickerFired | ContextDone

definition schedStart :: "job \<Rightarrow> schedPhase \<times> nat" where
  "schedStart j = (if jobDelay j > 0 then (Delaying, 0) else (Ticking, 1))"

fun schedStep :: "schedPhase \<times> nat \<Rightarrow> schedEvent \<Rightarrow> schedPhase \<times> nat" where
  "schedStep (Delaying, n) TimerFired = (Ticking, n + 1)"
| "schedStep (Delaying, n) ContextDone = (Ended, n)"
| "schedStep (Ticking, n) TickerFired = (Ticking, n + 1)"
| "schedStep (Ticking, n) ContextDone = (Ended, n)"
| "schedStep s e = s"

section \<open>What a collection observes\<close>

lemmas observation_defs = newObservation_def newErrorObservation_def Let_def

lemma new_observation_collection:
  "obsCollection (newObservation now src kind scope m ag c payload) = c"
  by (simp add: observation_defs)

lemma error_observation_collection:
  "obsCollection (newErrorObservation now src kind scope m ag c jb err retry) =
     c\<lparr>Success := False, Error := (case err of None \<Rightarrow> Error c | Some e \<Rightarrow> e)\<rparr>"
  by (cases c) (simp add: observation_defs split: option.split)

lemma enqueue_frame:
  assumes "enqueueObservation w obs a = (err, a')"
  shows "observed a' = observed a @ [obs] \<and> appCfg a' = appCfg a \<and> appRunner a' = appRunner a \<and>
    appHTTP a' = appHTTP a \<and> appJobs a' = appJobs a \<and> appMachine a' = appMachine a \<and> appAgent a' = appAgent a"
  using assms by (auto simp: enqueueObservation_def Let_def split: sum.splits prod.splits if_splits)

text \<open>What an observation says of when and how it was made.\<close>

definition trace :: "Observation \<Rightarrow> string \<times> string \<times> string list \<times> string" where
  "trace obs =
     (Phase (obsCollection obs), CorrelationID (obsCollection obs), Command (obsCollection obs),
      Endpoint (obsCollection obs))"

lemma publish_frame:
  assumes "publishCollection w kind scope c payload err message a = (err', a')"
  shows "appCfg a' = appCfg a \<and> appRunner a' = appRunner a \<and> appHTTP a' = appHTTP a \<and> appJobs a' = appJobs a \<and>
    map trace (observed a') = map trace (observed a) @ [(Phase c, CorrelationID c, Command c, Endpoint c)]"
proof -
  define obs where "obs = collectedObservation w kind scope c payload message a"
  obtain e a1 where e: "enqueueObservation w obs a = (e, a1)" by (cases "enqueueObservation w obs a")
  then have "a' = a1"
    using assms unfolding publishCollection_def obs_def [symmetric] by (auto split: option.splits)
  moreover have "trace obs = (Phase c, CorrelationID c, Command c, Endpoint c)"
    by (simp add: trace_def obs_def collectedObservation_def new_observation_collection error_observation_collection)
  ultimately show ?thesis using enqueue_frame [OF e] by simp
qed

lemma http_frame:
  assumes "collectHTTPMeta w kind scope sem path query meta a = (err, a')"
  shows "appCfg a' = appCfg a \<and> appRunner a' = appRunner a \<and> appHTTP a' = appHTTP a \<and> appJobs a' = appJobs a \<and>
    map trace (observed a') = map trace (observed a) @ [(metaPhase meta, metaCorrelationID meta, [], path)]"
  using assms publish_frame by (auto simp: collectHTTPMeta_def httpCollection_def split: prod.splits)

lemma cli_frame:
  assumes "collectCLIMeta w kind scope sem args meta a = (err, a')"
  shows "appCfg a' = appCfg a \<and> appRunner a' = appRunner a \<and> appHTTP a' = appHTTP a \<and> appJobs a' = appJobs a \<and>
    map trace (observed a') =
      map trace (observed a) @ [(metaPhase meta, metaCorrelationID meta, runBinary (appRunner a) # args, '''')]"
proof -
  obtain resp e where r: "RunJSON (runProcess w) (appRunner a) args = (resp, e)"
    by (cases "RunJSON (runProcess w) (appRunner a) args")
  then have "cmdCommand resp = runBinary (appRunner a) # args"
    by (auto simp: RunJSON_def Let_def split: if_splits)
  with r assms publish_frame show ?thesis
    by (auto simp: collectCLIMeta_def cliCollection_def)
qed

lemma probe_frame:
  assumes "probeAll ws i meta ps a = (errs, a')"
  shows "appCfg a' = appCfg a \<and> appRunner a' = appRunner a \<and> appHTTP a' = appHTTP a \<and> appJobs a' = appJobs a \<and>
    map trace (observed a') = map trace (observed a) @
      map (\<lambda>p. (metaPhase meta, metaCorrelationID meta, runBinary (appRunner a) # probeArgs p, '''')) ps"
  using assms
proof (induction ps arbitrary: i a errs a')
  case (Cons p ps)
  obtain e a1 where c: "collectCLIMeta (ws i) ''cli/active-account-probe'' p ''cost_attribution_account_bracket''
      (probeArgs p) meta a = (e, a1)" by fastforce
  obtain es a2 where r: "probeAll ws (i + 1) meta ps a1 = (es, a2)" by fastforce
  with c Cons.prems have "a' = a2" by simp
  with Cons.IH [OF r] cli_frame [OF c] show ?case by simp
qed simp

lemma distinctProviders_spec:
  "distinct (distinctProviders seen ps) \<and>
   set (distinctProviders seen ps) = TrimSpace ` set ps - insert '''' (set seen)"
  by (induction seen ps rule: distinctProviders.induct) (auto simp: Let_def)

text \<open>
  C8: Every cost reading is bracketed. A cycle probes the account of each configured provider,
  reads the costs and probes the same providers again, in this order, all under one correlation
  identifier; a failing step is observed and does not stop the others. The providers are the
  configured ones without spaces around them, each once.
\<close>
theorem cost_cycle_brackets:
  "let providers = distinctProviders [] (Poll_ActiveAccountProbeProviders (Poll (appCfg a)));
       cycle = cycleID (appCfg a) nanos;
       probe = (\<lambda>phase p. (phase, cycle, runBinary (appRunner a) # probeArgs p, ''''))
   in map trace (observed (snd (runCostAttributionCycle nanos ws costScope costQuery a))) =
        map trace (observed a) @ map (probe ''before-cost'') providers @
        [(''cost'', cycle, [], ''/cost'')] @ map (probe ''after-cost'') providers \<and>
      distinct providers \<and>
      set providers = TrimSpace ` set (Poll_ActiveAccountProbeProviders (Poll (appCfg a))) - {''''}"
proof -
  define providers where "providers = distinctProviders [] (Poll_ActiveAccountProbeProviders (Poll (appCfg a)))"
  define cycle where "cycle = cycleID (appCfg a) nanos"
  let ?n = "length providers"
  obtain before a1 where b: "probeAll ws 0 \<lparr>metaCorrelationID = cycle, metaPhase = ''before-cost''\<rparr> providers a = (before, a1)"
    by fastforce
  obtain err a2 where c: "collectHTTPMeta (ws ?n) ''serve/cost'' costScope ''machine_local_cost_snapshot'' ''/cost''
      costQuery \<lparr>metaCorrelationID = cycle, metaPhase = ''cost''\<rparr> a1 = (err, a2)" by fastforce
  obtain after a3 where d:
    "probeAll ws (?n + 1) \<lparr>metaCorrelationID = cycle, metaPhase = ''after-cost''\<rparr> providers a2 = (after, a3)"
    by fastforce
  have "snd (runCostAttributionCycle nanos ws costScope costQuery a) = a3"
    using b c d by (simp add: runCostAttributionCycle_def Let_def flip: providers_def cycle_def)
  with probe_frame [OF b] http_frame [OF c] probe_frame [OF d]
  show ?thesis
    using distinctProviders_spec [of "[]" "Poll_ActiveAccountProbeProviders (Poll (appCfg a))"]
    by (simp add: Let_def flip: providers_def cycle_def)
qed

section \<open>A failed collection leaves the snapshots alone\<close>

lemma enqueue_origin:
  assumes "Enqueue io ids rs q = (e, q')" "wfQueue q" "isRecordName n"
  shows "map_of (entries q') n = None \<or> map_of (entries q') n = map_of (entries q) n \<or>
    (\<exists>r \<in> set (completeAll ids 0 rs). n = recordName r \<and> map_of (entries q') n = Some (RegularFile (marshalRecord r)))"
proof -
  obtain e1 q1 where w: "writeRecords io ids 0 rs q = (e1, q1)" by fastforce
  have q1: "wfQueue q1" using writeRecords_wf [OF w assms(2)] by simp
  have "map_of (entries q') n = map_of (entries q1) n \<or> map_of (entries q') n = None"
    using assms(1) w prune_onlyRemoves [OF q1, of io] unfolding onlyRemoves_def
    by (cases e1; cases "pruneLocked io q1") (auto simp: Enqueue_def)
  with writeRecords_new [OF w assms(3)] show ?thesis by (auto simp: present_def)
qed

lemma ascii_joinTopic: "validText (joinTopic parts)"
proof (rule validText_ascii)
  have "list_all asciiChar s" if "slug s" for s
    using that by (intro slug_ascii) (simp add: slug_def)
  moreover have "list_all asciiChar (Join ''/'' ss)" if "list_all (list_all asciiChar) ss" for ss
    using that by (induction "''/'' :: string" ss rule: Join.induct) (simp_all add: asciiChar_def)
  moreover have "list_all slug (concat (map cleanPart parts))" by (rule slugs_segments)
  ultimately show "list_all asciiChar (joinTopic parts)"
    unfolding joinTopic_def list_all_iff by blast
qed

lemma ascii_newID: "list_all asciiChar (newID src)"
proof -
  have h: "list_all asciiChar (hexEncode bs)" for bs
    using set_hexEncode [of bs] by (auto simp: list_all_iff asciiChar_def)
  have n: "list_all asciiChar (natString k)" for k
    using natString_digits [of k] by (auto simp: list_all_iff asciiChar_def digit_def)
  show ?thesis
    by (cases src) (simp add: newID_def padDecimal_def Let_def h n, simp add: list_all_iff asciiChar_def)
qed

lemma completeAll_cases:
  "r \<in> set (completeAll ids i rs) \<Longrightarrow> \<exists>j. \<exists>r0 \<in> set rs. r = completeRecord (ids j) r0"
  by (induction ids i rs rule: completeAll.induct) auto

lemma observation_records_valid:
  assumes "r \<in> set (completeAll ids i (observationRecords c obs payload))"
  shows "validRecord r \<and> (recRetain r \<longrightarrow> Success (obsCollection obs))"
proof -
  obtain j r0 where r0: "r0 \<in> set (observationRecords c obs payload)" "r = completeRecord (ids j) r0"
    using completeAll_cases [OF assms] by blast
  have "validText (newID (ids j))" by (rule validText_ascii [OF ascii_newID])
  moreover have "validText ''event''" "validText ''snapshot''"
    by (simp_all add: validText_ascii asciiChar_def)
  ultimately show ?thesis
    using r0 by (auto simp: observationRecords_def completeRecord_def Let_def validRecord_def eventTopic_def
        snapshotTopic_def ascii_joinTopic split: if_splits)
qed

text \<open>
  C7: A failed collection never replaces a retained state. Whatever happens to the disk, every
  retained record that is in the spool after an unsuccessful collection was published was there
  before, unchanged: the last good snapshot of a topic is not overwritten by an error.
\<close>
theorem failed_collection_keeps_snapshots:
  assumes "publishCollection w kind scope c payload err message a = (err', a')" "\<not> Success c"
    and "wfQueue (appSpool a)" "isRecordName n"
    and "parsedRecord (appSpool a') n = Some r" "recRetain r"
  shows "parsedRecord (appSpool a) n = Some r"
proof -
  define obs where "obs = collectedObservation w kind scope c payload message a"
  have failed: "\<not> Success (obsCollection obs)"
    using assms(2) by (simp add: obs_def collectedObservation_def new_observation_collection error_observation_collection)
  obtain e a1 where e: "enqueueObservation w obs a = (e, a1)" by fastforce
  then have "a' = a1"
    using assms(1) unfolding publishCollection_def obs_def [symmetric] by (auto split: option.splits)
  then consider "appSpool a' = appSpool a"
    | e2 t where "Enqueue (spoolIO w) (spoolIDs w) (observationRecords (appCfg a) obs t) (appSpool a) = (e2, appSpool a')"
    using e by (auto simp: enqueueObservation_def Let_def split: sum.splits prod.splits if_splits)
  then show ?thesis
  proof cases
    case 1
    with assms(5) show ?thesis by (simp add: parsedRecord_def fileContent_def)
  next
    case 2
    show ?thesis
    proof (rule ccontr)
      assume other: "parsedRecord (appSpool a) n \<noteq> Some r"
      have "map_of (entries (appSpool a')) n \<noteq> None"
        "map_of (entries (appSpool a')) n \<noteq> map_of (entries (appSpool a)) n"
        using assms(5) other by (auto simp: parsedRecord_def fileContent_def split: option.splits)
      with enqueue_origin [OF 2 assms(3,4)] obtain r0 where
        r0: "r0 \<in> set (completeAll (spoolIDs w) 0 (observationRecords (appCfg a) obs t))"
        and stored: "map_of (entries (appSpool a')) n = Some (RegularFile (marshalRecord r0))" by blast
      from observation_records_valid [OF r0] failed have "validRecord r0" "\<not> recRetain r0" by auto
      moreover from this(1) stored have "parsedRecord (appSpool a') n = Some r0"
        by (simp add: parsedRecord_def fileContent_def rc.read_back)
      ultimately show False using assms(5,6) by simp
    qed
  qed
qed

section \<open>The table of jobs\<close>

definition keepsJobs :: "(App \<Rightarrow> outcome \<times> App) \<Rightarrow> bool" where
  "keepsJobs run \<longleftrightarrow> (\<forall>a. appJobs (snd (run a)) = appJobs a)"

lemma runTask_frame: "runTask nanos ws t a = (e, a') \<Longrightarrow> appCfg a' = appCfg a \<and> appJobs a' = appJobs a"
proof (cases t)
  case (CostCycle scope query)
  assume run: "runTask nanos ws t a = (e, a')"
  let ?ps = "distinctProviders [] (Poll_ActiveAccountProbeProviders (Poll (appCfg a)))"
  let ?cy = "cycleID (appCfg a) nanos"
  obtain before a1 where b: "probeAll ws 0 \<lparr>metaCorrelationID = ?cy, metaPhase = ''before-cost''\<rparr> ?ps a = (before, a1)"
    by fastforce
  obtain err a2 where c: "collectHTTPMeta (ws (length ?ps)) ''serve/cost'' scope ''machine_local_cost_snapshot'' ''/cost''
      query \<lparr>metaCorrelationID = ?cy, metaPhase = ''cost''\<rparr> a1 = (err, a2)" by fastforce
  obtain after a3 where d:
    "probeAll ws (length ?ps + 1) \<lparr>metaCorrelationID = ?cy, metaPhase = ''after-cost''\<rparr> ?ps a2 = (after, a3)"
    by fastforce
  show ?thesis
    using run CostCycle b c d probe_frame [OF b] http_frame [OF c] probe_frame [OF d]
    by (simp add: runCostAttributionCycle_def Let_def)
qed (auto dest: http_frame cli_frame)

lemma task_keeps_jobs: "keepsJobs (\<lambda>a. case runTask nanos ws t a of (e, a') \<Rightarrow> (Completed e, a'))"
proof -
  have "appJobs (snd (runTask nanos ws t a)) = appJobs a" for a
    using runTask_frame by (cases "runTask nanos ws t a") fastforce
  then show ?thesis by (simp add: keepsJobs_def split_beta)
qed

text \<open>A history of executions: when, which job, and how each ended.\<close>

fun executeAll ::
    "(goError \<Rightarrow> string) \<Rightarrow> (instant \<times> (App \<Rightarrow> outcome \<times> App) \<times> string) list \<Rightarrow> App \<Rightarrow>
       (instant \<times> string \<times> goError option) list \<times> App" where
  "executeAll etext [] a = ([], a)"
| "executeAll etext ((now, run, name) # js) a =
     (case executeJob now etext run name a of
        (err, a') \<Rightarrow> (case executeAll etext js a' of (hist, a'') \<Rightarrow> ((now, name, err) # hist, a'')))"

text \<open>What the table should say of a job, from the history of its executions alone.\<close>

definition summary :: "(goError \<Rightarrow> string) \<Rightarrow> (instant \<times> string \<times> goError option) list \<Rightarrow> JobState option" where
  "summary etext hist =
     (if hist = [] then None
      else let good = filter (\<lambda>(now, name, err). err = None) hist;
               bad = filter (\<lambda>(now, name, err). err \<noteq> None) hist
           in Some \<lparr>LastAttemptAt = fst (last hist),
                    LastSuccessAt = (if good = [] then 0 else fst (last good)),
                    LastErrorAt = (if bad = [] then 0 else fst (last bad)),
                    LastError = (case snd (snd (last hist)) of None \<Rightarrow> '''' | Some e \<Rightarrow> etext e),
                    Attempts = of_nat (length hist),
                    Successes = of_nat (length good)\<rparr>)"

definition ofJob :: "string \<Rightarrow> (instant \<times> string \<times> goError option) list \<Rightarrow> (instant \<times> string \<times> goError option) list" where
  "ofJob name hist = filter (\<lambda>(now, n, err). n = name) hist"

definition recordJob :: "instant \<Rightarrow> (goError \<Rightarrow> string) \<Rightarrow> goError option \<Rightarrow> JobState \<Rightarrow> JobState" where
  "recordJob now etext err s =
     (case err of
        None \<Rightarrow> s\<lparr>LastAttemptAt := now, Attempts := Attempts s + 1, LastSuccessAt := now,
                   Successes := Successes s + 1, LastError := ''''\<rparr>
      | Some e \<Rightarrow> s\<lparr>LastAttemptAt := now, Attempts := Attempts s + 1, LastErrorAt := now, LastError := etext e\<rparr>)"

lemma updateJob_lookup:
  "map_of (appJobs (updateJob now etext name err a)) x =
     (if x = name then Some (recordJob now etext err (case map_of (appJobs a) name of Some s \<Rightarrow> s | None \<Rightarrow> zeroJobState))
      else map_of (appJobs a) x)"
  by (auto simp: updateJob_def Let_def update_conv' recordJob_def split: option.splits)

lemma executeJob_jobs:
  assumes "executeJob now etext run name a = (err, a')" "keepsJobs run"
  shows "map_of (appJobs a') x =
     (if x = name then Some (recordJob now etext err (case map_of (appJobs a) name of Some s \<Rightarrow> s | None \<Rightarrow> zeroJobState))
      else map_of (appJobs a) x)"
proof -
  obtain o1 a1 where r: "run a = (o1, a1)" by fastforce
  with assms(2) have j: "appJobs a1 = appJobs a" by (metis keepsJobs_def snd_conv)
  show ?thesis
    using assms(1) r by (cases o1) (auto simp: executeJob_def updateJob_lookup j)
qed

lemma summary_snoc:
  "summary etext (hist @ [(now, name, err)]) =
     Some (recordJob now etext err (case summary etext hist of Some s \<Rightarrow> s | None \<Rightarrow> zeroJobState))"
  by (cases err) (auto simp: summary_def recordJob_def zeroJobState_def Let_def)

lemma executeAll_snoc:
  "executeAll etext (js @ [(now, run, name)]) a =
     (case executeAll etext js a of
        (hist, a1) \<Rightarrow> (case executeJob now etext run name a1 of (err, a2) \<Rightarrow> (hist @ [(now, name, err)], a2)))"
  by (induction js arbitrary: a) (auto split: prod.splits)

text \<open>
  C32: The heartbeat's table of jobs is the summary of what happened. However many jobs have run
  in whatever order, with whatever errors and panics, the state of each job counts its attempts
  and successes (to 64 bits), and tells the times of the last attempt, success and error and the
  last error, which is empty exactly after a success that came last.
\<close>
theorem jobs_accounted:
  assumes "list_all (\<lambda>(now, run, name). keepsJobs run) js" "appJobs a = []"
    and "executeAll etext js a = (hist, a')"
  shows "map_of (appJobs a') name = summary etext (ofJob name hist)"
  using assms(1,3)
proof (induction js arbitrary: hist a' rule: rev_induct)
  case Nil
  with assms(2) show ?case by (simp add: summary_def ofJob_def)
next
  case (snoc j js)
  obtain now run n where j: "j = (now, run, n)" by (cases j)
  obtain hist1 a1 where h: "executeAll etext js a = (hist1, a1)" by fastforce
  obtain err a2 where x: "executeJob now etext run n a1 = (err, a2)" by fastforce
  have r: "hist = hist1 @ [(now, n, err)]" "a' = a2"
    using snoc.prems(2) j h x by (simp_all add: executeAll_snoc)
  have "map_of (appJobs a1) m = summary etext (ofJob m hist1)" if "m = name" for m
    using snoc.IH [OF _ h] snoc.prems(1) that by simp
  then show ?case
    using executeJob_jobs [OF x, of name] snoc.prems(1) j r
    by (auto simp: ofJob_def summary_snoc)
qed

section \<open>Instances\<close>

definition exampleApp :: App where
  "exampleApp =
     \<lparr>appCfg = Defaults ''m4'', appHTTP = NewHTTPClient ''http://127.0.0.1:8080'' 0,
      appRunner = \<lparr>runBinary = ''/usr/local/bin/codexbar'', runTimeout = 0\<rparr>,
      appSpool = demoStored, appMachine = exampleMachine, appAgent = exampleAgent,
      appStartedAt = 0, appJobs = [], appVersion = '''', observed = []\<rparr>"

text \<open>A retained record in the spool, and a disk that is full.\<close>

definition keptRecord :: Record where
  "keptRecord = exampleRecord\<lparr>recClass := ''snapshot'', recRetain := True\<rparr>"

definition keepingApp :: App where
  "keepingApp = exampleApp\<lparr>appSpool := demoQueue\<lparr>entries := [(demoName, RegularFile (marshalRecord keptRecord))]\<rparr>\<rparr>"

definition fullDisk :: outside where
  "fullDisk =
     \<lparr>clock = 63885596802000000000, eventSource = (1750000000, None), spoolIDs = (\<lambda>_. (0, [])),
      spoolIO = unixIO\<lparr>writeOutcome := (\<lambda>_. OpenFailed)\<rparr>,
      server = \<lparr>parseErrText = id, requestErr = (\<lambda>_. None), doRequest = (\<lambda>_. Inl ''refused''),
                startedAt = 0, finishedAt = 0\<rparr>,
      runProcess = (\<lambda>_ _. \<lparr>procStdout = '''', procStderr = '''', procEnd = OtherError ''none'',
                procStarted = 0, procFinished = 0\<rparr>)\<rparr>"

lemma full_disk_spool: "appSpool (snd (enqueueObservation fullDisk obs a)) = appSpool a"
proof -
  have q: "snd (Enqueue (spoolIO fullDisk) ids rs q) = q" if "rs \<noteq> []" for ids rs q
    using that by (cases rs) (simp_all add: Enqueue_def fullDisk_def writeRecord_def Let_def)
  show ?thesis
  proof (cases "Marshal obs")
    case (Inr t)
    let ?rs = "observationRecords (appCfg a) obs t"
    show ?thesis
    proof (cases "?rs = []")
      case False
      with q [OF False, of "spoolIDs fullDisk" "appSpool a"] Inr show ?thesis
        by (simp add: enqueueObservation_def Let_def split_beta)
    qed (simp add: enqueueObservation_def Let_def Inr)
  qed (simp add: enqueueObservation_def Let_def)
qed

lemma full_disk_publish: "appSpool (snd (publishCollection fullDisk kind scope c payload err message a)) = appSpool a"
proof -
  have "appSpool (snd (case enqueueObservation fullDisk obs a of (Some e, a') \<Rightarrow> (f e, a') | (None, a') \<Rightarrow> (g, a'))) = appSpool a"
    for obs f g
    using full_disk_spool [of obs a] by (cases "enqueueObservation fullDisk obs a") (auto split: option.split)
  then show ?thesis by (simp only: publishCollection_def Let_def)
qed

theorem failed_collection_keeps_snapshots_witness:
  "parsedRecord (appSpool (snd (publishCollection fullDisk ''serve/health'' ''default''
      (exampleCollection\<lparr>Success := False\<rparr>) '''' None (Some ''refused'') keepingApp))) demoName = Some keptRecord \<and>
   parsedRecord (appSpool keepingApp) demoName = Some keptRecord"
proof -
  let ?p = "publishCollection fullDisk ''serve/health'' ''default'' (exampleCollection\<lparr>Success := False\<rparr>) ''''
      None (Some ''refused'') keepingApp"
  have "validRecord keptRecord"
    by (simp add: keptRecord_def validRecord_def exampleRecord_def validText_ascii asciiChar_def)
  then have "parsedRecord (appSpool keepingApp) demoName = Some keptRecord"
    by (simp add: parsedRecord_def fileContent_def keepingApp_def rc.read_back)
  then have kept: "parsedRecord (appSpool (snd ?p)) demoName = Some keptRecord"
    by (simp add: full_disk_publish)
  have "publishCollection fullDisk ''serve/health'' ''default'' (exampleCollection\<lparr>Success := False\<rparr>) '''' None
      (Some ''refused'') keepingApp = (fst ?p, snd ?p)" by simp
  from failed_collection_keeps_snapshots [OF this _ _ demoName_listed kept] kept show ?thesis
    by (simp add: keepingApp_def wfQueue_def demoQueue_def keptRecord_def)
qed

theorem jobs_accounted_witness:
  "map_of (appJobs (snd (executeAll (\<lambda>_. ''job panic'')
     [(5, \<lambda>a. (Completed None, a), ''x''), (9, \<lambda>a. (Panicked ''boom'', a), ''x'')] exampleApp))) ''x'' =
   Some \<lparr>LastAttemptAt = 9, LastSuccessAt = 5, LastErrorAt = 9, LastError = ''job panic'', Attempts = 2, Successes = 1\<rparr>"
proof -
  let ?js = "[(5 :: instant, \<lambda>a :: App. (Completed None, a), ''x''), (9, \<lambda>a. (Panicked ''boom'', a), ''x'')]"
  have k: "list_all (\<lambda>(now, run, name). keepsJobs run) ?js" by (simp add: keepsJobs_def)
  obtain hist a' where h: "executeAll (\<lambda>_. ''job panic'') ?js exampleApp = (hist, a')" by fastforce
  then have "hist = [(5, ''x'', None), (9, ''x'', Some (PanicErr ''boom''))]"
    by (simp add: executeJob_def)
  with jobs_accounted [OF k _ h, of "''x''"] h show ?thesis
    by (simp add: exampleApp_def summary_def ofJob_def Let_def)
qed

end
