(* ===== verification/Application.thy ===== *)
theory Application
  imports Broker Jobs
begin

text \<open>
  \<open>internal/app/app.go\<close>, \<open>doctor.go\<close> and the payload of \<open>discovery.go\<close>: how the application is
  put together, what it publishes when it connects, its heartbeat, the run-once mode and the
  doctor. A publish is a message and its outcome, which the MQTT client decides.
\<close>

section \<open>Construction\<close>

definition appVersionText :: string where "appVersionText = ''0.1.0-dev''"
definition appCommit :: string where "appCommit = ''unknown''"
definition appDate :: string where "appDate = ''unknown''"

text \<open>The MQTT configuration that \<open>New\<close> hands to the manager.\<close>

definition mqttConfig :: "AppConfig \<Rightarrow> Config" where
  "mqttConfig c =
     (let m = MQTT c in
      \<lparr>BrokerURL = MQTT_Broker m, ClientID = MQTT_ClientID m, Username = MQTT_Username m,
       Password = MQTT_Password m, KeepAlive = MQTT_KeepAliveSeconds m * second,
       ConnectTimeout = MQTT_ConnectTimeoutSeconds m * second,
       PublishTimeout = MQTT_PublishTimeoutSeconds m * second,
       ReconnectMin = MQTT_ReconnectMinSeconds m * second,
       ReconnectMax = MQTT_ReconnectMaxSeconds m * second,
       WillTopic = availabilityTopic c, WillPayload = bytes_of ''offline'', WillQoS = MQTT_QoS m,
       WillRetain = True, CAFile = TLS_CAFile (MQTT_TLS m), CertFile = TLS_CertFile (MQTT_TLS m),
       KeyFile = TLS_KeyFile (MQTT_TLS m), ServerName = TLS_ServerName (MQTT_TLS m),
       InsecureSkipVerify = TLS_InsecureSkipVerify (MQTT_TLS m), OnMessage = False\<rparr>)"

datatype new_error = NoBinary | NoSpool spool_error

text \<open>
  \<open>New\<close>: \<open>createErr\<close> tells whether the spool directory cannot be made, \<open>existing\<close> are its files, \<open>versionRun\<close> the process that prints the
  version, whose failure leaves it empty.
\<close>

definition newApp ::
    "host \<Rightarrow> (duration \<Rightarrow> string list \<Rightarrow> string + string) \<Rightarrow> bool \<Rightarrow> (string \<times> entry) list \<Rightarrow> string \<Rightarrow>
       instant \<Rightarrow> AppConfig \<Rightarrow> new_error + App" where
  "newApp h versionRun createErr existing hostname now c =
     (case DiscoverBinary h (CodexBar_Binary (CodexBar c)) of
        None \<Rightarrow> Inl NoBinary
      | Some binary \<Rightarrow>
          (let runner = \<lparr>runBinary = binary, runTimeout = CodexBar_CLITimeoutSeconds (CodexBar c) * second\<rparr>
           in case New (Spool_Directory (AppConfig.Spool c)) (Spool_MaxMessages (AppConfig.Spool c))
                     (Spool_MaxBytes (AppConfig.Spool c)) createErr existing of
                Inl e \<Rightarrow> Inl (NoSpool e)
              | Inr queue \<Rightarrow>
                  Inr \<lparr>appCfg = c,
                       appHTTP = NewHTTPClient (CodexBar_BaseURL (CodexBar c))
                                   (CodexBar_HTTPTimeoutSeconds (CodexBar c) * second),
                       appRunner = runner, appSpool = queue,
                       appMachine = \<lparr>ID = Machine_ID (AppConfig.Machine c), Name = Machine_Name (AppConfig.Machine c),
                                     Hostname = hostname, Tags = Machine_Tags (AppConfig.Machine c)\<rparr>,
                       appAgent = \<lparr>Version = appVersionText, Commit = appCommit, BuildDate = appDate\<rparr>,
                       appStartedAt = now, appJobs = [],
                       appVersion = (case runnerVersion versionRun runner of Inl _ \<Rightarrow> '''' | Inr v \<Rightarrow> v),
                       observed = []\<rparr>))"

section \<open>Payloads\<close>

text \<open>A map is written with its keys in order.\<close>

definition contractMajor :: int where "contractMajor = 1"

definition discoverySchema :: string where
  "discoverySchema = ''io.github.mplummeridge.codexbar_mqtt.discovery.v1''"

definition fleetJson :: "AppConfig \<Rightarrow> json" where
  "fleetJson c =
     JObj [(''contract_major'', JNum (intString contractMajor)),
           (''id'', jtext (fleetID (topicPrefix c))),
           (''topic_prefix'', jtext (joinTopic [topicPrefix c]))]"

definition contractEvents :: "AppConfig \<Rightarrow> string" where
  "contractEvents c = joinTopic [topicPrefix c, ''events'', machineID c, ''<kind>'']"

definition contractSnapshots :: "AppConfig \<Rightarrow> string" where
  "contractSnapshots c = joinTopic [topicPrefix c, ''nodes'', machineID c, ''snapshots'', ''<kind>'', ''<scope>'']"

definition metaPayload :: "string \<Rightarrow> string \<Rightarrow> instant \<Rightarrow> App \<Rightarrow> marshal_error + string" where
  "metaPayload goos goarch now a =
     (let c = appCfg a
      in case marshalTime now of
           None \<Rightarrow> Inl YearOutOfRange
         | Some published \<Rightarrow>
             Inr (renderJson (JObj
               [(''agent'', agentJson (appAgent a)),
                (''codexbar'', JObj
                   [(''base_url'', jtext (CodexBar_BaseURL (CodexBar c))),
                    (''binary'', jtext (runBinary (appRunner a))),
                    (''cli_version'', jtext (appVersion a)),
                    (''managed_serve'', JBool (CodexBar_ManageServe (CodexBar c)))]),
                (''fleet'', fleetJson c),
                (''machine'', machineJson (appMachine a)),
                (''platform'', JObj [(''arch'', jtext goarch), (''os'', jtext goos)]),
                (''published_at'', published),
                (''schema'', jtext ''io.github.mplummeridge.codexbar_mqtt.node_meta.v1''),
                (''topic_contract'', JObj
                   [(''availability'', jtext (availabilityTopic c)),
                    (''discovery'', jtext (discoveryTopic c)),
                    (''events'', jtext (contractEvents c)),
                    (''heartbeat'', jtext (heartbeatTopic c)),
                    (''snapshots'', jtext (contractSnapshots c))])])))"

text \<open>\<open>discoveryPayload\<close> joins the prefix first and passes the result on.\<close>

definition discoveryPayload :: "instant \<Rightarrow> App \<Rightarrow> marshal_error + string" where
  "discoveryPayload now a =
     (let c = appCfg a; prefix = joinTopic [topicPrefix c]
      in case marshalTime now of
           None \<Rightarrow> Inl YearOutOfRange
         | Some published \<Rightarrow>
             Inr (renderJson (JObj
               [(''agent'', agentJson (appAgent a)),
                (''fleet'', fleetJson c),
                (''machine'', machineJson (appMachine a)),
                (''published_at'', published),
                (''schema'', jtext discoverySchema),
                (''topic_contract'', JObj
                   [(''availability'', jtext (availabilityTopic c)),
                    (''events'', jtext (joinTopic [prefix, ''events'', machineID c, ''<kind>''])),
                    (''heartbeat'', jtext (heartbeatTopic c)),
                    (''meta'', jtext (metaTopic c)),
                    (''snapshots'', jtext (joinTopic [prefix, ''nodes'', machineID c, ''snapshots'', ''<kind>'', ''<scope>'']))])])))"

definition jobStateJson :: "JobState \<Rightarrow> json option" where
  "jobStateJson s =
     (case (marshalTime (LastAttemptAt s), marshalTime (LastSuccessAt s), marshalTime (LastErrorAt s)) of
        (Some attempt, Some success, Some failure) \<Rightarrow>
          Some (JObj ([(''last_attempt_at'', attempt), (''last_success_at'', success), (''last_error_at'', failure)] @
            omitText ''last_error'' (LastError s) @
            [(''attempts'', JNum (natString (unat (Attempts s)))), (''successes'', JNum (natString (unat (Successes s))))]))
      | _ \<Rightarrow> None)"

definition jobsJson :: "(string \<times> JobState) list \<Rightarrow> json option" where
  "jobsJson jobs =
     map_option (\<lambda>vs. JObj (zip (map (quoteText \<circ> fst) (sort_key fst jobs)) vs))
       (those (map (jobStateJson \<circ> snd) (sort_key fst jobs)))"

definition statsJson :: "Stats \<Rightarrow> json" where
  "statsJson s =
     JObj [(''messages'', JNum (natString (Messages s))), (''bytes'', JNum (intString (Bytes s))),
           (''dropped'', JNum (natString (unat (Dropped s))))]"

definition heartbeatPayload :: "instant \<Rightarrow> bool \<Rightarrow> Stats \<Rightarrow> App \<Rightarrow> marshal_error + string" where
  "heartbeatPayload now conn stats a =
     (case (jobsJson (appJobs a), marshalTime now) of
        (Some jobs, Some observedAt) \<Rightarrow>
          Inr (renderJson (JObj
            [(''jobs'', jobs),
             (''machine_id'', jtext (machineID (appCfg a))),
             (''mqtt_connected'', JBool conn),
             (''observed_at'', observedAt),
             (''schema'', jtext ''io.github.mplummeridge.codexbar_mqtt.heartbeat.v1''),
             (''spool'', statsJson stats),
             (''uptime_seconds'', JNum (intString ((now - appStartedAt a) sdiv second)))]))
      | _ \<Rightarrow> Inl YearOutOfRange)"

section \<open>Publishing\<close>

record message =
  msgTopic :: string
  msgQoS :: byte
  msgRetain :: bool
  msgPayload :: bytes

definition messageFor :: "App \<Rightarrow> string \<Rightarrow> bool \<Rightarrow> string \<Rightarrow> message" where
  "messageFor a topic retain payload =
     \<lparr>msgTopic = topic, msgQoS = MQTT_QoS (MQTT (appCfg a)), msgRetain = retain, msgPayload = bytes_of payload\<rparr>"

definition availabilityMessage :: "App \<Rightarrow> string \<Rightarrow> message" where
  "availabilityMessage a status = messageFor a (availabilityTopic (appCfg a)) True status"

text \<open>
  \<open>onMQTTConnect\<close>: the error it returns, the messages it tried to publish, in order, and whether
  it starts the drain of the spool. \<open>publish\<close> gives the outcome of each attempt.
\<close>

definition onMQTTConnect ::
    "(message \<Rightarrow> string option) \<Rightarrow> string \<Rightarrow> string \<Rightarrow> instant \<Rightarrow> instant \<Rightarrow> App \<Rightarrow>
       goError option \<times> message list \<times> bool" where
  "onMQTTConnect publish goos goarch now1 now2 a =
     (let online = availabilityMessage a ''online''
      in case publish online of
           Some e \<Rightarrow> (Some (PublishErr e), [online], False)
         | None \<Rightarrow>
             (case metaPayload goos goarch now1 a of
                Inl e \<Rightarrow> (Some (MarshalErr e), [online], False)
              | Inr payload \<Rightarrow>
                  (let meta = messageFor a (metaTopic (appCfg a)) True payload
                   in case publish meta of
                        Some e \<Rightarrow> (Some (PublishErr e), [online, meta], False)
                      | None \<Rightarrow>
                          (case discoveryPayload now2 a of
                             Inl _ \<Rightarrow> (None, [online, meta], True)
                           | Inr payload \<Rightarrow>
                               (None, [online, meta, messageFor a (discoveryTopic (appCfg a)) True payload], True)))))"

definition publishHeartbeat ::
    "(message \<Rightarrow> string option) \<Rightarrow> io \<Rightarrow> instant \<Rightarrow> bool \<Rightarrow> App \<Rightarrow> goError option \<times> message list" where
  "publishHeartbeat publish io now conn a =
     (case queueStats io (appSpool a) of
        Inl e \<Rightarrow> (Some (SpoolErr e), [])
      | Inr stats \<Rightarrow>
          (case heartbeatPayload now conn stats a of
             Inl e \<Rightarrow> (Some (MarshalErr e), [])
           | Inr payload \<Rightarrow>
               (let beat = messageFor a (heartbeatTopic (appCfg a)) True payload
                in (map_option PublishErr (publish beat), [beat]))))"

text \<open>One tick of \<open>drainLoop\<close>: a drain when the client is connected.\<close>

definition drainTick ::
    "bool \<Rightarrow> (nat \<Rightarrow> io) \<Rightarrow> (nat \<Rightarrow> Record \<Rightarrow> 'e option) \<Rightarrow> App \<Rightarrow>
       ('e drain_error option \<times> Record list \<times> App) option" where
  "drainTick conn ios publish a =
     (if \<not> conn then Some (None, [], a)
      else map_option (\<lambda>(err, published, q). (err, published, a\<lparr>appSpool := q\<rparr>)) (Drain ios publish (appSpool a)))"

section \<open>Waiting for the server\<close>

datatype wait_error = NotHealthy string | WaitCancelled

text \<open>\<open>healthy\<close>, \<open>late\<close> and \<open>cancelled\<close> are what the turns of the loop find.\<close>

partial_function (option) waitForServe ::
    "(nat \<Rightarrow> bool) \<Rightarrow> (nat \<Rightarrow> bool) \<Rightarrow> (nat \<Rightarrow> bool) \<Rightarrow> string \<Rightarrow> nat \<Rightarrow> wait_error option option" where
  "waitForServe healthy late cancelled url n =
     (if healthy n then Some None
      else if late n then Some (Some (NotHealthy url))
      else if cancelled n then Some (Some WaitCancelled)
      else waitForServe healthy late cancelled url (n + 1))"

section \<open>Run once\<close>

datatype once_error =
    WaitErr wait_error
  | ConnectErr string
  | OnceErr goError
  | StatsErr spool_error
  | DrainErr "string drain_error"

text \<open>
  The outside world of a run: the turns of \<open>waitForServe\<close>, the outcome of connecting, the clocks
  and the world of each job, the heartbeat's, and the system calls and publishes of each turn of
  the final drain.
\<close>

record onceWorld =
  owHealthy :: "nat \<Rightarrow> bool"
  owLate :: "nat \<Rightarrow> bool"
  owCancelled :: "nat \<Rightarrow> bool"
  owConnect :: "string option"
  owJobClock :: "nat \<Rightarrow> instant"
  owJobNanos :: "nat \<Rightarrow> int"
  owJobWorld :: "nat \<Rightarrow> nat \<Rightarrow> outside"
  owErrorText :: "goError \<Rightarrow> string"
  owHeartbeatIO :: io
  owHeartbeatClock :: instant
  owConnected :: bool
  owPublish :: "message \<Rightarrow> string option"
  owStatsIO :: "nat \<Rightarrow> io"
  owDrainIO :: "nat \<Rightarrow> nat \<Rightarrow> io"
  owDrainPublish :: "nat \<Rightarrow> nat \<Rightarrow> Record \<Rightarrow> string option"

definition runJob :: "onceWorld \<Rightarrow> nat \<Rightarrow> job \<Rightarrow> App \<Rightarrow> goError option \<times> App" where
  "runJob w i j a =
     executeJob (owJobClock w i) (owErrorText w)
       (\<lambda>a. case runTask (owJobNanos w i) (owJobWorld w i) (jobTask j) a of (e, a') \<Rightarrow> (Completed e, a'))
       (jobName j) a"

text \<open>Every job runs; the first error is kept.\<close>

fun runAllJobs :: "onceWorld \<Rightarrow> nat \<Rightarrow> job list \<Rightarrow> goError option \<Rightarrow> App \<Rightarrow> goError option \<times> App" where
  "runAllJobs w i [] first a = (first, a)"
| "runAllJobs w i (j # js) first a =
     (case runJob w i j a of
        (err, a') \<Rightarrow> runAllJobs w (i + 1) js (if err \<noteq> None \<and> first = None then err else first) a')"

partial_function (option) drainUntilEmpty ::
    "onceWorld \<Rightarrow> nat \<Rightarrow> App \<Rightarrow> (once_error option \<times> App) option" where
  "drainUntilEmpty w n a =
     (case queueStats (owStatsIO w n) (appSpool a) of
        Inl e \<Rightarrow> Some (Some (StatsErr e), a)
      | Inr stats \<Rightarrow>
          if Messages stats = 0 then Some (None, a)
          else (case Drain (owDrainIO w n) (owDrainPublish w n) (appSpool a) of
            None \<Rightarrow> None
          | Some (err, published, q) \<Rightarrow>
              (case err of
                 Some e \<Rightarrow> Some (Some (DrainErr e), a\<lparr>appSpool := q\<rparr>)
               | None \<Rightarrow> drainUntilEmpty w (n + 1) (a\<lparr>appSpool := q\<rparr>))))"

text \<open>
  The result is the error, the messages published beside the spool and the connection callback,
  in order, and the application. The outcome of the last publish is not looked at.
\<close>

definition RunOnce :: "onceWorld \<Rightarrow> App \<Rightarrow> (once_error option \<times> message list \<times> App) option" where
  "RunOnce w a =
     (case waitForServe (owHealthy w) (owLate w) (owCancelled w) (CodexBar_BaseURL (CodexBar (appCfg a))) 0 of
        None \<Rightarrow> None
      | Some (Some e) \<Rightarrow> Some (Some (WaitErr e), [], a)
      | Some None \<Rightarrow>
          (case owConnect w of
             Some e \<Rightarrow> Some (Some (ConnectErr (''connect MQTT: '' @ e)), [], a)
           | None \<Rightarrow>
               (case runAllJobs w 0 (buildJobs (appCfg a)) None a of
                  (first, a1) \<Rightarrow>
                    (let (err, beat) =
                           publishHeartbeat (owPublish w) (owHeartbeatIO w) (owHeartbeatClock w) (owConnected w) a1;
                         first = (if err \<noteq> None \<and> first = None then err else first)
                     in case drainUntilEmpty w 0 a1 of
                          None \<Rightarrow> None
                        | Some (Some e, a2) \<Rightarrow> Some (Some e, beat, a2)
                        | Some (None, a2) \<Rightarrow>
                            Some (map_option OnceErr first, beat @ [availabilityMessage a2 ''offline''], a2)))))"

section \<open>The doctor\<close>

record DoctorCheck =
  checkOK :: bool
  checkDetail :: string
  checkError :: string

record DoctorReport =
  reportOK :: bool
  reportMachineID :: string
  reportChecks :: "(string \<times> DoctorCheck) list"

definition setCheck :: "string \<Rightarrow> DoctorCheck \<Rightarrow> DoctorReport \<Rightarrow> DoctorReport" where
  "setCheck name check r =
     r\<lparr>reportChecks := AList.update name check (reportChecks r),
       reportOK := (if checkOK check then reportOK r else False)\<rparr>"

definition passed :: "string \<Rightarrow> DoctorCheck" where
  "passed detail = \<lparr>checkOK = True, checkDetail = detail, checkError = ''''\<rparr>"

definition failedCheck :: "string \<Rightarrow> DoctorCheck" where
  "failedCheck e = \<lparr>checkOK = False, checkDetail = '''', checkError = e\<rparr>"

text \<open>What the doctor finds outside: \<open>dwRowsErr\<close> is the text of an error of \<open>json.Unmarshal\<close>.\<close>

record doctorWorld =
  dwVersion :: "duration \<Rightarrow> string list \<Rightarrow> string + string"
  dwHealth :: exchange
  dwUsage :: exchange
  dwRowsErr :: string
  dwConnect :: "string option"
  dwPublish :: "message \<Rightarrow> string option"
  dwClock :: instant
  dwSpoolIO :: io
  dwSpoolText :: "spool_error \<Rightarrow> string"
  dwMarshalText :: "marshal_error \<Rightarrow> string"

text \<open>\<open>json.Unmarshal\<close> into a slice of raw messages: the number of rows.\<close>

definition usageRows :: "string \<Rightarrow> nat option" where
  "usageRows payload =
     (case parseJson payload of Some (JArr vs) \<Rightarrow> Some (length vs) | Some JNull \<Rightarrow> Some 0 | _ \<Rightarrow> None)"

definition versionCheck :: "doctorWorld \<Rightarrow> App \<Rightarrow> DoctorCheck" where
  "versionCheck w a =
     (case runnerVersion (dwVersion w) (appRunner a) of
        Inl e \<Rightarrow> failedCheck e
      | Inr v \<Rightarrow> passed (runBinary (appRunner a) @ '' ('' @ v @ '')''))"

definition healthCheck :: "doctorWorld \<Rightarrow> App \<Rightarrow> DoctorCheck" where
  "healthCheck w a =
     (case Fetch (dwHealth w) (appHTTP a) ''/health'' [] of
        (resp, Some e) \<Rightarrow> failedCheck (fetchErrorText e)
      | (resp, None) \<Rightarrow> passed (respPayload resp))"

definition usageCheck :: "doctorWorld \<Rightarrow> App \<Rightarrow> DoctorCheck" where
  "usageCheck w a =
     (case Fetch (dwUsage w) (appHTTP a) ''/usage'' [(''provider'', ''both'')] of
        (resp, Some e) \<Rightarrow> failedCheck (fetchErrorText e)
      | (resp, None) \<Rightarrow>
          (case usageRows (respPayload resp) of
             None \<Rightarrow> failedCheck (dwRowsErr w)
           | Some n \<Rightarrow> passed (natString n @ '' provider/account rows'')))"

definition doctorMessage :: "doctorWorld \<Rightarrow> App \<Rightarrow> message" where
  "doctorMessage w a =
     messageFor a (joinTopic [topicPrefix (appCfg a), ''doctor'', machineID (appCfg a)]) False
       (case marshalTime (dwClock w) of
          None \<Rightarrow> ''''
        | Some observedAt \<Rightarrow>
            renderJson (JObj [(''machine_id'', jtext (machineID (appCfg a))), (''observed_at'', observedAt),
              (''schema'', jtext ''io.github.mplummeridge.codexbar_mqtt.doctor.v1'')]))"

definition mqttCheck :: "doctorWorld \<Rightarrow> App \<Rightarrow> DoctorCheck" where
  "mqttCheck w a =
     (case dwConnect w of
        Some e \<Rightarrow> failedCheck e
      | None \<Rightarrow>
          (case dwPublish w (doctorMessage w a) of
             Some e \<Rightarrow> failedCheck e
           | None \<Rightarrow> passed (MQTT_Broker (MQTT (appCfg a)))))"

definition discoveryCheck :: "doctorWorld \<Rightarrow> App \<Rightarrow> DoctorCheck" where
  "discoveryCheck w a =
     (case discoveryPayload (dwClock w) a of
        Inl e \<Rightarrow> failedCheck (dwMarshalText w e)
      | Inr payload \<Rightarrow>
          (case dwPublish w (messageFor a (discoveryTopic (appCfg a)) True payload) of
             Some e \<Rightarrow> failedCheck e
           | None \<Rightarrow> passed (discoveryTopic (appCfg a))))"

definition spoolCheck :: "doctorWorld \<Rightarrow> App \<Rightarrow> DoctorCheck" where
  "spoolCheck w a =
     (case queueStats (dwSpoolIO w) (appSpool a) of
        Inl e \<Rightarrow> failedCheck (dwSpoolText w e)
      | Inr stats \<Rightarrow>
          passed (Spool_Directory (AppConfig.Spool (appCfg a)) @ '': '' @ natString (Messages stats) @ '' messages, '' @
            intString (Bytes stats) @ '' bytes''))"

text \<open>The messages the doctor publishes, after those of the connection callback.\<close>

definition doctorMessages :: "doctorWorld \<Rightarrow> App \<Rightarrow> message list" where
  "doctorMessages w a =
     (if dwConnect w \<noteq> None then []
      else doctorMessage w a #
        (case discoveryPayload (dwClock w) a of
           Inl e \<Rightarrow> []
         | Inr payload \<Rightarrow> [messageFor a (discoveryTopic (appCfg a)) True payload]))"

definition Doctor :: "doctorWorld \<Rightarrow> App \<Rightarrow> DoctorReport" where
  "Doctor w a =
     (let r = \<lparr>reportOK = True, reportMachineID = machineID (appCfg a), reportChecks = []\<rparr>;
          r = setCheck ''codexbar_binary'' (versionCheck w a) r;
          r = setCheck ''codexbar_health'' (healthCheck w a) r;
          r = setCheck ''codexbar_usage'' (usageCheck w a) r;
          r = setCheck ''mqtt'' (mqttCheck w a) r;
          r = (if dwConnect w = None then setCheck ''mqtt_discovery'' (discoveryCheck w a) r else r)
      in setCheck ''spool'' (spoolCheck w a) r)"

section \<open>Who says that the machine has gone\<close>

lemma object_payload: "msgPayload (messageFor a topic retain (renderJson (JObj ms))) \<noteq> bytes_of ''offline''"
  by (simp add: messageFor_def bytes_of_def)

text \<open>
  The doctor connects, so the agent's callback says \<open>online\<close>, and leaves without saying \<open>offline\<close>;
  so does a single run whose final drain fails.
\<close>

lemma doctor_never_offline:
  "list_all (\<lambda>m. msgPayload m \<noteq> bytes_of ''offline'') (doctorMessages w a)"
proof -
  have "msgPayload (messageFor a topic retain '''') \<noteq> bytes_of ''offline''" for topic retain
    by (simp add: messageFor_def bytes_of_def)
  then show ?thesis
    by (auto simp: doctorMessages_def doctorMessage_def discoveryPayload_def Let_def object_payload
        simp del: renderJson.simps split: option.splits sum.splits)
qed

lemma heartbeat_messages:
  assumes "publishHeartbeat publish io now conn b = (err, beat)"
  shows "beat = [] \<or> (\<exists>ms. beat = [messageFor b (heartbeatTopic (appCfg b)) True (renderJson (JObj ms))])"
  using assms
  by (auto simp: publishHeartbeat_def heartbeatPayload_def Let_def simp del: renderJson.simps
      split: option.splits sum.splits)

lemma failed_once_never_offline:
  assumes "RunOnce w a = Some (Some (DrainErr e), msgs, a')"
  shows "list_all (\<lambda>m. msgPayload m \<noteq> bytes_of ''offline'') msgs"
proof -
  have "list_all (\<lambda>m. msgPayload m \<noteq> bytes_of ''offline'') beat"
    if "publishHeartbeat publish io now conn b = (err, beat)" for publish io now conn b err beat
    using heartbeat_messages [OF that] object_payload by fastforce
  with assms show ?thesis
    by (auto simp: RunOnce_def Let_def split: option.splits prod.splits)
qed

section \<open>What is published on connecting\<close>


text \<open>The placeholders of the published topic contract lose their brackets.\<close>

lemma contract_placeholders:
  "contractEvents c = eventTopic c ''kind''" "contractSnapshots c = snapshotTopic c ''kind'' ''scope''"
proof -
  have "cleanPart ''<kind>'' = cleanPart ''kind''" "cleanPart ''<scope>'' = cleanPart ''scope''"
    by (simp_all add: cleanPart_def TopicSegment_def string_eval segRune_def Let_def)
  then show "contractEvents c = eventTopic c ''kind''" "contractSnapshots c = snapshotTopic c ''kind'' ''scope''"
    by (simp_all add: contractEvents_def contractSnapshots_def eventTopic_def snapshotTopic_def joinTopic_def)
qed

section \<open>The doctor\<close>

lemma setCheck_ok:
  "reportOK (setCheck name check r) = (checkOK check \<and> reportOK r)"
  "reportChecks (setCheck name check r) = AList.update name check (reportChecks r)"
  by (simp_all add: setCheck_def)

text \<open>
  C34: The doctor says that all is well exactly when each of its checks passed, and that is when
  the binary tells its version, the server answers the health request and the usage request with
  a list, the broker is reached and accepts the probe and the discovery beacon, and the spool can
  be read. Without a connection there is no check of the discovery beacon.
\<close>
theorem doctor_verdict:
  "reportOK (Doctor w a) = list_all (\<lambda>(name, check). checkOK check) (reportChecks (Doctor w a)) \<and>
   reportOK (Doctor w a) =
     ((\<exists>v. runnerVersion (dwVersion w) (appRunner a) = Inr v) \<and>
      snd (Fetch (dwHealth w) (appHTTP a) ''/health'' []) = None \<and>
      snd (Fetch (dwUsage w) (appHTTP a) ''/usage'' [(''provider'', ''both'')]) = None \<and>
      usageRows (respPayload (fst (Fetch (dwUsage w) (appHTTP a) ''/usage'' [(''provider'', ''both'')]))) \<noteq> None \<and>
      dwConnect w = None \<and> dwPublish w (doctorMessage w a) = None \<and>
      (\<exists>t. discoveryPayload (dwClock w) a = Inr t \<and>
         dwPublish w (messageFor a (discoveryTopic (appCfg a)) True t) = None) \<and>
      (\<exists>stats. queueStats (dwSpoolIO w) (appSpool a) = Inr stats))"
proof -
  have v: "checkOK (versionCheck w a) = (\<exists>v. runnerVersion (dwVersion w) (appRunner a) = Inr v)"
    by (auto simp: versionCheck_def passed_def failedCheck_def split: sum.splits)
  have h: "checkOK (healthCheck w a) = (snd (Fetch (dwHealth w) (appHTTP a) ''/health'' []) = None)"
    by (auto simp: healthCheck_def passed_def failedCheck_def split: prod.splits option.splits)
  have u: "checkOK (usageCheck w a) = (snd (Fetch (dwUsage w) (appHTTP a) ''/usage'' [(''provider'', ''both'')]) = None \<and>
      usageRows (respPayload (fst (Fetch (dwUsage w) (appHTTP a) ''/usage'' [(''provider'', ''both'')]))) \<noteq> None)"
    by (auto simp: usageCheck_def passed_def failedCheck_def split: prod.splits option.splits)
  have m: "checkOK (mqttCheck w a) = (dwConnect w = None \<and> dwPublish w (doctorMessage w a) = None)"
    by (auto simp: mqttCheck_def passed_def failedCheck_def split: option.splits)
  have d: "checkOK (discoveryCheck w a) = (\<exists>t. discoveryPayload (dwClock w) a = Inr t \<and>
      dwPublish w (messageFor a (discoveryTopic (appCfg a)) True t) = None)"
    by (auto simp: discoveryCheck_def passed_def failedCheck_def split: option.splits sum.splits)
  have s: "checkOK (spoolCheck w a) = (\<exists>stats. queueStats (dwSpoolIO w) (appSpool a) = Inr stats)"
    by (auto simp: spoolCheck_def passed_def failedCheck_def split: sum.splits)
  have "reportOK (Doctor w a) = (checkOK (versionCheck w a) \<and> checkOK (healthCheck w a) \<and> checkOK (usageCheck w a) \<and>
      checkOK (mqttCheck w a) \<and> (dwConnect w = None \<longrightarrow> checkOK (discoveryCheck w a)) \<and> checkOK (spoolCheck w a))"
    by (cases "dwConnect w") (simp_all add: Doctor_def Let_def setCheck_ok conj_ac)
  moreover have "list_all (\<lambda>(name, check). checkOK check) (reportChecks (Doctor w a)) =
      (checkOK (versionCheck w a) \<and> checkOK (healthCheck w a) \<and> checkOK (usageCheck w a) \<and>
      checkOK (mqttCheck w a) \<and> (dwConnect w = None \<longrightarrow> checkOK (discoveryCheck w a)) \<and> checkOK (spoolCheck w a))"
    by (cases "dwConnect w") (simp_all add: Doctor_def Let_def setCheck_ok conj_ac)
  ultimately show ?thesis
    by (cases "dwConnect w = None") (simp_all only: v h u m d s simp_thms conj_assoc)
qed

section \<open>Run once\<close>

lemma waitForServe_returns:
  assumes "late (n + k)" shows "\<exists>r. waitForServe healthy late cancelled url n = Some r"
  using assms
proof (induction k arbitrary: n)
  case 0
  then show ?case by (subst waitForServe.simps) simp
next
  case (Suc k)
  then show ?case using Suc.IH [of "Suc n"] by (subst waitForServe.simps) simp
qed

definition okQueue :: "Queue \<Rightarrow> bool" where
  "okQueue q \<longleftrightarrow> wfQueue q \<and> 0 \<le> maxMessages q \<and> 0 \<le> maxBytes q"

lemma Enqueue_ok: "Enqueue io ids rs q = (e, q') \<Longrightarrow> okQueue q \<Longrightarrow> okQueue q'"
proof -
  assume e: "Enqueue io ids rs q = (e, q')" and ok: "okQueue q"
  obtain e1 q1 where w: "writeRecords io ids 0 rs q = (e1, q1)" by fastforce
  have q1: "okQueue q1" using writeRecords_wf [OF w] ok by (simp add: okQueue_def)
  show "okQueue q'"
  proof (cases e1)
    case None
    with e w have "pruneLocked io q1 = (e, q')" by (simp add: Enqueue_def)
    from prune_counts [OF this] q1 show ?thesis by (simp add: okQueue_def)
  qed (use e w q1 in \<open>simp add: Enqueue_def\<close>)
qed

lemma enqueueObservation_ok:
  assumes "enqueueObservation w obs a = (e, a')" "okQueue (appSpool a)" shows "okQueue (appSpool a')"
proof (cases "Marshal obs")
  case (Inr t)
  obtain e1 q1 where q: "Enqueue (spoolIO w) (spoolIDs w) (observationRecords (appCfg a) obs t) (appSpool a) = (e1, q1)"
    by fastforce
  show ?thesis
    using assms Inr Enqueue_ok [OF q assms(2)] q
    by (auto simp: enqueueObservation_def Let_def split: if_splits)
qed (use assms in \<open>auto simp: enqueueObservation_def Let_def\<close>)

lemma publishCollection_ok:
  assumes "publishCollection w kind scope c payload err message a = (e, a')" "okQueue (appSpool a)"
  shows "okQueue (appSpool a')"
  using assms unfolding publishCollection_def Let_def
  by (auto split: prod.splits option.splits dest: enqueueObservation_ok)

lemma collect_ok:
  "collectHTTPMeta w kind scope sem path query meta a = (e, a') \<Longrightarrow> okQueue (appSpool a) \<Longrightarrow> okQueue (appSpool a')"
  "collectCLIMeta w kind scope sem args meta a = (e, a') \<Longrightarrow> okQueue (appSpool a) \<Longrightarrow> okQueue (appSpool a')"
  by (auto simp: collectHTTPMeta_def collectCLIMeta_def split: prod.splits dest: publishCollection_ok)

lemma probeAll_ok: "probeAll ws i meta ps a = (errs, a') \<Longrightarrow> okQueue (appSpool a) \<Longrightarrow> okQueue (appSpool a')"
proof (induction ps arbitrary: i a errs a')
  case (Cons p ps)
  obtain e a1 where c: "collectCLIMeta (ws i) ''cli/active-account-probe'' p ''cost_attribution_account_bracket''
      (probeArgs p) meta a = (e, a1)" by fastforce
  obtain es a2 where r: "probeAll ws (i + 1) meta ps a1 = (es, a2)" by fastforce
  with c Cons.prems(1) have "a' = a2" by simp
  with Cons.IH [OF r] collect_ok(2) [OF c Cons.prems(2)] show ?case by simp
qed simp

lemma runTask_ok: "runTask nanos ws t a = (e, a') \<Longrightarrow> okQueue (appSpool a) \<Longrightarrow> okQueue (appSpool a')"
proof (cases t)
  case (CostCycle scope query)
  assume run: "runTask nanos ws t a = (e, a')" and ok: "okQueue (appSpool a)"
  let ?ps = "distinctProviders [] (Poll_ActiveAccountProbeProviders (Poll (appCfg a)))"
  let ?cy = "cycleID (appCfg a) nanos"
  obtain before a1 where b: "probeAll ws 0 \<lparr>metaCorrelationID = ?cy, metaPhase = ''before-cost''\<rparr> ?ps a = (before, a1)"
    by fastforce
  obtain err a2 where c: "collectHTTPMeta (ws (length ?ps)) ''serve/cost'' scope ''machine_local_cost_snapshot'' ''/cost''
      query \<lparr>metaCorrelationID = ?cy, metaPhase = ''cost''\<rparr> a1 = (err, a2)" by fastforce
  obtain after a3 where d:
    "probeAll ws (length ?ps + 1) \<lparr>metaCorrelationID = ?cy, metaPhase = ''after-cost''\<rparr> ?ps a2 = (after, a3)"
    by fastforce
  have "a' = a3" using run CostCycle b c d by (simp add: runCostAttributionCycle_def Let_def)
  then show ?thesis using probeAll_ok [OF b ok] collect_ok(1) [OF c] probeAll_ok [OF d] by simp
qed (auto dest: collect_ok)

definition goodJob :: "App \<Rightarrow> string \<Rightarrow> bool" where
  "goodJob a name \<longleftrightarrow> (\<exists>s. map_of (appJobs a) name = Some s \<and> LastError s = '''')"

lemma runJob_result:
  assumes "runJob w i j a = (err, a')"
  shows "appCfg a' = appCfg a \<and> (okQueue (appSpool a) \<longrightarrow> okQueue (appSpool a')) \<and>
    (err = None \<longrightarrow> goodJob a' (jobName j)) \<and> (err = None \<longrightarrow> goodJob a n \<longrightarrow> goodJob a' n)"
proof -
  let ?run = "\<lambda>a. case runTask (owJobNanos w i) (owJobWorld w i) (jobTask j) a of (e, a') \<Rightarrow> (Completed e, a')"
  have x: "executeJob (owJobClock w i) (owErrorText w) ?run (jobName j) a = (err, a')"
    using assms by (simp add: runJob_def)
  note jobs = executeJob_jobs [OF x task_keeps_jobs]
  obtain e a1 where t: "runTask (owJobNanos w i) (owJobWorld w i) (jobTask j) a = (e, a1)" by fastforce
  have "appSpool a' = appSpool a1" "appCfg a' = appCfg a1"
    using x t by (auto simp: executeJob_def updateJob_def Let_def)
  with runTask_ok [OF t] runTask_frame [OF t] jobs [of n] jobs [of "jobName j"] show ?thesis
    by (auto simp: goodJob_def recordJob_def)
qed

lemma runAllJobs_result:
  assumes "runAllJobs w i js first a = (f, a')"
  shows "appCfg a' = appCfg a \<and> (okQueue (appSpool a) \<longrightarrow> okQueue (appSpool a')) \<and> (f = None \<longrightarrow> first = None) \<and>
    (f = None \<longrightarrow> goodJob a n \<or> n \<in> jobName ` set js \<longrightarrow> goodJob a' n)"
  using assms
proof (induction js arbitrary: i first a)
  case (Cons j js)
  obtain err a1 where r: "runJob w i j a = (err, a1)" by fastforce
  with Cons.prems have rest: "runAllJobs w (i + 1) js (if err \<noteq> None \<and> first = None then err else first) a1 = (f, a')"
    by simp
  from Cons.IH [OF rest] runJob_result [OF r, of n] show ?case
    by (auto split: if_splits)
qed simp

lemma peekRetry_none:
  assumes "peekUnlockedRetry io k q = Some (res, q')" "res = Inr None"
  shows "listFiles io q' = []"
proof -
  have "fst (res, q') = Inr None \<longrightarrow> listFiles io (snd (res, q')) = []"
  proof (rule peekUnlockedRetry.raw_induct
      [where P = "\<lambda>io k q out. fst out = Inr None \<longrightarrow> listFiles io (snd out) = []", OF _ assms(1)])
    fix f io k q out
    assume ih: "\<And>io k q out. f io k q = Some out \<Longrightarrow> fst out = Inr None \<longrightarrow> listFiles io (snd out) = []"
      and eq: "(case listLocked io k q of
        Inl e \<Rightarrow> Some (Inl e, q)
      | Inr (files, tot) \<Rightarrow>
          (case files of
             [] \<Rightarrow> Some (Inr None, q)
           | (name, bytes) # _ \<Rightarrow>
               if readErr io name then Some (Inl ReadErr, q)
               else (case readRecord io q name of
                 None \<Rightarrow> f io (Suc k) (countDrop (if removeErr io name then q else removeFile name q))
               | Some r \<Rightarrow> Some (Inr (Some (name, r)), q)))) = Some out"
    show "fst out = Inr None \<longrightarrow> listFiles io (snd out) = []"
    proof (cases "readDirErr io k \<or> listFiles io q = []")
      case True
      then show ?thesis using eq by (cases "readDirErr io k") (auto simp: listLocked_def)
    next
      case False
      then obtain n b files where l: "listFiles io q = (n, b) # files" by (cases "listFiles io q") auto
      with eq False show ?thesis
        by (cases "readErr io n"; cases "readRecord io q n") (auto simp: listLocked_def dest: ih)
    qed
  qed
  with assms(2) show ?thesis by simp
qed

lemma peek_none: "peek io q = Some (Inr None, q') \<Longrightarrow> listFiles io q' = []"
  unfolding peek_as_retry by (rule peekRetry_none [where res = "Inr None"]) simp_all

lemma drainLoop_empties:
  assumes "drainLoop ios publish i pub q = Some (None, published, q')"
  shows "\<exists>j. listFiles (ios j) q' = []"
proof -
  have "fst (None :: 'a drain_error option, published, q') = None \<longrightarrow> (\<exists>j. listFiles (ios j) (snd (snd (None :: 'a drain_error option, published, q'))) = [])"
  proof (rule drainLoop.raw_induct
      [where P = "\<lambda>ios publish i pub q out. fst out = None \<longrightarrow> (\<exists>j. listFiles (ios j) (snd (snd out)) = [])", OF _ assms])
    fix f and ios :: "nat \<Rightarrow> io" and publish :: "nat \<Rightarrow> Record \<Rightarrow> 'a option" and i pub q out
    assume ih: "\<And>ios publish i pub q out. f ios publish i pub q = Some out \<Longrightarrow>
        fst out = None \<longrightarrow> (\<exists>j. listFiles (ios j) (snd (snd out)) = [])"
      and eq: "(case peek (ios i) q of
        None \<Rightarrow> None
      | Some (Inl e, q1) \<Rightarrow> Some (Some (QueueErr e), pub, q1)
      | Some (Inr None, q1) \<Rightarrow> Some (None, pub, q1)
      | Some (Inr (Some (name, r)), q1) \<Rightarrow>
          (case publish i r of
             None \<Rightarrow>
               (case removePublished (ios i) name q1 of
                  (None, q2) \<Rightarrow> f ios publish (Suc i) (pub @ [r]) q2
                | (Some e, q2) \<Rightarrow> Some (Some (QueueErr e), pub @ [r], q2))
           | Some e \<Rightarrow> Some (Some (drain_error.PublishErr e), pub, q1))) = Some out"
    show "fst out = None \<longrightarrow> (\<exists>j. listFiles (ios j) (snd (snd out)) = [])"
      using eq ih
      by (auto split: option.splits sum.splits prod.splits dest!: peek_none)
  qed
  then show ?thesis by simp
qed
definition calmWorld :: "onceWorld \<Rightarrow> bool" where
  "calmWorld w \<longleftrightarrow> (\<forall>n. calm (owStatsIO w n)) \<and> (\<forall>n i. calm (owDrainIO w n i)) \<and>
     (\<forall>n i r. owDrainPublish w n i r = None)"

lemma specDrain_all: "(\<And>i r. publish i r = None) \<Longrightarrow> specDrain publish i rs = (None, map snd rs, [])"
  by (induction rs arbitrary: i) auto

lemma Drain_all:
  assumes "\<And>i. calm (ios i)" "\<And>i r. publish i r = None" "okQueue q"
  shows "\<exists>published q'. Drain ios publish q = Some (None, published, q') \<and> listFiles unixIO q' = []"
proof -
  have "specDrain publish 0 (queued q) = (None, map snd (queued q), [])"
    by (rule specDrain_all) (rule assms(2))
  then obtain q' where d: "drainLoop ios publish 0 [] q = Some (None, [] @ map snd (queued q), q')"
    using drainLoop_spec [of ios q publish 0 None "map snd (queued q)" "[]" "[]"] assms(1,3)
    by (auto simp: okQueue_def)
  from drainLoop_empties [OF d] obtain j where "listFiles (ios j) q' = []" by blast
  then have "listFiles unixIO q' = []" using calm_list [OF assms(1)] by metis
  with d show ?thesis by (auto simp: Drain_def)
qed

lemma drainUntilEmpty_returns:
  assumes "calmWorld w" "okQueue (appSpool a)"
  shows "\<exists>a'. drainUntilEmpty w n a = Some (None, a') \<and> appJobs a' = appJobs a \<and> appCfg a' = appCfg a \<and>
    listFiles unixIO (appSpool a') = []"
proof -
  have calm: "calm (owStatsIO w m)" "calm (owDrainIO w m i)" "owDrainPublish w m i r = None" for m i r
    using assms(1) by (simp_all add: calmWorld_def)
  have stats: "queueStats (owStatsIO w m) q =
      Inr \<lparr>Messages = length (listFiles unixIO q), Bytes = totalSize (listFiles unixIO q), Dropped = dropped q\<rparr>" for m q
  proof -
    have "\<not> readDirErr (owStatsIO w m) 0" using calm(1) by (simp add: calm_def)
    then show ?thesis by (simp add: queueStats_def listLocked_def calm_list [OF calm(1)])
  qed
  have empty: "drainUntilEmpty w m b = Some (None, b)" if "listFiles unixIO (appSpool b) = []" for m b
    using that by (subst drainUntilEmpty.simps) (simp add: stats)
  show ?thesis
  proof (cases "listFiles unixIO (appSpool a) = []")
    case True
    with empty [OF True] show ?thesis by blast
  next
    case False
    obtain published q' where d: "Drain (owDrainIO w n) (owDrainPublish w n) (appSpool a) = Some (None, published, q')"
      and e: "listFiles unixIO q' = []"
      using Drain_all [of "owDrainIO w n" "owDrainPublish w n" "appSpool a"] calm assms(2) by blast
    let ?b = "a\<lparr>appSpool := q'\<rparr>"
    have "drainUntilEmpty w n a = drainUntilEmpty w (n + 1) ?b"
      using False by (subst drainUntilEmpty.simps) (simp add: stats d)
    with empty [of ?b "n + 1"] e show ?thesis by simp
  qed
qed


text \<open>An instance: nothing is polled, and the record in the spool is delivered.\<close>

definition quietApp :: App where
  "quietApp = exampleApp\<lparr>appCfg := (appCfg exampleApp)\<lparr>Poll := (Poll (appCfg exampleApp))
     \<lparr>Poll_HealthSeconds := 0, Poll_UsageSeconds := 0, Poll_CostSeconds := 0, Poll_AllProvidersSeconds := 0,
      Poll_StatusSeconds := 0, Poll_ActiveAccountProbeSeconds := 0, Poll_AccountCatalogueSeconds := 0,
      Poll_CostHorizonSeconds := 0, Poll_ConfigValidateSeconds := 0\<rparr>\<rparr>\<rparr>"

definition quietWorld :: onceWorld where
  "quietWorld =
     \<lparr>owHealthy = (\<lambda>_. True), owLate = (\<lambda>_. False), owCancelled = (\<lambda>_. False), owConnect = None,
      owJobClock = (\<lambda>_. 0), owJobNanos = (\<lambda>_. 0), owJobWorld = (\<lambda>_ _. fullDisk), owErrorText = (\<lambda>_. ''''),
      owHeartbeatIO = unixIO, owHeartbeatClock = 0, owConnected = True, owPublish = (\<lambda>_. None),
      owStatsIO = (\<lambda>_. unixIO), owDrainIO = (\<lambda>_ _. unixIO), owDrainPublish = (\<lambda>_ _ _. None)\<rparr>"


end
