(* ===== verification/Agent.thy ===== *)
theory Agent
  imports Application
begin

text \<open>
  \<open>App.Run\<close>: the goroutines of a running agent as one step relation. A step is what a goroutine
  does between two points where another one may come in: one collection of a job up to its
  \<open>Enqueue\<close>, which holds the mutex of the spool; the record a job leaves in the table; a system
  call or a publish of the drain, which holds \<open>drainMu\<close>; a connection with its callback; a
  heartbeat. \<open>agAccepted\<close>, \<open>agAcked\<close> and \<open>agPruned\<close> are ghosts, as in the log of the spool.
\<close>

section \<open>A task as the collections it makes\<close>

datatype call =
    HTTPCall string string string string "(string \<times> string) list" collectionMeta
  | CLICall string string string "string list" collectionMeta

fun runCall :: "outside \<Rightarrow> call \<Rightarrow> App \<Rightarrow> goError option \<times> App" where
  "runCall w (HTTPCall kind scope sem path query meta) a = collectHTTPMeta w kind scope sem path query meta a"
| "runCall w (CLICall kind scope sem args meta) a = collectCLIMeta w kind scope sem args meta a"

fun callObservation :: "outside \<Rightarrow> call \<Rightarrow> App \<Rightarrow> Observation" where
  "callObservation w (HTTPCall kind scope sem path query meta) a =
     (case Fetch (server w) (appHTTP a) path query of
        (response, e) \<Rightarrow>
          collectedObservation w kind scope (httpCollection sem path query meta response e) (respPayload response)
            (map_option fetchErrorText e) a)"
| "callObservation w (CLICall kind scope sem args meta) a =
     (case RunJSON (runProcess w) (appRunner a) args of
        (response, e) \<Rightarrow>
          collectedObservation w kind scope
            (cliCollection (Publish_IncludeStderr (Publish (appCfg a))) sem args meta response e)
            (cmdPayload response) (map_option runErrorText e) a)"

definition bracket :: "string \<Rightarrow> string \<Rightarrow> string list \<Rightarrow> call list" where
  "bracket cycle phase providers =
     map (\<lambda>p. CLICall ''cli/active-account-probe'' p ''cost_attribution_account_bracket'' (probeArgs p)
       \<lparr>metaCorrelationID = cycle, metaPhase = phase\<rparr>) providers"

fun taskCalls :: "AppConfig \<Rightarrow> int \<Rightarrow> task \<Rightarrow> call list" where
  "taskCalls c nanos (HTTPTask kind scope sem path query) = [HTTPCall kind scope sem path query noMeta]"
| "taskCalls c nanos (CLITask kind scope sem args) = [CLICall kind scope sem args noMeta]"
| "taskCalls c nanos (CostCycle scope query) =
     (let cycle = cycleID c nanos;
          providers = distinctProviders [] (Poll_ActiveAccountProbeProviders (Poll c))
      in bracket cycle ''before-cost'' providers @
         [HTTPCall ''serve/cost'' scope ''machine_local_cost_snapshot'' ''/cost'' query
            \<lparr>metaCorrelationID = cycle, metaPhase = ''cost''\<rparr>] @
         bracket cycle ''after-cost'' providers)"

fun taskResult :: "task \<Rightarrow> goError option list \<Rightarrow> goError option" where
  "taskResult (CostCycle scope query) errs = joinErrors errs"
| "taskResult t errs = hd errs"

fun runCalls :: "(nat \<Rightarrow> outside) \<Rightarrow> nat \<Rightarrow> call list \<Rightarrow> App \<Rightarrow> goError option list \<times> App" where
  "runCalls ws i [] a = ([], a)"
| "runCalls ws i (c # cs) a =
     (case runCall (ws i) c a of
        (e, a') \<Rightarrow> (case runCalls ws (i + 1) cs a' of (es, a'') \<Rightarrow> (e # es, a'')))"

lemma runCall_observes:
  "\<exists>e. runCall w c a =
     (case enqueueObservation w (callObservation w c a) a of
        (Some e', a') \<Rightarrow> (joinErrors [e, Some e'], a') | (None, a') \<Rightarrow> (e, a'))"
  by (cases c) (auto simp: collectHTTPMeta_def collectCLIMeta_def publishCollection_def split: prod.splits)

lemma runCalls_append:
  "runCalls ws i (cs @ ds) a =
     (case runCalls ws i cs a of
        (es, a') \<Rightarrow> (case runCalls ws (i + length cs) ds a' of (fs, a'') \<Rightarrow> (es @ fs, a'')))"
  by (induction cs arbitrary: i a) (auto split: prod.splits)

text \<open>The errors that happened, of a list of outcomes.\<close>

definition happened :: "goError option list \<Rightarrow> goError list" where
  "happened es = concat (map (\<lambda>e. case e of None \<Rightarrow> [] | Some e \<Rightarrow> [e]) es)"

lemma happened_simps [simp]:
  "happened [] = []" "happened (None # es) = happened es" "happened (Some e # es) = e # happened es"
  "happened (es @ fs) = happened es @ happened fs" "happened (map Some gs) = gs"
  by (simp_all add: happened_def) (induction gs, simp_all)

lemma happened_Cons: "happened (e # es) = (case e of None \<Rightarrow> [] | Some e \<Rightarrow> [e]) @ happened es"
  by (simp add: happened_def)

lemma joinErrors_happened: "joinErrors es = (if happened es = [] then None else Some (JoinedErr (happened es)))"
  by (simp add: joinErrors_def happened_def Let_def)

lemma probeAll_calls:
  "probeAll ws i \<lparr>metaCorrelationID = cycle, metaPhase = phase\<rparr> ps a =
     (case runCalls ws i (bracket cycle phase ps) a of (es, a') \<Rightarrow> (happened es, a'))"
  by (induction ps arbitrary: i a) (auto simp: bracket_def split: prod.splits option.splits)


section \<open>The running agent\<close>

record worker =
  wJob :: job
  wSched :: "schedPhase \<times> nat"
  wRun :: "(call list \<times> goError option list) option"

record agent =
  agApp :: App
  agWorkers :: "worker list"
  agDraining :: bool
  agPending :: nat
  agDrain :: drainPhase
  agConnected :: bool
  agSent :: "message list"
  agBeat :: "schedPhase \<times> bool"
  agCancelled :: bool
  agStopped :: bool
  agAccepted :: "(string \<times> Record) list"
  agAcked :: "(string \<times> Record) list"
  agPruned :: "string list"

definition begun :: "AppConfig \<Rightarrow> int \<Rightarrow> job \<Rightarrow> (call list \<times> goError option list) option" where
  "begun c nanos j = Some (taskCalls c nanos (jobTask j), [])"

definition startWorker :: "AppConfig \<Rightarrow> int \<Rightarrow> job \<Rightarrow> worker" where
  "startWorker c nanos j =
     \<lparr>wJob = j, wSched = schedStart j, wRun = (if jobDelay j > 0 then None else begun c nanos j)\<rparr>"

text \<open>An event of the scheduler: it starts an execution when it counts one.\<close>

definition wake :: "AppConfig \<Rightarrow> int \<Rightarrow> schedEvent \<Rightarrow> worker \<Rightarrow> worker" where
  "wake c nanos e w =
     (let sched = schedStep (wSched w) e
      in w\<lparr>wSched := sched, wRun := (if snd sched > snd (wSched w) then begun c nanos (wJob w) else None)\<rparr>)"

text \<open>\<open>heartbeatLoop\<close>: where it is, and whether a heartbeat is due.\<close>

definition beatStart :: "AppConfig \<Rightarrow> schedPhase \<times> bool" where
  "beatStart c = (if Poll_HeartbeatSeconds (Poll c) * second \<le> 0 then (Ended, False) else (Ticking, True))"

fun beatStep :: "schedPhase \<times> bool \<Rightarrow> schedEvent \<Rightarrow> schedPhase \<times> bool" where
  "beatStep (Ticking, False) TickerFired = (Ticking, True)"
| "beatStep (Ticking, False) ContextDone = (Ended, False)"
| "beatStep b e = b"

definition startAgent :: "int \<Rightarrow> App \<Rightarrow> agent" where
  "startAgent nanos a =
     \<lparr>agApp = a, agWorkers = map (startWorker (appCfg a) nanos) (buildJobs (appCfg a)), agDraining = False,
      agPending = 0, agDrain = DrainIdle, agConnected = False, agSent = [],
      agBeat = beatStart (appCfg a), agCancelled = False,
      agStopped = False, agAccepted = [], agAcked = [], agPruned = []\<rparr>"

text \<open>The agent as its spool sees it.\<close>

definition spooler :: "agent \<Rightarrow> Spooler" where
  "spooler s =
     \<lparr>spQueue = appSpool (agApp s), spPhase = agDrain s, accepted = agAccepted s, acked = agAcked s,
      pruned = agPruned s\<rparr>"

definition recordsOf :: "App \<Rightarrow> Observation \<Rightarrow> Record list" where
  "recordsOf a obs = (case Marshal obs of Inl _ \<Rightarrow> [] | Inr t \<Rightarrow> observationRecords (appCfg a) obs t)"

definition newRecords :: "outside \<Rightarrow> call \<Rightarrow> App \<Rightarrow> Record list" where
  "newRecords w c a = completeAll (spoolIDs w) 0 (recordsOf a (callObservation w c a))"

text \<open>The directory when the files are written and before it is pruned.\<close>

definition writtenQueue :: "outside \<Rightarrow> call \<Rightarrow> App \<Rightarrow> Queue" where
  "writtenQueue w c a =
     snd (writeRecords (spoolIO w) (spoolIDs w) 0 (recordsOf a (callObservation w c a)) (appSpool a))"

text \<open>The \<open>i\<close>-th job makes the collection \<open>c\<close>, the first of those it has left.\<close>

definition collect :: "outside \<Rightarrow> nat \<Rightarrow> call \<Rightarrow> call list \<Rightarrow> goError option list \<Rightarrow> agent \<Rightarrow> agent" where
  "collect w i c cs errs s =
     (case runCall w c (agApp s) of
        (err, a') \<Rightarrow>
          s\<lparr>agApp := a', agWorkers := (agWorkers s)[i := (agWorkers s ! i)\<lparr>wRun := Some (cs, errs @ [err])\<rparr>],
            agAccepted := agAccepted s @ committed (writtenQueue w c (agApp s)) (newRecords w c (agApp s)),
            agPruned := agPruned s @ removedNames (spoolIO w) (writtenQueue w c (agApp s)) (appSpool a')\<rparr>)"

text \<open>The \<open>i\<close>-th job ends, and the table is updated.\<close>

definition finish :: "instant \<Rightarrow> (goError \<Rightarrow> string) \<Rightarrow> nat \<Rightarrow> goError option \<Rightarrow> agent \<Rightarrow> agent" where
  "finish now etext i err s =
     s\<lparr>agApp := updateJob now etext (jobName (wJob (agWorkers s ! i))) err (agApp s),
       agWorkers := (agWorkers s)[i := (agWorkers s ! i)\<lparr>wRun := None\<rparr>]\<rparr>"

definition withSpool :: "Queue \<Rightarrow> agent \<Rightarrow> agent" where
  "withSpool q s = s\<lparr>agApp := (agApp s)\<lparr>appSpool := q\<rparr>\<rparr>"

inductive localStep :: "(goError \<Rightarrow> string) \<Rightarrow> agent \<Rightarrow> agent \<Rightarrow> bool" for etext where
  wakes:
    "i < length (agWorkers s) \<Longrightarrow> wRun (agWorkers s ! i) = None \<Longrightarrow> e \<noteq> ContextDone \<or> agCancelled s \<Longrightarrow>
     localStep etext s (s\<lparr>agWorkers := (agWorkers s)[i := wake (appCfg (agApp s)) nanos e (agWorkers s ! i)]\<rparr>)"
| collects:
    "i < length (agWorkers s) \<Longrightarrow> wRun (agWorkers s ! i) = Some (c # cs, errs) \<Longrightarrow>
     freshRecords (spooler s) (newRecords w c (agApp s)) \<Longrightarrow>
     localStep etext s (collect w i c cs errs s)"
| finishes:
    "i < length (agWorkers s) \<Longrightarrow> wRun (agWorkers s ! i) = Some ([], errs) \<Longrightarrow>
     localStep etext s (finish now etext i (taskResult (jobTask (wJob (agWorkers s ! i))) errs) s)"
| panics:
    "i < length (agWorkers s) \<Longrightarrow> wRun (agWorkers s ! i) \<noteq> None \<Longrightarrow>
     localStep etext s (finish now etext i (Some (PanicErr what)) s)"
| beatWakes:
    "e \<noteq> ContextDone \<or> agCancelled s \<Longrightarrow> localStep etext s (s\<lparr>agBeat := beatStep (agBeat s) e\<rparr>)"
| beats:
    "agBeat s = (ph, True) \<Longrightarrow>
     publishHeartbeat publish io now (agConnected s) (agApp s) = (err, msgs) \<Longrightarrow>
     localStep etext s (s\<lparr>agSent := agSent s @ msgs, agBeat := (ph, False)\<rparr>)"
| ticks:
    "\<not> agDraining s \<Longrightarrow> agConnected s \<Longrightarrow> localStep etext s (s\<lparr>agDraining := True\<rparr>)"
| drainsPending:
    "\<not> agDraining s \<Longrightarrow> agPending s = Suc n \<Longrightarrow> localStep etext s (s\<lparr>agDraining := True, agPending := n\<rparr>)"
| peeks:
    "agDraining s \<Longrightarrow> agDrain s = DrainIdle \<Longrightarrow>
     peek io (appSpool (agApp s)) = Some (Inr (Some (n, r)), q1) \<Longrightarrow>
     localStep etext s ((withSpool q1 s)\<lparr>agDrain := Publishing n r\<rparr>)"
| drained:
    "agDraining s \<Longrightarrow> agDrain s = DrainIdle \<Longrightarrow>
     peek io (appSpool (agApp s)) = Some (res, q1) \<Longrightarrow> res = Inr None \<or> isl res \<Longrightarrow>
     localStep etext s ((withSpool q1 s)\<lparr>agDraining := False\<rparr>)"
| removes:
    "agDrain s = Acknowledged n r \<Longrightarrow> removePublished io n (appSpool (agApp s)) = (e, q1) \<Longrightarrow>
     localStep etext s ((withSpool q1 s)\<lparr>agDrain := DrainIdle, agDraining := (e = None)\<rparr>)"
| cancels:
    "localStep etext s (s\<lparr>agCancelled := True\<rparr>)"
| stops:
    "agCancelled s \<Longrightarrow> \<not> agStopped s \<Longrightarrow>
     localStep etext s (s\<lparr>agSent := agSent s @ [availabilityMessage (agApp s) ''offline''], agStopped := True\<rparr>)"

text \<open>
  What the agent does by itself, and what happens to it at the broker: a connection with its
  callback, the loss of one, the two outcomes of the drain's publish. An acknowledgement may have
  arrived just before its connection ended.
\<close>

inductive agentStep :: "(goError \<Rightarrow> string) \<Rightarrow> agent \<Rightarrow> agent \<Rightarrow> bool" for etext where
  byItself: "localStep etext s t \<Longrightarrow> agentStep etext s t"
| connects:
    "onMQTTConnect publish goos goarch now1 now2 (agApp s) = (err, msgs, drains) \<Longrightarrow>
     agentStep etext s (s\<lparr>agConnected := True, agSent := agSent s @ msgs,
       agPending := agPending s + (if drains then 1 else 0)\<rparr>)"
| disconnects:
    "agentStep etext s (s\<lparr>agConnected := False\<rparr>)"
| publishes:
    "agDrain s = Publishing n r \<Longrightarrow>
     agentStep etext s (s\<lparr>agDrain := Acknowledged n r, agAcked := agAcked s @ [(n, r)]\<rparr>)"
| publishFails:
    "agDrain s = Publishing n r \<Longrightarrow> agentStep etext s (s\<lparr>agDrain := DrainIdle, agDraining := False\<rparr>)"

inductive agentReach :: "(goError \<Rightarrow> string) \<Rightarrow> agent \<Rightarrow> agent \<Rightarrow> bool" for etext s where
  agent_start: "agentReach etext s s"
| agent_step: "agentReach etext s t \<Longrightarrow> agentStep etext t u \<Longrightarrow> agentReach etext s u"

section \<open>The agent runs its spool\<close>

lemma enqueueObservation_spool:
  assumes "enqueueObservation w obs a = (e, a')"
  shows "appSpool a' = (if recordsOf a obs = [] then appSpool a
    else snd (Enqueue (spoolIO w) (spoolIDs w) (recordsOf a obs) (appSpool a)))"
proof (cases "Marshal obs")
  case (Inr t)
  obtain e1 q1 where q: "Enqueue (spoolIO w) (spoolIDs w) (observationRecords (appCfg a) obs t) (appSpool a) = (e1, q1)"
    by fastforce
  with assms Inr show ?thesis by (auto simp: enqueueObservation_def recordsOf_def Let_def)
qed (use assms in \<open>auto simp: enqueueObservation_def recordsOf_def Let_def\<close>)

lemma runCall_effect:
  assumes "runCall w c a = (err, a')"
  shows "appSpool a' = (if recordsOf a (callObservation w c a) = [] then appSpool a
      else snd (Enqueue (spoolIO w) (spoolIDs w) (recordsOf a (callObservation w c a)) (appSpool a)))"
    "observed a' = observed a @ [callObservation w c a]" "appCfg a' = appCfg a"
proof -
  obtain e a1 where x: "enqueueObservation w (callObservation w c a) a = (e, a1)" by fastforce
  with runCall_observes [of w c a] assms have "a' = a1" by (cases e) auto
  with enqueueObservation_spool [OF x] enqueue_frame [OF x]
  show "appSpool a' = (if recordsOf a (callObservation w c a) = [] then appSpool a
      else snd (Enqueue (spoolIO w) (spoolIDs w) (recordsOf a (callObservation w c a)) (appSpool a)))"
    "observed a' = observed a @ [callObservation w c a]" "appCfg a' = appCfg a" by simp_all
qed

lemma completeAll_Nil: "completeAll sources i rs = [] \<longleftrightarrow> rs = []"
  by (cases rs) simp_all

lemma collect_spools:
  assumes fresh: "freshRecords (spooler s) (newRecords w c (agApp s))"
  shows "spoolReach (spooler s) (spooler (collect w i c cs errs s))"
proof -
  let ?rs = "recordsOf (agApp s) (callObservation w c (agApp s))"
  obtain err a' where r: "runCall w c (agApp s) = (err, a')" by fastforce
  obtain e q1 where w: "writeRecords (spoolIO w) (spoolIDs w) 0 ?rs (appSpool (agApp s)) = (e, q1)" by fastforce
  then have q1: "writtenQueue w c (agApp s) = q1" by (simp add: writtenQueue_def)
  show ?thesis
  proof (cases "?rs = []")
    case True
    then have "spooler (collect w i c cs errs s) = spooler s"
      using r w q1 runCall_effect(1) [OF r] by (simp add: collect_def spooler_def newRecords_def committed_def named_def)
    then show ?thesis by (simp add: reach_start)
  next
    case False
    have q2: "appSpool a' = (if e = None then snd (pruneLocked (spoolIO w) q1) else q1)"
      using runCall_effect(1) [OF r] False w by (cases e) (simp_all add: Enqueue_def)
    have "spoolStep (spooler s) ((spooler s)\<lparr>spQueue := appSpool a',
        accepted := accepted (spooler s) @ committed q1 (newRecords w c (agApp s)),
        pruned := pruned (spooler s) @ removedNames (spoolIO w) q1 (appSpool a')\<rparr>)"
      unfolding newRecords_def
      by (rule spoolStep.enqueue [OF _ _ q2])
        (use fresh w in \<open>simp_all add: newRecords_def spooler_def\<close>)
    also have "(spooler s)\<lparr>spQueue := appSpool a',
        accepted := accepted (spooler s) @ committed q1 (newRecords w c (agApp s)),
        pruned := pruned (spooler s) @ removedNames (spoolIO w) q1 (appSpool a')\<rparr> =
        spooler (collect w i c cs errs s)"
      by (simp add: collect_def r spooler_def q1)
    finally show ?thesis by (rule reach_step [OF reach_start])
  qed
qed

lemma spooler_frame [simp]:
  "spooler (s\<lparr>agWorkers := ws\<rparr>) = spooler s" "spooler (s\<lparr>agConnected := b\<rparr>) = spooler s"
  "spooler (s\<lparr>agSent := ms\<rparr>) = spooler s" "spooler (s\<lparr>agPending := n\<rparr>) = spooler s"
  "spooler (s\<lparr>agBeat := beat\<rparr>) = spooler s"
  "spooler (s\<lparr>agDraining := b\<rparr>) = spooler s" "spooler (s\<lparr>agCancelled := b\<rparr>) = spooler s"
  "spooler (s\<lparr>agStopped := b\<rparr>) = spooler s" "spooler (finish now etext i err s) = spooler s"
  "spooler (s\<lparr>agDrain := ph\<rparr>) = (spooler s)\<lparr>spPhase := ph\<rparr>"
  "spooler (s\<lparr>agAcked := as\<rparr>) = (spooler s)\<lparr>acked := as\<rparr>"
  "spooler (withSpool q s) = (spooler s)\<lparr>spQueue := q\<rparr>"
  by (simp_all add: spooler_def finish_def updateJob_def withSpool_def Let_def)

lemma spooler_sel:
  "spQueue (spooler s) = appSpool (agApp s)" "spPhase (spooler s) = agDrain s"
  "accepted (spooler s) = agAccepted s" "acked (spooler s) = agAcked s" "pruned (spooler s) = agPruned s"
  by (simp_all add: spooler_def)

text \<open>Every step of the agent is a step of its spool, or leaves it alone.\<close>

lemma local_spools: "localStep etext s t \<Longrightarrow> spoolReach (spooler s) (spooler t)"
proof (induction rule: localStep.induct)
  case collects
  then show ?case by (rule_tac collect_spools)
next
  case (peeks s io n r q1)
  then have "spoolStep (spooler s) ((spooler s)\<lparr>spQueue := q1, spPhase := Publishing n r\<rparr>)"
    by (intro spoolStep.peek) (simp_all add: spooler_sel)
  from reach_step [OF reach_start this] show ?case by simp
next
  case (drained s io res q1)
  then have "spoolStep (spooler s) ((spooler s)\<lparr>spQueue := q1\<rparr>)"
    by (intro spoolStep.peekNone) (simp_all add: spooler_sel)
  from reach_step [OF reach_start this] show ?case by simp
next
  case (removes s n r io e q1)
  then have "spoolStep (spooler s) ((spooler s)\<lparr>spQueue := q1, spPhase := DrainIdle\<rparr>)"
    by (intro spoolStep.remove) (simp_all add: spooler_sel)
  from reach_step [OF reach_start this] show ?case by simp
qed (simp_all add: reach_start)

lemma step_spools: "agentStep etext s t \<Longrightarrow> spoolReach (spooler s) (spooler t)"
proof (induction rule: agentStep.induct)
  case byItself
  then show ?case by (rule local_spools)
next
  case (publishes s n r)
  then have "spoolStep (spooler s) ((spooler s)\<lparr>spPhase := Acknowledged n r, acked := acked (spooler s) @ [(n, r)]\<rparr>)"
    by (intro spoolStep.publishOK) (simp_all add: spooler_sel)
  from reach_step [OF reach_start this] show ?case by (simp add: spooler_sel)
next
  case (publishFails s n r)
  then have "spoolStep (spooler s) ((spooler s)\<lparr>spPhase := DrainIdle\<rparr>)"
    by (intro spoolStep.publishFailed) (simp_all add: spooler_sel)
  from reach_step [OF reach_start this] show ?case by simp
qed (simp_all add: reach_start)

lemma spoolReach_trans: "spoolReach t u \<Longrightarrow> spoolReach s t \<Longrightarrow> spoolReach s u"
  by (induction rule: spoolReach.induct) (auto intro: reach_step)

lemma agent_spools: "agentReach etext s t \<Longrightarrow> spoolReach (spooler s) (spooler t)"
  by (induction rule: agentReach.induct) (auto intro: reach_start spoolReach_trans step_spools)

lemma spooler_start: "spooler (startAgent nanos a) = newSpooler (appSpool a)"
  by (simp add: spooler_def startAgent_def newSpooler_def)

lemma agent_invariants:
  assumes "agentReach etext (startAgent nanos a) s" "okQueue (appSpool a)"
  shows "spoolInv (spooler s)" "originInv (appSpool a) (spooler s)"
proof -
  have r: "spoolReach (newSpooler (appSpool a)) (spooler s)"
    using agent_spools [OF assms(1)] by (simp add: spooler_start)
  have i: "spoolInv (newSpooler (appSpool a))"
    using assms(2) newSpooler_inv by (simp add: okQueue_def)
  show "spoolInv (spooler s)" "originInv (appSpool a) (spooler s)"
    using reach_keeps [OF r i] reach_origin [OF r i newSpooler_origin] by simp_all
qed

section \<open>What reaches the broker\<close>

text \<open>
  Nothing that was accepted is lost, whatever the goroutines do in whatever order: a committed
  record is in the spool unchanged, or was acknowledged by the broker, or has been pruned.
\<close>

lemma agent_accounts:
  assumes "okQueue (appSpool a)" "agentReach etext (startAgent nanos a) s" "(n, r) \<in> set (agAccepted s)"
  shows "parsedRecord (appSpool (agApp s)) n = Some r \<or> (n, r) \<in> set (agAcked s) \<or> n \<in> set (agPruned s)"
proof -
  have "accounted (spooler s)" using agent_invariants(1) [OF assms(2,1)] by (simp add: spoolInv_def)
  from accountedD [OF this, of n r] assms(3) show ?thesis
    by (auto simp: spooler_sel dest: present_parsed)
qed

definition recordOf :: "AppConfig \<Rightarrow> Record \<Rightarrow> Observation \<Rightarrow> bool" where
  "recordOf c r obs \<longleftrightarrow>
     (case Marshal obs of
        Inl _ \<Rightarrow> False
      | Inr t \<Rightarrow> recPayload r = Some (bytes_of t) \<and> recQoS r = MQTT_QoS (MQTT c) \<and>
          (recClass r = ''event'' \<and> recTopic r = eventTopic c (Kind obs) \<and> \<not> recRetain r \<or>
           recClass r = ''snapshot'' \<and> recTopic r = snapshotTopic c (Kind obs) (SnapshotScope obs) \<and> recRetain r \<and>
             Success (obsCollection obs)))"

lemma recordsOf_sound: "r \<in> set (completeAll ids i (recordsOf a obs)) \<Longrightarrow> recordOf (appCfg a) r obs"
  using completeAll_cases [of r ids i "recordsOf a obs"]
  by (auto simp: recordsOf_def recordOf_def observationRecords_def completeRecord_def Let_def split: sum.splits if_splits)

definition observedInv :: "AppConfig \<Rightarrow> agent \<Rightarrow> bool" where
  "observedInv c s \<longleftrightarrow>
     appCfg (agApp s) = c \<and> (\<forall>(n, r) \<in> set (agAccepted s). list_ex (recordOf c r) (observed (agApp s)))"

lemma finish_frame [simp]:
  "appCfg (agApp (finish now etext i err s)) = appCfg (agApp s)"
  "observed (agApp (finish now etext i err s)) = observed (agApp s)"
  "agAccepted (finish now etext i err s) = agAccepted s"
  by (simp_all add: finish_def updateJob_def Let_def)

lemma observed_local: "localStep etext s t \<Longrightarrow> observedInv c s \<Longrightarrow> observedInv c t"
proof (induction rule: localStep.induct)
  case (collects i s c' cs errs w)
  obtain err a' where r: "runCall w c' (agApp s) = (err, a')" by fastforce
  have new: "recordOf c r (callObservation w c' (agApp s))" if "r \<in> set (newRecords w c' (agApp s))" for r
    using recordsOf_sound that collects.prems by (auto simp: newRecords_def observedInv_def)
  show ?case
    using collects.prems runCall_effect(2,3) [OF r] new
    by (fastforce simp: observedInv_def collect_def r dest: committedD)
qed (auto simp: observedInv_def withSpool_def)

lemma observed_step: "agentStep etext s t \<Longrightarrow> observedInv c s \<Longrightarrow> observedInv c t"
proof (induction rule: agentStep.induct)
  case byItself
  then show ?case by (rule observed_local)
qed (simp_all add: observedInv_def)

lemma observed_reach: "agentReach etext (startAgent nanos a) s \<Longrightarrow> observedInv (appCfg a) s"
proof (induction rule: agentReach.induct)
  case agent_start
  show ?case by (simp add: observedInv_def startAgent_def)
next
  case (agent_step t u)
  from observed_step [OF agent_step.hyps(2) agent_step.IH] show ?case .
qed

lemma delivered_source:
  assumes "okQueue (appSpool a)" "agentReach etext (startAgent nanos a) s" "(n, r) \<in> set (agAcked s)"
  shows "parsedRecord (appSpool a) n = Some r \<or> list_ex (recordOf (appCfg a) r) (observed (agApp s))"
proof -
  have "known (appSpool a) (spooler s) n r"
    using originD(2) [OF agent_invariants(2) [OF assms(2,1)]] assms(3) by (simp add: spooler_sel)
  with observed_reach [OF assms(2)] show ?thesis by (auto simp: observedInv_def known_def spooler_sel)
qed

text \<open>
  C5: Nothing reaches the broker through the spool that was not observed. A record the agent has
  delivered was in the spool directory when it started, or it carries the JSON text of an
  observation the agent made, on the event topic of its kind and not retained, or on the snapshot
  topic of its kind and scope, retained, and then the collection had succeeded.
\<close>
theorem delivered_was_observed:
  assumes "okQueue (appSpool a)" "agentReach etext (startAgent nanos a) s" "(n, r) \<in> set (agAcked s)"
    and "parsedRecord (appSpool a) n \<noteq> Some r"
  shows "list_ex (recordOf (appCfg a) r) (observed (agApp s))"
  using delivered_source [OF assms(1-3)] assms(4) by blast

text \<open>The records of a collection that the spool took are accepted.\<close>

lemma written_committed:
  assumes w: "writeRecords io ids 0 rs q = (None, q1)"
    and names: "distinct (map recordName (completeAll ids 0 rs))" "list_all (isRecordName \<circ> recordName) (completeAll ids 0 rs)"
    and "r \<in> set (completeAll ids 0 rs)"
  shows "(recordName r, r) \<in> set (committed q1 (completeAll ids 0 rs))"
proof -
  let ?new = "completeAll ids 0 rs"
  have n: "isRecordName (recordName r)" using names(2) assms(4) by (auto simp: list_all_iff)
  from writeRecords_spec [OF w] n obtain k where "k = length rs"
    "map_of (entries q1) (recordName r) = map_of (rev (map recordFile (take k ?new)) @ entries q) (recordName r)"
    by auto
  then have e: "map_of (entries q1) (recordName r) = map_of (rev (map recordFile ?new) @ entries q) (recordName r)"
    by (simp add: length_completeAll)
  have "map fst (map recordFile ?new) = map recordName ?new" by (simp add: recordFile_def)
  then have "distinct (map fst (rev (map recordFile ?new)))"
    using names(1) by (metis distinct_rev rev_map)
  then have "map_of (rev (map recordFile ?new)) (recordName r) = Some (RegularFile (marshalRecord r))"
    using assms(4) by (intro map_of_is_SomeI) (auto simp: recordFile_def)
  with e show ?thesis
    using assms(4) by (auto simp: committed_def named_def map_add_def)
qed

lemma local_accepted: "localStep etext t u \<Longrightarrow> set (agAccepted t) \<subseteq> set (agAccepted u)"
  by (induction rule: localStep.induct) (auto simp: withSpool_def collect_def split: prod.splits)

lemma accepted_grows: "agentReach etext s t \<Longrightarrow> set (agAccepted s) \<subseteq> set (agAccepted t)"
proof (induction rule: agentReach.induct)
  case (agent_step t u)
  have "set (agAccepted t) \<subseteq> set (agAccepted u)"
    using agent_step.hyps(2)
    by (induction rule: agentStep.induct) (auto dest: local_accepted)
  with agent_step.IH show ?case by blast
qed simp

lemma agentReach_trans: "agentReach etext t u \<Longrightarrow> agentReach etext s t \<Longrightarrow> agentReach etext s u"
  by (induction rule: agentReach.induct) (auto intro: agentReach.agent_step)

lemma enqueued_writes:
  assumes "fst (enqueueObservation w obs a) = None" "recordsOf a obs \<noteq> []"
  shows "\<exists>q1. writeRecords (spoolIO w) (spoolIDs w) 0 (recordsOf a obs) (appSpool a) = (None, q1)"
proof (cases "Marshal obs")
  case (Inr t)
  let ?q = "writeRecords (spoolIO w) (spoolIDs w) 0 (observationRecords (appCfg a) obs t) (appSpool a)"
  obtain e q1 where q: "?q = (e, q1)" by fastforce
  with assms Inr show ?thesis
    by (cases e) (auto simp: enqueueObservation_def recordsOf_def Enqueue_def Let_def split: prod.splits)
qed (use assms in \<open>simp add: recordsOf_def\<close>)

lemma event_among:
  assumes "Marshal obs = Inr t" "Publish_PublishEvents (Publish (appCfg a))"
  shows "\<exists>r \<in> set (completeAll ids 0 (recordsOf a obs)). recClass r = ''event''"
  using assms
  by (auto simp: recordsOf_def observationRecords_def completeRecord_def Let_def)


section \<open>An instance\<close>

text \<open>
  An agent with the one job that has no delay, a server that refuses connections, and a spool that
  has just the room for what the job observes.
\<close>

definition oneFile :: "Record \<Rightarrow> Queue" where
  "oneFile r =
     \<lparr>maxMessages = 1, maxBytes = int (length (marshalRecord r)),
      entries = [(recordName r, RegularFile (marshalRecord r))], dropped = 0\<rparr>"

definition roomFor :: "Record \<Rightarrow> Queue" where
  "roomFor r = (oneFile r)\<lparr>entries := []\<rparr>"

lemma oneFile_files:
  assumes "isRecordName (recordName r)"
  shows "listFiles unixIO (oneFile r) = [(recordName r, int (length (marshalRecord r)))]"
  using assms by (simp add: listFiles_def oneFile_def visibleEntry_def entrySize_def)

lemma oneFile_peek:
  assumes "isRecordName (recordName r)" "validRecord r"
  shows "peek unixIO (oneFile r) = Some (Inr (Some (recordName r, r)), oneFile r)"
proof -
  have "fileContent (oneFile r) (recordName r) = Some (marshalRecord r)"
    by (simp add: fileContent_def oneFile_def)
  then show ?thesis
    using assms by (simp add: peek_def listLocked_def oneFile_files readRecord_def rc.read_back)
qed

lemma oneFile_writes:
  assumes "completeRecord (ids 0) r0 = r" "isRecordName (recordName r)"
  shows "writeRecords unixIO ids 0 [r0] (roomFor r) = (None, oneFile r)"
proof -
  have "tempName r \<noteq> recordName r" using assms(2) tempName_hidden [of r] by auto
  then show ?thesis
    by (simp add: assms(1) writeRecord_def Let_def putFile_def removeFile_def roomFor_def oneFile_def)
qed

lemma oneFile_prune: "isRecordName (recordName r) \<Longrightarrow> pruneLocked unixIO (oneFile r) = (None, oneFile r)"
  by (simp add: pruneLocked_def listLocked_def oneFile_files totalSize_def) (simp add: oneFile_def)

definition refusing :: outside where
  "refusing = fullDisk\<lparr>spoolIO := unixIO, spoolIDs := (\<lambda>i. (1750000000000000000, [9]))\<rparr>"

definition probeApp :: "Queue \<Rightarrow> App" where
  "probeApp q = quietApp\<lparr>appSpool := q, appCfg := (appCfg quietApp)
     \<lparr>Poll := (Poll (appCfg quietApp))\<lparr>Poll_HealthSeconds := 60\<rparr>,
      Publish := (Publish (appCfg quietApp))\<lparr>Publish_RetainSnapshots := False\<rparr>\<rparr>\<rparr>"

definition healthCall :: call where
  "healthCall = HTTPCall ''serve/health'' ''default'' ''machine_runtime_health'' ''/health'' [] noMeta"

lemma probe_workers:
  "agWorkers (startAgent 0 (probeApp q)) =
     [\<lparr>wJob = hd (buildJobs (appCfg (probeApp q))), wSched = (Ticking, 1), wRun = Some ([healthCall], [])\<rparr>]"
proof -
  have poll: "Poll_HealthSeconds (Poll (appCfg (probeApp q))) = 60" "Poll_UsageSeconds (Poll (appCfg (probeApp q))) = 0"
    "Poll_CostSeconds (Poll (appCfg (probeApp q))) = 0" "Poll_AllProvidersSeconds (Poll (appCfg (probeApp q))) = 0"
    "Poll_StatusSeconds (Poll (appCfg (probeApp q))) = 0" "Poll_ActiveAccountProbeSeconds (Poll (appCfg (probeApp q))) = 0"
    "Poll_AccountCatalogueSeconds (Poll (appCfg (probeApp q))) = 0" "Poll_CostHorizonSeconds (Poll (appCfg (probeApp q))) = 0"
    "Poll_ConfigValidateSeconds (Poll (appCfg (probeApp q))) = 0"
    by (simp_all add: probeApp_def quietApp_def)
  have none: "concat (map (\<lambda>(i, p). if b p then [] else []) xs) = []" for b :: "'x \<Rightarrow> bool" and xs :: "(nat \<times> 'x) list"
    by (induction xs) auto
  have "buildJobs (appCfg (probeApp q)) =
      [\<lparr>jobName = ''serve-health'', jobInterval = 60 * second, jobDelay = 0,
        jobTask = HTTPTask ''serve/health'' ''default'' ''machine_runtime_health'' ''/health'' []\<rparr>]"
    by (simp add: buildJobs_def addJob_def poll activeAccountJobs_def accountCatalogueJobs_def costHorizonJobs_def
        Let_def none split_beta) auto
  then show ?thesis
    by (simp add: startAgent_def startWorker_def begun_def schedStart_def healthCall_def)
qed

lemma refused:
  "callObservation refusing healthCall (probeApp q) =
     newErrorObservation 63885596802000000000 (1750000000, None) ''agent/error'' ''serve/health-default''
       exampleMachine exampleAgent
       (httpCollection ''machine_runtime_health'' ''/health'' [] noMeta emptyResponse (Some (DoFailed ''refused'')))
       ''serve/health'' (Some ''refused'') True"
proof -
  have "parseURL (baseURL (NewHTTPClient ''http://127.0.0.1:8080'' 0) @ ''/health'') \<noteq> None"
    by (simp add: string_eval NewHTTPClient_def TrimRight_def)
  then obtain u where u: "requestURL (NewHTTPClient ''http://127.0.0.1:8080'' 0) ''/health'' [] = Some u"
    by (auto simp: requestURL_def)
  have "Fetch (server refusing) (appHTTP (probeApp q)) ''/health'' [] = (emptyResponse, Some (DoFailed ''refused''))"
    by (simp add: Fetch_def probeApp_def quietApp_def exampleApp_def u refusing_def fullDisk_def Let_def emptyResponse_def)
  then show ?thesis
    by (simp add: healthCall_def collectedObservation_def)
      (simp add: emptyResponse_def refusing_def fullDisk_def probeApp_def quietApp_def exampleApp_def)
qed

lemma refused_marshals: "\<exists>t. Marshal (callObservation refusing healthCall (probeApp q)) = Inr t"
proof -
  have "timely 63885596802000000000
      (httpCollection ''machine_runtime_health'' ''/health'' [] noMeta emptyResponse (Some (DoFailed ''refused'')))"
    by (simp add: timely_def httpCollection_def emptyResponse_def marshalTime_def year_def yearAndDay_def
        daysPer400Years_def daysPer100Years_def daysPer4Years_def Let_def)
  moreover have "validText ''refused''" by (simp add: validText_ascii asciiChar_def)
  ultimately show ?thesis
    unfolding refused using error_members by blast
qed

definition refusalRecord :: Record where
  "refusalRecord = hd (newRecords refusing healthCall (probeApp demoQueue))"

lemma refusal_records: "newRecords refusing healthCall (probeApp q) = [refusalRecord]"
  "\<exists>r0. recordsOf (probeApp q) (callObservation refusing healthCall (probeApp q)) = [r0]"
proof -
  obtain t where t: "Marshal (callObservation refusing healthCall (probeApp q')) = Inr t" for q'
    using refused_marshals unfolding refused by blast
  have cfg: "appCfg (probeApp q) = appCfg (probeApp demoQueue)" by (simp add: probeApp_def)
  have pub: "Publish_PublishEvents (Publish (appCfg (probeApp q')))" "\<not> Publish_RetainSnapshots (Publish (appCfg (probeApp q')))"
    for q' by (simp_all add: probeApp_def quietApp_def exampleApp_def Defaults_def Let_def)
  show "newRecords refusing healthCall (probeApp q) = [refusalRecord]"
    "\<exists>r0. recordsOf (probeApp q) (callObservation refusing healthCall (probeApp q)) = [r0]"
    unfolding refusalRecord_def newRecords_def recordsOf_def t refused cfg
    using t by (simp_all add: observationRecords_def pub refused)
qed

lemma refusal_name: "isRecordName (recordName refusalRecord)"
proof -
  obtain r0 where r0: "recordsOf (probeApp demoQueue) (callObservation refusing healthCall (probeApp demoQueue)) = [r0]"
    using refusal_records(2) by blast
  then have "recID r0 = ''''"
    by (auto simp: recordsOf_def observationRecords_def split: sum.splits if_splits)
  with r0 have "recordName refusalRecord = newID (1750000000000000000, [9]) @ ''.json''"
    by (simp add: refusalRecord_def newRecords_def completeRecord_def Let_def recordName_def refusing_def)
  then show ?thesis using newID_order [of 1750000000000000000 1750000000000000001] by simp
qed

lemma refusal_valid: "validRecord refusalRecord"
proof -
  have "refusalRecord \<in> set (newRecords refusing healthCall (probeApp demoQueue))"
    by (simp add: refusal_records(1))
  then show ?thesis
    using observation_records_valid
    by (auto simp: newRecords_def recordsOf_def split: sum.splits)
qed
abbreviation probeStart :: agent where
  "probeStart \<equiv> startAgent 0 (probeApp (roomFor refusalRecord))"

lemma probe_ok: "okQueue (appSpool (probeApp (roomFor r)))"
  by (simp add: probeApp_def okQueue_def wfQueue_def roomFor_def oneFile_def)

lemma probe_app: "agApp probeStart = probeApp (roomFor refusalRecord)"
  by (simp add: startAgent_def)

lemma probe_spool: "appSpool (probeApp q) = q"
  by (simp add: probeApp_def)

lemma probe_fresh: "freshRecords (spooler probeStart) (newRecords refusing healthCall (agApp probeStart))"
  unfolding probe_app refusal_records
  by (simp add: freshRecords_def refusal_valid refusal_name spooler_start newSpooler_def probe_spool)
    (simp add: roomFor_def)

lemma probe_written:
  "writeRecords (spoolIO refusing) (spoolIDs refusing) 0
     (recordsOf (probeApp (roomFor refusalRecord)) (callObservation refusing healthCall (probeApp (roomFor refusalRecord))))
     (roomFor refusalRecord) = (None, oneFile refusalRecord)"
proof -
  let ?a = "probeApp (roomFor refusalRecord)"
  obtain r0 where r0: "recordsOf ?a (callObservation refusing healthCall ?a) = [r0]" using refusal_records(2) by blast
  then have "completeRecord (spoolIDs refusing 0) r0 = refusalRecord"
    using refusal_records(1) [of "roomFor refusalRecord"] by (simp add: newRecords_def)
  with oneFile_writes [of "spoolIDs refusing" r0 refusalRecord] refusal_name r0 show ?thesis
    by (simp add: refusing_def)
qed

lemma probe_enqueues:
  "fst (enqueueObservation refusing (callObservation refusing healthCall (agApp probeStart)) (agApp probeStart)) = None"
  "appSpool (agApp (collect refusing 0 healthCall [] [] probeStart)) = oneFile refusalRecord"
proof -
  let ?a = "probeApp (roomFor refusalRecord)"
  let ?obs = "callObservation refusing healthCall ?a"
  obtain r0 where r0: "recordsOf ?a ?obs = [r0]" using refusal_records(2) by blast
  have io: "spoolIO refusing = unixIO" by (simp add: refusing_def)
  have q: "Enqueue unixIO (spoolIDs refusing) [r0] (roomFor refusalRecord) = (None, oneFile refusalRecord)"
    using probe_written by (simp add: r0 io Enqueue_def oneFile_prune refusal_name)
  obtain t where t: "Marshal ?obs = Inr t" using refused_marshals by blast
  with r0 have "observationRecords (appCfg ?a) ?obs t = [r0]" by (simp add: recordsOf_def)
  with t q show "fst (enqueueObservation refusing (callObservation refusing healthCall (agApp probeStart)) (agApp probeStart)) = None"
    unfolding probe_app by (simp add: enqueueObservation_def Let_def io) (simp add: probeApp_def)
  obtain err a' where r: "runCall refusing healthCall ?a = (err, a')" by fastforce
  from runCall_effect(1) [OF r] show "appSpool (agApp (collect refusing 0 healthCall [] [] probeStart)) = oneFile refusalRecord"
    unfolding collect_def probe_app r r0 by (simp add: io probe_spool q)
qed

lemma probe_collected:
  "agAcked (collect refusing 0 healthCall [] [] probeStart) = []"
  "agPruned (collect refusing 0 healthCall [] [] probeStart) = []"
  "agDrain (collect refusing 0 healthCall [] [] probeStart) = DrainIdle"
  "agDraining (collect refusing 0 healthCall [] [] probeStart) = False"
proof -
  have "writtenQueue refusing healthCall (agApp probeStart) = oneFile refusalRecord"
    using probe_written by (simp add: writtenQueue_def probe_app probe_spool)
  moreover obtain err a' where r: "runCall refusing healthCall (agApp probeStart) = (err, a')" by fastforce
  moreover have "appSpool a' = oneFile refusalRecord"
    using probe_enqueues(2) r by (simp add: collect_def)
  ultimately show "agPruned (collect refusing 0 healthCall [] [] probeStart) = []"
    by (simp add: collect_def r) (simp add: startAgent_def)
  show "agAcked (collect refusing 0 healthCall [] [] probeStart) = []"
    "agDrain (collect refusing 0 healthCall [] [] probeStart) = DrainIdle"
    "agDraining (collect refusing 0 healthCall [] [] probeStart) = False"
    by (simp_all add: collect_def r) (simp_all add: startAgent_def)
qed

lemma probe_collects: "agentStep etext probeStart (collect refusing 0 healthCall [] [] probeStart)"
  by (rule byItself, rule collects [OF _ _ probe_fresh]) (simp_all add: probe_workers)


theorem delivered_was_observed_witness:
  "\<exists>s. agentReach (\<lambda>_. '''') probeStart s \<and> agAcked s = [(recordName refusalRecord, refusalRecord)] \<and>
     list_ex (recordOf (appCfg (agApp probeStart)) refusalRecord) (observed (agApp s))"
proof -
  let ?s = "collect refusing 0 healthCall [] [] probeStart"
  let ?n = "recordName refusalRecord"
  obtain err msgs drains where c: "onMQTTConnect (\<lambda>_. None) ''darwin'' ''arm64'' 0 0 (agApp ?s) = (err, msgs, drains)"
    by (metis prod.exhaust)
  let ?t = "?s\<lparr>agConnected := True, agSent := agSent ?s @ msgs, agPending := agPending ?s + (if drains then 1 else 0)\<rparr>"
  let ?u = "(withSpool (oneFile refusalRecord) (?t\<lparr>agDraining := True\<rparr>))\<lparr>agDrain := Publishing ?n refusalRecord\<rparr>"
  let ?v = "?u\<lparr>agDrain := Acknowledged ?n refusalRecord, agAcked := agAcked ?u @ [(?n, refusalRecord)]\<rparr>"
  have "agentReach (\<lambda>_. '''') probeStart ?s" by (rule agent_step [OF agent_start probe_collects])
  from agent_step [OF this connects [OF c]] have "agentReach (\<lambda>_. '''') probeStart ?t" .
  moreover have "agentStep (\<lambda>_. '''') ?t (?t\<lparr>agDraining := True\<rparr>)" by (rule byItself, rule ticks) (simp_all add: probe_collected)
  ultimately have "agentReach (\<lambda>_. '''') probeStart (?t\<lparr>agDraining := True\<rparr>)" by (rule agent_step)
  moreover have "agentStep (\<lambda>_. '''') (?t\<lparr>agDraining := True\<rparr>) ?u"
    by (rule byItself, rule peeks [where io = unixIO])
      (simp_all add: probe_collected probe_enqueues(2) oneFile_peek refusal_name refusal_valid)
  ultimately have "agentReach (\<lambda>_. '''') probeStart ?u" by (rule agent_step)
  moreover have "agentStep (\<lambda>_. '''') ?u ?v" by (rule publishes) (simp_all add: withSpool_def)
  ultimately have v: "agentReach (\<lambda>_. '''') probeStart ?v" by (rule agent_step)
  have a: "agAcked ?v = [(?n, refusalRecord)]" by (simp add: withSpool_def probe_collected)
  have "parsedRecord (appSpool (probeApp (roomFor refusalRecord))) ?n \<noteq> Some refusalRecord"
    by (simp add: probe_spool parsedRecord_def fileContent_def roomFor_def)
  from delivered_was_observed [OF probe_ok v _ this] a
  have "list_ex (recordOf (appCfg (agApp probeStart)) refusalRecord) (observed (agApp ?v))"
    by (simp add: probe_app)
  with v a show ?thesis by blast
qed
end
