(* ===== verification/Manager.thy ===== *)
theory Manager
  imports Client
begin

text \<open>
  The reconnect loop of \<open>internal/mqttclient/manager.go\<close>. \<open>Manager.Run\<close> is a machine that stops
  at each point where the code waits for its environment: the context check at the top of
  the loop, the result of \<open>Dial\<close>, a sleep, the end of a connection. A client is named by a
  number. \<open>signals\<close> counts how often \<open>setClient\<close> has closed and replaced the \<open>connected\<close>
  channel that \<open>WaitConnected\<close> watches, and \<open>waits\<close> is the list of the pauses the loop took,
  which the code only logs. Durations are mathematical integers: doubling a backoff could
  pass 64 bits only from \<open>2 ^ 62\<close> nanoseconds (146 years) on.
\<close>

section \<open>Durations\<close>

definition minDuration :: "duration \<Rightarrow> duration \<Rightarrow> duration" where
  "minDuration a b = (if a < b then a else b)"

definition maxDuration :: "duration \<Rightarrow> duration \<Rightarrow> duration" where
  "maxDuration a b = (if a > b then a else b)"

text \<open>\<open>Run\<close>'s defaults: a non-positive minimum is a second, a maximum below it 30 seconds.\<close>

definition minBackoff :: "Config \<Rightarrow> duration" where
  "minBackoff c = (if ReconnectMin c \<le> 0 then second else ReconnectMin c)"

definition maxBackoff :: "Config \<Rightarrow> duration" where
  "maxBackoff c = (if ReconnectMax c < minBackoff c then 30 * second else ReconnectMax c)"

definition nextBackoff :: "duration \<Rightarrow> duration \<Rightarrow> duration" where
  "nextBackoff limit b = minDuration (b * 2) limit"

section \<open>State and steps\<close>

datatype mphase = Idle | Top | Dialing | Sleeping | Serving nat | Stopped

record Manager =
  mcfg :: Config
  started :: bool
  current :: "nat option"
  signals :: nat
  backoff :: duration
  mphase :: mphase
  waits :: "duration list"

definition NewManager :: "Config \<Rightarrow> Manager" where
  "NewManager c =
     \<lparr>mcfg = c, started = False, current = None, signals = 0, backoff = 0, mphase = Idle, waits = []\<rparr>"

definition setClient :: "nat \<Rightarrow> Manager \<Rightarrow> Manager" where
  "setClient k m = m\<lparr>current := Some k, signals := signals m + 1\<rparr>"

definition clearClient :: "nat \<Rightarrow> Manager \<Rightarrow> Manager" where
  "clearClient k m = (if current m = Some k then m\<lparr>current := None\<rparr> else m)"

definition disconnectCurrent :: "Manager \<Rightarrow> Manager" where
  "disconnectCurrent m = (case current m of None \<Rightarrow> m | Some k \<Rightarrow> clearClient k m)"

text \<open>
  \<^item> \<open>StartRun\<close>: the call of \<open>Run\<close>; a second one is refused with an error and changes nothing;
  \<^item> \<open>CheckCtx ended\<close>: \<open>ctx.Err()\<close> at the top of the loop;
  \<^item> \<open>Dialed r\<close>: \<open>Dial\<close> failed (\<open>None\<close>) or made client \<open>k\<close>, which is set, announced and run
    through \<open>onConnect\<close>, whose error is only logged;
  \<^item> \<open>Woke done\<close>: \<open>sleepContext\<close> ran to its end, or the context ended first;
  \<^item> \<open>ClientDone\<close>, \<open>Cancelled\<close>: the two cases of the \<open>select\<close> on a running connection.
\<close>

datatype mevent =
    StartRun
  | CheckCtx bool
  | Dialed "nat option"
  | Woke bool
  | ClientDone
  | Cancelled

definition pause :: "Manager \<Rightarrow> Manager" where
  "pause m = m\<lparr>mphase := Sleeping, waits := waits m @ [backoff m]\<rparr>"

fun mstep :: "mevent \<Rightarrow> Manager \<Rightarrow> Manager option" where
  "mstep StartRun m =
     Some (if started m then m
           else m\<lparr>started := True, backoff := minBackoff (mcfg m), mphase := Top\<rparr>)"
| "mstep (CheckCtx ended) m =
     (if mphase m = Top then
        Some (if ended then (disconnectCurrent m)\<lparr>mphase := Stopped\<rparr> else m\<lparr>mphase := Dialing\<rparr>)
      else None)"
| "mstep (Dialed r) m =
     (if mphase m = Dialing then
        Some (case r of
          None \<Rightarrow> pause m
        | Some k \<Rightarrow> (setClient k m)\<lparr>backoff := minBackoff (mcfg m), mphase := Serving k\<rparr>)
      else None)"
| "mstep (Woke slept) m =
     (if mphase m = Sleeping then
        Some (if slept then m\<lparr>backoff := nextBackoff (maxBackoff (mcfg m)) (backoff m), mphase := Top\<rparr>
              else m\<lparr>mphase := Stopped\<rparr>)
      else None)"
| "mstep ClientDone m =
     (case mphase m of Serving k \<Rightarrow> Some (pause (clearClient k m)) | _ \<Rightarrow> None)"
| "mstep Cancelled m =
     (case mphase m of Serving k \<Rightarrow> Some ((clearClient k m)\<lparr>mphase := Stopped\<rparr>) | _ \<Rightarrow> None)"

fun mrun :: "mevent list \<Rightarrow> Manager \<Rightarrow> Manager option" where
  "mrun [] m = Some m"
| "mrun (e # es) m = (case mstep e m of None \<Rightarrow> None | Some m' \<Rightarrow> mrun es m')"

text \<open>
  The callback's time limit, and \<open>Manager.Publish\<close> up to the call of the client: with no
  current client, or one that is not connected, it is \<open>ErrNotConnected\<close>, else it goes to the
  current client, whose number is the result here.
\<close>

definition callbackTimeout :: "Config \<Rightarrow> duration" where
  "callbackTimeout c = maxDuration (2 * PublishTimeout c) (10 * second)"

definition managerPublish :: "(nat \<Rightarrow> Client) \<Rightarrow> Manager \<Rightarrow> client_error + nat" where
  "managerPublish clients m =
     (case current m of
        None \<Rightarrow> Inl ErrNotConnected
      | Some k \<Rightarrow> if connected (clients k) then Inr k else Inl ErrNotConnected)"

definition managerIsConnected :: "(nat \<Rightarrow> Client) \<Rightarrow> Manager \<Rightarrow> bool" where
  "managerIsConnected clients m =
     (case current m of None \<Rightarrow> False | Some k \<Rightarrow> connected (clients k))"

definition IsNotConnected :: "client_error \<Rightarrow> bool" where
  "IsNotConnected e \<longleftrightarrow> e = ErrNotConnected"

text \<open>
  \<open>WaitConnected\<close> over what its turns find: whether the manager is connected, and what ends the
  turn's \<open>select\<close> if it is not. The result is \<open>None\<close> while it still waits.
\<close>

datatype waitEnd = Announced | Elapsed | ContextEnded

fun WaitConnected :: "(bool \<times> waitEnd) list \<Rightarrow> client_error option option" where
  "WaitConnected [] = None"
| "WaitConnected ((up, w) # turns) =
     (if up then Some None else if w = ContextEnded then Some (Some CtxErr) else WaitConnected turns)"

section \<open>Backoff arithmetic\<close>

lemma nextBackoff_le: "nextBackoff hi b \<le> hi"
  by (simp add: nextBackoff_def minDuration_def)

lemma nextBackoff_ge: "0 < lo \<Longrightarrow> lo \<le> hi \<Longrightarrow> lo \<le> b \<Longrightarrow> lo \<le> nextBackoff hi b"
  by (simp add: nextBackoff_def minDuration_def)

lemma nextBackoff_pow:
  assumes "0 < hi"
  shows "nextBackoff hi (min (lo * 2 ^ n) hi) = min (lo * 2 ^ Suc n) hi"
  using assms by (auto simp: nextBackoff_def minDuration_def min_def)

lemma minBackoff_pos: "0 < minBackoff c"
  by (simp add: minBackoff_def)

lemma maxBackoff_pos: "0 < maxBackoff c"
  using minBackoff_pos [of c] by (auto simp: maxBackoff_def)

section \<open>Runs\<close>

lemma mrun_append: "mrun (es @ fs) m = (case mrun es m of None \<Rightarrow> None | Some m' \<Rightarrow> mrun fs m')"
  by (induction es arbitrary: m) (auto split: option.splits)

lemma mrun_snoc: "mrun (es @ [e]) m = Some n \<longleftrightarrow> (\<exists>m'. mrun es m = Some m' \<and> mstep e m' = Some n)"
  by (auto simp: mrun_append split: option.splits)

text \<open>
  The current client is the one being served, in every other phase there is none; every
  backoff and every pause so far is between the least of the two bounds and the greatest.
\<close>

definition backoffRange :: "Config \<Rightarrow> duration \<Rightarrow> bool" where
  "backoffRange c b \<longleftrightarrow>
     min (minBackoff c) (maxBackoff c) \<le> b \<and> b \<le> max (minBackoff c) (maxBackoff c)"

definition minv :: "Config \<Rightarrow> Manager \<Rightarrow> bool" where
  "minv c m \<longleftrightarrow>
     mcfg m = c \<and>
     current m = (case mphase m of Serving k \<Rightarrow> Some k | _ \<Rightarrow> None) \<and>
     (started m \<longleftrightarrow> mphase m \<noteq> Idle) \<and>
     (started m \<longrightarrow> backoffRange c (backoff m)) \<and>
     list_all (backoffRange c) (waits m)"

lemma backoffRange_min: "backoffRange c (minBackoff c)"
  by (simp add: backoffRange_def)

lemma backoffRange_next: "backoffRange c b \<Longrightarrow> backoffRange c (nextBackoff (maxBackoff c) b)"
  using minBackoff_pos [of c] maxBackoff_pos [of c]
  by (auto simp: backoffRange_def nextBackoff_def minDuration_def)

lemma minv_step: "minv c m \<Longrightarrow> mstep e m = Some n \<Longrightarrow> minv c n"
  by (cases e)
    (auto simp: minv_def pause_def setClient_def clearClient_def disconnectCurrent_def
      backoffRange_min backoffRange_next split: if_splits option.splits mphase.splits)

lemma minv_run: "mrun es (NewManager c) = Some m \<Longrightarrow> minv c m"
proof (induction es arbitrary: m rule: rev_induct)
  case Nil
  then show ?case by (auto simp: minv_def NewManager_def)
next
  case (snoc e es)
  then show ?case by (auto simp: mrun_snoc intro: minv_step)
qed

lemma mcfg_step: "mstep e m = Some n \<Longrightarrow> mcfg n = mcfg m"
  by (cases e)
    (auto simp: pause_def setClient_def clearClient_def disconnectCurrent_def
      split: if_splits option.splits mphase.splits)

text \<open>\<open>n\<close> attempts in a row that all fail, each followed by a full sleep.\<close>

fun failedAttempts :: "nat \<Rightarrow> mevent list" where
  "failedAttempts 0 = []"
| "failedAttempts (Suc n) = CheckCtx False # Dialed None # Woke True # failedAttempts n"

lemma failedAttempts_run:
  assumes "mphase m = Top" "backoff m = min (lo * 2 ^ k) (maxBackoff (mcfg m))"
  shows "\<exists>m'. mrun (failedAttempts n) m = Some m' \<and> mphase m' = Top \<and>
    waits m' = waits m @ map (\<lambda>j. min (lo * 2 ^ (k + j)) (maxBackoff (mcfg m))) [0..<n]"
  using assms
proof (induction n arbitrary: m k)
  case 0
  then show ?case by simp
next
  case (Suc n)
  let ?m = "m\<lparr>waits := waits m @ [backoff m],
    backoff := min (lo * 2 ^ Suc k) (maxBackoff (mcfg m)), mphase := Top\<rparr>"
  have "mrun (failedAttempts (Suc n)) m = mrun (failedAttempts n) ?m"
    using Suc.prems nextBackoff_pow [OF maxBackoff_pos [of "mcfg m"], of lo k] by (simp add: pause_def)
  moreover obtain m' where "mrun (failedAttempts n) ?m = Some m'" "mphase m' = Top"
    "waits m' = waits ?m @ map (\<lambda>j. min (lo * 2 ^ (Suc k + j)) (maxBackoff (mcfg m))) [0..<n]"
    using Suc.IH [of ?m "Suc k"] by auto
  ultimately show ?case
    using Suc.prems(2)
    by (simp add: map_upt_Suc del: upt_Suc mrun.simps failedAttempts.simps)
qed

section \<open>Being connected\<close>

lemma connected_serves:
  assumes "mrun es (NewManager c) = Some m" "managerIsConnected clients m"
  shows "\<exists>k. mphase m = Serving k \<and> connected (clients k) \<and> managerPublish clients m = Inr k"
  using minv_run [OF assms(1)] assms(2)
  by (auto simp: minv_def managerIsConnected_def managerPublish_def split: mphase.splits option.splits)

lemma publish_refused:
  "managerPublish clients m = Inl e \<longleftrightarrow> IsNotConnected e \<and> \<not> managerIsConnected clients m"
  by (auto simp: managerPublish_def managerIsConnected_def IsNotConnected_def split: option.splits)

text \<open>
  \<open>WaitConnected\<close> returns at the first turn that finds a connection or the end of the context, a
  connection first; it waits for ever only if no turn finds either.
\<close>

lemma WaitConnected_up:
  "WaitConnected turns = Some None \<longleftrightarrow>
     (\<exists>before w after. turns = before @ (True, w) # after \<and> list_all (\<lambda>(up, w). \<not> up \<and> w \<noteq> ContextEnded) before)"
proof
  assume "WaitConnected turns = Some None"
  then show "\<exists>before w after. turns = before @ (True, w) # after \<and>
      list_all (\<lambda>(up, w). \<not> up \<and> w \<noteq> ContextEnded) before"
  proof (induction turns rule: WaitConnected.induct)
    case (2 up w turns)
    show ?case
    proof (cases up)
      case True
      then show ?thesis by (intro exI [of _ "[]"]) simp
    next
      case False
      with 2 obtain before w' after where "turns = before @ (True, w') # after" "w \<noteq> ContextEnded"
        "list_all (\<lambda>(up, w). \<not> up \<and> w \<noteq> ContextEnded) before"
        by (auto split: if_splits)
      with False show ?thesis by (intro exI [of _ "(up, w) # before"]) simp
    qed
  qed simp
next
  have "WaitConnected (before @ (True, w) # after) = Some None"
    if "list_all (\<lambda>(up, w). \<not> up \<and> w \<noteq> ContextEnded) before" for before w after
    using that by (induction before) auto
  then show "\<exists>before w after. turns = before @ (True, w) # after \<and>
      list_all (\<lambda>(up, w). \<not> up \<and> w \<noteq> ContextEnded) before \<Longrightarrow> WaitConnected turns = Some None"
    by blast
qed

lemma WaitConnected_waits:
  "WaitConnected turns = None \<longleftrightarrow> list_all (\<lambda>(up, w). \<not> up \<and> w \<noteq> ContextEnded) turns"
  by (induction turns rule: WaitConnected.induct) auto

section \<open>Properties\<close>



text \<open>
  C18: In every run of the reconnect loop a current client is set exactly while the loop serves
  it, so \<open>Publish\<close> never reaches a client the loop has given up; the loop runs at most once; and
  every pause and the backoff stay between the configured bounds.
\<close>
theorem manager_invariant:
  assumes "mrun es (NewManager c) = Some m"
  shows "current m = (case mphase m of Serving k \<Rightarrow> Some k | _ \<Rightarrow> None) \<and>
    (started m \<longrightarrow> mstep StartRun m = Some m) \<and>
    (\<forall>w \<in> set (waits m). min (minBackoff c) (maxBackoff c) \<le> w \<and> w \<le> max (minBackoff c) (maxBackoff c))"
  using minv_run [OF assms] by (auto simp: minv_def list_all_iff backoffRange_def)

definition reconnectRun :: "mevent list" where
  "reconnectRun = [StartRun, CheckCtx False, Dialed None, Woke True, CheckCtx False, Dialed (Some 4)]"

theorem manager_invariant_witness:
  "let m = the (mrun reconnectRun (NewManager exampleConfig)) in
    current m = (case mphase m of Serving k \<Rightarrow> Some k | _ \<Rightarrow> None) \<and>
    (started m \<longrightarrow> mstep StartRun m = Some m) \<and>
    (\<forall>w \<in> set (waits m). min (minBackoff exampleConfig) (maxBackoff exampleConfig) \<le> w \<and>
      w \<le> max (minBackoff exampleConfig) (maxBackoff exampleConfig))"
  unfolding Let_def
  by (rule manager_invariant [of reconnectRun])
    (simp add: reconnectRun_def NewManager_def pause_def setClient_def)



end
