(* ===== verification/Delivery.thy ===== *)
theory Delivery
  imports Agent Manager
begin

text \<open>
  The running agent and its connection together: \<open>App.Run\<close> (app.go) with the reconnect loop of the
  manager, the clients it dials, and the drain's calls of \<open>Publisher.Publish\<close> (spool.go), which
  \<open>Manager.Publish\<close> passes to the client of the moment. A step of this system is a step of one of
  its parts; the agent of theory \<open>Agent\<close>, whose publishes succeed or fail as the environment
  likes, is what remains when the network is forgotten.
\<close>

section \<open>The interface Publisher\<close>

text \<open>
  What \<open>Drain\<close> relies on: a provider moves from state to state; a call that has returned \<open>nil\<close> has
  carried its record, and what is carried stays so.
\<close>

locale publisher =
  fixes good :: "'n \<Rightarrow> bool"
    and moves :: "'n \<Rightarrow> 'n \<Rightarrow> bool"
    and returnedNil :: "'n \<Rightarrow> 'c \<Rightarrow> Record \<Rightarrow> bool"
    and carried :: "'n \<Rightarrow> Record \<Rightarrow> bool"
  assumes good_moves: "moves n m \<Longrightarrow> good n \<Longrightarrow> good m"
    and carried_moves: "moves n m \<Longrightarrow> good n \<Longrightarrow> carried n r \<Longrightarrow> carried m r"
    and nil_carries: "good n \<Longrightarrow> returnedNil n c r \<Longrightarrow> carried n r"
begin

definition covers :: "'n \<Rightarrow> (string \<times> Record) list \<Rightarrow> bool" where
  "covers n acks \<longleftrightarrow> list_all (\<lambda>(_, r). carried n r) acks"

lemma covers_moves: "moves n m \<Longrightarrow> good n \<Longrightarrow> covers n acks \<Longrightarrow> covers m acks"
  using carried_moves by (auto simp: covers_def list_all_iff)

lemma covers_nil: "good n \<Longrightarrow> returnedNil n c r \<Longrightarrow> covers n acks \<Longrightarrow> covers n (acks @ [(name, r)])"
  using nil_carries by (simp add: covers_def)

lemma covers_start: "covers n []"
  by (simp add: covers_def)

lemma coversD: "covers n acks \<Longrightarrow> (name, r) \<in> set acks \<Longrightarrow> carried n r"
  by (auto simp: covers_def list_all_iff)

end

section \<open>The manager and its clients\<close>

text \<open>\<open>netEvents\<close> is a ghost: what has happened to each client so far.\<close>

record mqttNet =
  netManager :: Manager
  netClients :: "nat \<Rightarrow> Client"
  netEvents :: "nat \<Rightarrow> event list"
  netMade :: nat

definition newNetwork :: "Config \<Rightarrow> mqttNet" where
  "newNetwork conf =
     \<lparr>netManager = NewManager conf, netClients = (\<lambda>_. newClient (dialDefaults conf)), netEvents = (\<lambda>_. []),
      netMade = 0\<rparr>"

definition netConnected :: "mqttNet \<Rightarrow> bool" where
  "netConnected net = managerIsConnected (netClients net) (netManager net)"

definition moved :: "nat \<Rightarrow> event \<Rightarrow> Client \<Rightarrow> mqttNet \<Rightarrow> mqttNet" where
  "moved k e c net =
     net\<lparr>netClients := (netClients net)(k := c), netEvents := (netEvents net)(k := netEvents net k @ [e])\<rparr>"

text \<open>
  When the manager's loop may take a turn: a cancelled context is one that has \<open>ended\<close>; the client
  is done when its \<open>done\<close> is closed; and the loop leaves a client on cancellation only after it
  called \<open>Disconnect\<close>, which takes it off the connection.
\<close>

fun mayTurn :: "bool \<Rightarrow> mevent \<Rightarrow> mqttNet \<Rightarrow> bool" where
  "mayTurn ended StartRun net = True"
| "mayTurn ended (CheckCtx b) net = (b \<longrightarrow> ended)"
| "mayTurn ended (Dialed r) net = (r = None)"
| "mayTurn ended (Woke b) net = (b \<or> ended)"
| "mayTurn ended ClientDone net =
     (case mphase (netManager net) of Serving k \<Rightarrow> failPhase (netClients net k) = Done | _ \<Rightarrow> False)"
| "mayTurn ended Manager.Cancelled net =
     (ended \<and> (case mphase (netManager net) of Serving k \<Rightarrow> \<not> connected (netClients net k) | _ \<Rightarrow> False))"

inductive netTurn :: "bool \<Rightarrow> mqttNet \<Rightarrow> mqttNet \<Rightarrow> bool" for ended where
  clientTurn:
    "k < netMade net \<Longrightarrow> step e (netClients net k) = Some c \<Longrightarrow> netTurn ended net (moved k e c net)"
| managerTurn:
    "mayTurn ended e net \<Longrightarrow> mstep e (netManager net) = Some m \<Longrightarrow> netTurn ended net (net\<lparr>netManager := m\<rparr>)"

text \<open>\<open>Dial\<close> made a client, which is new.\<close>

definition netDial :: "mqttNet \<Rightarrow> mqttNet option" where
  "netDial net =
     (let k = netMade net
      in map_option (\<lambda>m. net\<lparr>netManager := m, netMade := k + 1,
             netClients := (netClients net)(k := newClient (dialDefaults (mcfg m))),
             netEvents := (netEvents net)(k := [])\<rparr>)
           (mstep (Dialed (Some k)) (netManager net)))"

definition netMoves :: "mqttNet \<Rightarrow> mqttNet \<Rightarrow> bool" where
  "netMoves n m \<longleftrightarrow> (\<exists>ended. netTurn ended n m) \<or> netDial n = Some m"

definition publishRequest :: "Record \<Rightarrow> request" where
  "publishRequest r =
     PublishReq (recTopic r) (recQoS r) (recRetain r) (case recPayload r of None \<Rightarrow> [] | Some p \<Rightarrow> p)"

definition returnedNil :: "mqttNet \<Rightarrow> nat \<times> nat \<Rightarrow> Record \<Rightarrow> bool" where
  "returnedNil net call r \<longleftrightarrow>
     (case call of (k, i) \<Rightarrow>
        k < netMade net \<and>
        (\<exists>idOpt. calls (netClients net k) i = Some (publishRequest r, Client.Returned idOpt None)))"

text \<open>
  A record is carried when some connection has its whole PUBLISH packet, and with QoS 1 a PUBACK
  with its identifier and no error was read there.
\<close>

definition carried :: "mqttNet \<Rightarrow> Record \<Rightarrow> bool" where
  "carried net r \<longleftrightarrow>
     (\<exists>k i idOpt packet before after. k < netMade net \<and>
        requestPacket (publishRequest r) idOpt = Inr packet \<and>
        sent (netClients net k) = before @ packet @ after \<and>
        (recQoS r = 1 \<longrightarrow> idOpt \<noteq> None) \<and> (\<forall>pid. idOpt = Some pid \<longrightarrow> puback (netEvents net k) i pid))"

definition netGood :: "Config \<Rightarrow> mqttNet \<Rightarrow> bool" where
  "netGood conf net \<longleftrightarrow>
     (\<exists>es. mrun es (NewManager conf) = Some (netManager net)) \<and>
     (\<forall>k < netMade net. run (netEvents net k) (newClient (dialDefaults conf)) = Some (netClients net k)) \<and>
     (\<forall>k. current (netManager net) = Some k \<longrightarrow> k < netMade net)"

lemma netGood_new: "netGood conf (newNetwork conf)"
  by (auto simp: netGood_def newNetwork_def NewManager_def intro: exI [of _ "[]"])

text \<open>A turn of the manager other than a dial never brings in a client.\<close>

lemma mstep_current:
  "mstep e m = Some m' \<Longrightarrow> e = Dialed r \<Longrightarrow> r = None \<Longrightarrow> current m' = current m"
  "mstep e m = Some m' \<Longrightarrow> mayTurn ended e net \<Longrightarrow> current m' = Some k \<Longrightarrow> current m = Some k"
  by (cases e; auto simp: pause_def setClient_def clearClient_def disconnectCurrent_def
      split: if_splits option.splits mphase.splits)+

lemma sent_handlePacket: "\<exists>x. sent (handlePacket results p c) = sent c @ x"
proof (cases p)
  case (fields t flags body)
  have "\<exists>x. sent (handlePublish results flags body c) = sent c @ x"
    using quiet_handlePublish by (auto simp: quiet_def)
  then show ?thesis
    by (auto simp: fields handlePacket_def handlePuback_def handleSuback_def stopReading_def deliverAck_def
        split: sum.splits option.splits)
qed

lemma sent_sendRequest: "\<exists>x. sent (sendRequest results i r idOpt c) = sent c @ x"
  by (auto simp: sendRequest_def split: sum.splits prod.splits option.splits dest!: writePacket_sent)

lemma step_sent: "step e c = Some c' \<Longrightarrow> \<exists>x. sent c' = sent c @ x"
proof (cases e)
  case (Ping results)
  then show "step e c = Some c' \<Longrightarrow> ?thesis"
    by (auto split: if_splits prod.splits option.splits dest!: writePacket_sent)
next
  case (DisconnectCall results)
  then show "step e c = Some c' \<Longrightarrow> ?thesis"
    by (cases "writePacket results disconnectPacket c") (auto dest!: writePacket_sent)
qed (auto simp: enterCall_def registerCall_def leaveCall_def stopReading_def sent_handlePacket sent_sendRequest
    split: option.splits phase.splits request.splits prod.splits if_splits)

lemma puback_mono: "puback es i pid \<Longrightarrow> puback (es @ fs) i pid"
  unfolding puback_def by (metis append.assoc append_Cons)

lemma mrun_step: "mrun es m0 = Some m \<Longrightarrow> mstep e m = Some m' \<Longrightarrow> \<exists>fs. mrun fs m0 = Some m'"
  by (auto intro: exI [of _ "es @ [e]"] simp: mrun_snoc)

lemma mcfg_run: "mrun es (NewManager conf) = Some m \<Longrightarrow> mcfg m = conf"
  using minv_run by (auto simp: minv_def)

lemma netTurn_good: "netTurn ended n m \<Longrightarrow> netGood conf n \<Longrightarrow> netGood conf m"
proof (induction rule: netTurn.induct)
  case (clientTurn k net e c)
  then show ?case by (auto simp: netGood_def moved_def run_snoc)
next
  case (managerTurn e net m)
  then have "mrun es (NewManager conf) = Some (netManager net) \<Longrightarrow> \<exists>fs. mrun fs (NewManager conf) = Some m" for es
    by (rule_tac mrun_step)
  with managerTurn show ?case
    by (auto simp: netGood_def dest: mstep_current(2))
qed

lemma netDial_cases:
  assumes "netDial n = Some m"
  shows "\<exists>mg. mstep (Dialed (Some (netMade n))) (netManager n) = Some mg \<and>
    m = n\<lparr>netManager := mg, netMade := netMade n + 1,
             netClients := (netClients n)(netMade n := newClient (dialDefaults (mcfg mg))),
             netEvents := (netEvents n)(netMade n := [])\<rparr> \<and>
    current mg = Some (netMade n) \<and> mphase mg = Serving (netMade n)"
  using assms by (auto simp: netDial_def Let_def setClient_def split: if_splits)

lemma netDial_good:
  assumes "netDial n = Some m" "netGood conf n"
  shows "netGood conf m"
proof -
  from netDial_cases [OF assms(1)] obtain mg where mg: "mstep (Dialed (Some (netMade n))) (netManager n) = Some mg"
    "current mg = Some (netMade n)"
    and m: "m = n\<lparr>netManager := mg, netMade := netMade n + 1,
             netClients := (netClients n)(netMade n := newClient (dialDefaults (mcfg mg))),
             netEvents := (netEvents n)(netMade n := [])\<rparr>"
    by blast
  obtain es where "mrun es (NewManager conf) = Some (netManager n)" using assms(2) by (auto simp: netGood_def)
  from mrun_step [OF this mg(1)] obtain fs where fs: "mrun fs (NewManager conf) = Some mg" by blast
  then have "mcfg mg = conf" by (rule mcfg_run)
  with fs assms(2) mg(2) m show ?thesis by (auto simp: netGood_def less_Suc_eq)
qed

lemma carried_turn:
  assumes "netTurn ended n m" "carried n r"
  shows "carried m r"
  using assms
proof (induction rule: netTurn.induct)
  case (clientTurn k net e c)
  from clientTurn.prems obtain j i idOpt packet before after where j: "j < netMade net"
    "requestPacket (publishRequest r) idOpt = Inr packet"
    "sent (netClients net j) = before @ packet @ after"
    "recQoS r = 1 \<longrightarrow> idOpt \<noteq> None" "\<forall>pid. idOpt = Some pid \<longrightarrow> puback (netEvents net j) i pid"
    by (auto simp: carried_def)
  from step_sent [OF clientTurn.hyps(2)] obtain x where "sent c = sent (netClients net k) @ x" by blast
  with j(3) have "\<exists>after. sent (netClients (moved k e c net) j) = before @ packet @ after"
    by (auto simp: moved_def)
  moreover have "\<forall>pid. idOpt = Some pid \<longrightarrow> puback (netEvents (moved k e c net) j) i pid"
    using j(5) by (auto simp: moved_def puback_mono)
  moreover have "j < netMade (moved k e c net)" using j(1) by (simp add: moved_def)
  ultimately show ?case using j(2,4) unfolding carried_def by blast
qed (simp add: carried_def)

lemma carried_dial:
  assumes "netDial n = Some m" "carried n r"
  shows "carried m r"
proof -
  from netDial_cases [OF assms(1)] have "netMade m = netMade n + 1"
    "j < netMade n \<Longrightarrow> netClients m j = netClients n j" "j < netMade n \<Longrightarrow> netEvents m j = netEvents n j" for j
    by auto
  with assms(2) show ?thesis unfolding carried_def by (metis less_SucI Suc_eq_plus1)
qed

lemma nil_is_carried:
  assumes "netGood conf n" "returnedNil n call r"
  shows "carried n r"
proof -
  obtain k i where call: "call = (k, i)" by (cases call)
  with assms(2) obtain idOpt where k: "k < netMade n"
    and c: "calls (netClients n k) i = Some (publishRequest r, Client.Returned idOpt None)"
    by (auto simp: returnedNil_def)
  then have "run (netEvents n k) (newClient (dialDefaults conf)) = Some (netClients n k)"
    using assms(1) by (simp add: netGood_def)
  from returned_publish [OF this c [unfolded publishRequest_def]] k
  show ?thesis unfolding carried_def publishRequest_def by blast
qed

interpretation net: publisher "netGood conf" netMoves returnedNil carried for conf
proof
  show "netMoves n m \<Longrightarrow> netGood conf n \<Longrightarrow> netGood conf m" for n m
    by (auto simp: netMoves_def netTurn_good netDial_good)
  show "netMoves n m \<Longrightarrow> netGood conf n \<Longrightarrow> carried n r \<Longrightarrow> carried m r" for n m r
    by (auto simp: netMoves_def carried_turn carried_dial)
qed (rule nil_is_carried)

text \<open>No turn connects: a client that has failed stays so, and only a dial brings in another.\<close>

lemma turn_connected:
  assumes "netTurn ended n m" "netConnected m"
  shows "netConnected n"
  using assms
proof (induction rule: netTurn.induct)
  case (clientTurn k net e c)
  from halted_step [OF clientTurn.hyps(2)] clientTurn.prems show ?case
    by (auto simp: netConnected_def managerIsConnected_def moved_def halted_def split: option.splits if_splits)
next
  case (managerTurn e net m)
  from managerTurn.prems obtain k where "current m = Some k" "connected (netClients net k)"
    by (auto simp: netConnected_def managerIsConnected_def split: option.splits)
  with mstep_current(2) [OF managerTurn.hyps(2,1)] show ?case
    by (simp add: netConnected_def managerIsConnected_def)
qed

lemma dial_connected: "netDial n = Some m \<Longrightarrow> netConnected m"
  using netDial_cases [of n m] by (auto simp: netConnected_def managerIsConnected_def newClient_def)

section \<open>The agent on its network\<close>

text \<open>
  Where the drain's call of \<open>Manager.Publish\<close> is: it has read the current client under the lock
  and found it connected, or it is call number \<open>i\<close> of that client's \<open>Publish\<close>.
\<close>

datatype publishCall = NoCall | Chosen nat | Called nat nat

record linked =
  lkAgent :: agent
  lkNet :: mqttNet
  lkCall :: publishCall
  lkServe :: "Supervisor option"

text \<open>The server that a managed agent's supervisor starts, if it has one.\<close>

definition managedServe :: "App \<Rightarrow> string list option" where
  "managedServe a =
     (let c = CodexBar (appCfg a)
      in if CodexBar_ManageServe c
         then Some (runBinary (appRunner a) #
                serveArgs (CodexBar_ServePort c) (CodexBar_ServeRefreshIntervalSeconds c)
                  (CodexBar_ServeRequestTimeoutSeconds c))
         else None)"

definition startLinked :: "int \<Rightarrow> App \<Rightarrow> linked" where
  "startLinked nanos a =
     \<lparr>lkAgent = startAgent nanos a, lkNet = newNetwork (mqttConfig (appCfg a)), lkCall = NoCall,
      lkServe = map_option (\<lambda>_. newSupervisor) (managedServe a)\<rparr>"

text \<open>\<open>IsConnected\<close> is asked of the network.\<close>

definition withNet :: "mqttNet \<Rightarrow> linked \<Rightarrow> linked" where
  "withNet net s = s\<lparr>lkNet := net, lkAgent := (lkAgent s)\<lparr>agConnected := netConnected net\<rparr>\<rparr>"

text \<open>
  The context of the manager ends when the agent has said offline; those of the supervisor and of
  the drain end with the agent's. A call's own timeout is an event of its client.
\<close>

inductive linkStep :: "(goError \<Rightarrow> string) \<Rightarrow> linked \<Rightarrow> linked \<Rightarrow> bool" for etext where
  agentMoves:
    "localStep etext (lkAgent s) a \<Longrightarrow> linkStep etext s (s\<lparr>lkAgent := a\<rparr>)"
| netTurns:
    "netTurn (agStopped (lkAgent s)) (lkNet s) net \<Longrightarrow> linkStep etext s (withNet net s)"
| dials:
    "netDial (lkNet s) = Some net \<Longrightarrow>
     onMQTTConnect publish goos goarch now1 now2 (agApp (lkAgent s)) = (err, msgs, drains) \<Longrightarrow>
     linkStep etext s (s\<lparr>lkNet := net,
       lkAgent := (lkAgent s)\<lparr>agConnected := True, agSent := agSent (lkAgent s) @ msgs,
         agPending := agPending (lkAgent s) + (if drains then 1 else 0)\<rparr>\<rparr>)"
| chooses:
    "agDrain (lkAgent s) = Publishing n r \<Longrightarrow> lkCall s = NoCall \<Longrightarrow>
     managerPublish (netClients (lkNet s)) (netManager (lkNet s)) = Inr k \<Longrightarrow>
     linkStep etext s (s\<lparr>lkCall := Chosen k\<rparr>)"
| refuses:
    "agDrain (lkAgent s) = Publishing n r \<Longrightarrow> lkCall s = NoCall \<Longrightarrow>
     managerPublish (netClients (lkNet s)) (netManager (lkNet s)) = Inl e \<Longrightarrow>
     linkStep etext s (s\<lparr>lkAgent := (lkAgent s)\<lparr>agDrain := DrainIdle, agDraining := False\<rparr>\<rparr>)"
| calls:
    "agDrain (lkAgent s) = Publishing n r \<Longrightarrow> lkCall s = Chosen k \<Longrightarrow>
     step (Enter i (publishRequest r)) (netClients (lkNet s) k) = Some c \<Longrightarrow>
     linkStep etext s ((withNet (moved k (Enter i (publishRequest r)) c (lkNet s)) s)\<lparr>lkCall := Called k i\<rparr>)"
| returns:
    "agDrain (lkAgent s) = Publishing n r \<Longrightarrow> lkCall s = Called k i \<Longrightarrow>
     Client.calls (netClients (lkNet s) k) i = Some (publishRequest r, Client.Returned idOpt None) \<Longrightarrow>
     linkStep etext s (s\<lparr>lkCall := NoCall,
       lkAgent := (lkAgent s)\<lparr>agDrain := Acknowledged n r, agAcked := agAcked (lkAgent s) @ [(n, r)]\<rparr>\<rparr>)"
| returnsError:
    "agDrain (lkAgent s) = Publishing n r \<Longrightarrow> lkCall s = Called k i \<Longrightarrow>
     Client.calls (netClients (lkNet s) k) i = Some (publishRequest r, Client.Returned idOpt (Some e)) \<Longrightarrow>
     linkStep etext s (s\<lparr>lkCall := NoCall,
       lkAgent := (lkAgent s)\<lparr>agDrain := DrainIdle, agDraining := False\<rparr>\<rparr>)"
| serves:
    "lkServe s = Some sv \<Longrightarrow> svStep sv e = Some sv' \<Longrightarrow> e \<noteq> CodexBar.Cancelled \<or> agCancelled (lkAgent s) \<Longrightarrow>
     linkStep etext s (s\<lparr>lkServe := Some sv'\<rparr>)"

inductive linkReach :: "(goError \<Rightarrow> string) \<Rightarrow> linked \<Rightarrow> linked \<Rightarrow> bool" for etext s where
  link_start: "linkReach etext s s"
| link_step: "linkReach etext s t \<Longrightarrow> linkStep etext t u \<Longrightarrow> linkReach etext s u"

fun callClient :: "publishCall \<Rightarrow> nat option" where
  "callClient NoCall = None"
| "callClient (Chosen k) = Some k"
| "callClient (Called k i) = Some k"

definition linkInv :: "Config \<Rightarrow> linked \<Rightarrow> bool" where
  "linkInv conf s \<longleftrightarrow>
     netGood conf (lkNet s) \<and> agConnected (lkAgent s) = netConnected (lkNet s) \<and>
     (\<forall>k. callClient (lkCall s) = Some k \<longrightarrow> k < netMade (lkNet s)) \<and>
     net.covers (lkNet s) (agAcked (lkAgent s)) \<and> pred_option svInv (lkServe s)"

lemma linkInv_start: "linkInv (mqttConfig (appCfg a)) (startLinked nanos a)"
  by (simp add: linkInv_def startLinked_def netGood_new net.covers_start startAgent_def newSupervisor_inv managedServe_def Let_def)
    (simp add: netConnected_def managerIsConnected_def newNetwork_def NewManager_def)

lemma local_frame: "localStep etext a b \<Longrightarrow> agConnected b = agConnected a \<and> agAcked b = agAcked a"
  by (induction rule: localStep.induct) (auto simp: collect_def finish_def withSpool_def split: prod.splits)

lemma netTurn_made: "netTurn ended n m \<Longrightarrow> netMade m = netMade n"
  by (induction rule: netTurn.induct) (simp_all add: moved_def)

lemma linkInv_moves:
  assumes "linkInv conf s" "netMoves (lkNet s) net" "netMade (lkNet s) \<le> netMade net"
    and "agConnected a = netConnected net" "agAcked a = agAcked (lkAgent s)"
  shows "linkInv conf (s\<lparr>lkNet := net, lkAgent := a\<rparr>)"
  using assms net.good_moves net.covers_moves [of "lkNet s" net conf]
  by (auto simp: linkInv_def)

lemma linkInv_step: "linkStep etext s t \<Longrightarrow> linkInv conf s \<Longrightarrow> linkInv conf t"
proof (induction rule: linkStep.induct)
  case (agentMoves s a)
  with local_frame [OF agentMoves.hyps] show ?case by (simp add: linkInv_def)
next
  case (netTurns s net)
  then show ?case
    unfolding withNet_def
    by (intro linkInv_moves) (auto simp: netMoves_def netTurn_made)
next
  case (dials s net publish goos goarch now1 now2 err msgs drains)
  have "netMade (lkNet s) \<le> netMade net" using netDial_cases [OF dials.hyps(1)] by auto
  with dials show ?case
    by (intro linkInv_moves) (auto simp: netMoves_def dial_connected)
next
  case (chooses s n r k)
  then show ?case
    by (auto simp: linkInv_def netGood_def managerPublish_def split: option.splits if_splits)
next
  case (calls s n r k i c)
  then have k: "k < netMade (lkNet s)" by (simp add: linkInv_def)
  have "netTurn (agStopped (lkAgent s)) (lkNet s) (moved k (Enter i (publishRequest r)) c (lkNet s))"
    using k calls.hyps(3) by (rule clientTurn)
  then have "linkInv conf (withNet (moved k (Enter i (publishRequest r)) c (lkNet s)) s)"
    unfolding withNet_def using calls.prems
    by (intro linkInv_moves) (auto simp: netMoves_def netTurn_made)
  with k show ?case by (simp add: linkInv_def withNet_def moved_def)
next
  case (returns s n r k i idOpt)
  then have "returnedNil (lkNet s) (k, i) r" by (auto simp: returnedNil_def linkInv_def)
  with returns show ?case by (auto simp: linkInv_def intro: net.covers_nil)
next
  case (serves s sv e sv')
  then show ?case using svStep_inv(1) by (auto simp: linkInv_def)
qed (simp_all add: linkInv_def)

lemma linkInv_reach: "linkReach etext (startLinked nanos a) s \<Longrightarrow> linkInv (mqttConfig (appCfg a)) s"
  by (induction rule: linkReach.induct) (auto simp: linkInv_start intro: linkInv_step)

text \<open>Forgetting the network.\<close>

lemma agent_of_agStep: "agentStep etext a b \<Longrightarrow> agentReach etext a b"
  by (rule agent_step [OF agent_start])

lemma forget_turn:
  assumes "agConnected a = netConnected n" "netTurn ended n m"
  shows "agentReach etext a (a\<lparr>agConnected := netConnected m\<rparr>)"
proof (cases "netConnected m")
  case True
  with turn_connected [OF assms(2)] assms(1) have "a\<lparr>agConnected := netConnected m\<rparr> = a" by simp
  then show ?thesis by (simp add: agent_start)
next
  case False
  then show ?thesis using agent_of_agStep [OF disconnects] by simp
qed

lemma forget_step: "linkStep etext s t \<Longrightarrow> linkInv conf s \<Longrightarrow> agentReach etext (lkAgent s) (lkAgent t)"
proof (induction rule: linkStep.induct)
  case (agentMoves s a)
  then show ?case by (simp add: agent_of_agStep byItself)
next
  case (netTurns s net)
  then show ?case by (auto simp: withNet_def linkInv_def intro: forget_turn)
next
  case (dials s net publish goos goarch now1 now2 err msgs drains)
  from agent_of_agStep [OF connects [OF dials.hyps(2)]] show ?case by simp
next
  case (refuses s n r e)
  from agent_of_agStep [OF publishFails [OF refuses.hyps(1)]] show ?case by simp
next
  case (calls s n r k i c)
  then have "netTurn False (lkNet s) (moved k (Enter i (publishRequest r)) c (lkNet s))"
    by (intro clientTurn) (simp_all add: linkInv_def)
  with calls.prems show ?case by (auto simp: withNet_def linkInv_def intro: forget_turn)
next
  case (returns s n r k i idOpt)
  from agent_of_agStep [OF publishes [OF returns.hyps(1)]] show ?case by simp
next
  case (returnsError s n r k i idOpt e)
  from agent_of_agStep [OF publishFails [OF returnsError.hyps(1)]] show ?case by simp
qed (simp_all add: agent_start)

lemma forget_reach:
  "linkReach etext (startLinked nanos a) s \<Longrightarrow> agentReach etext (startAgent nanos a) (lkAgent s)"
proof (induction rule: linkReach.induct)
  case link_start
  show ?case by (simp add: startLinked_def agent_start)
next
  case (link_step t u)
  from forget_step [OF link_step.hyps(2) linkInv_reach [OF link_step.hyps(1)]] link_step.IH
  show ?case by (rule agentReach_trans)
qed

section \<open>An accepted record on its way to the broker\<close>

lemma linkReach_trans: "linkReach etext t u \<Longrightarrow> linkReach etext s t \<Longrightarrow> linkReach etext s u"
  by (induction rule: linkReach.induct) (auto intro: linkReach.link_step)

lemma link_of_step: "linkStep etext s t \<Longrightarrow> linkReach etext s t"
  by (rule link_step [OF link_start])

text \<open>A run of one client is a run of the system.\<close>

definition clientRan :: "nat \<Rightarrow> event list \<Rightarrow> Client \<Rightarrow> mqttNet \<Rightarrow> mqttNet" where
  "clientRan k es c net =
     net\<lparr>netClients := (netClients net)(k := c), netEvents := (netEvents net)(k := netEvents net k @ es)\<rparr>"

lemma client_runs:
  assumes "run es (netClients net k) = Some c" "k < netMade net"
  shows "linkReach etext (withNet net s) (withNet (clientRan k es c net) s)"
  using assms
proof (induction es arbitrary: net)
  case Nil
  then have "clientRan k [] c net = net" by (cases net) (auto simp: clientRan_def)
  then show ?case by (simp only: link_start)
next
  case (Cons e es)
  then obtain c1 where c1: "step e (netClients net k) = Some c1" "run es c1 = Some c" by (auto split: option.splits)
  have "linkStep etext (withNet net s) (withNet (moved k e c1 net) (withNet net s))"
    by (rule netTurns) (use c1(1) Cons.prems(2) in \<open>auto simp: withNet_def intro: clientTurn\<close>)
  then have "linkReach etext (withNet net s) (withNet (moved k e c1 net) s)"
    by (intro link_of_step) (simp add: withNet_def)
  moreover have "run es (netClients (moved k e c1 net) k) = Some c" "k < netMade (moved k e c1 net)"
    using c1(2) Cons.prems(2) by (simp_all add: moved_def)
  note Cons.IH [OF this]
  moreover have "clientRan k es c (moved k e c1 net) = clientRan k (e # es) c net" by (simp add: clientRan_def moved_def)
  ultimately show ?case by (simp add: linkReach_trans)
qed

text \<open>What \<open>encodePublish\<close> and the client's own check accept.\<close>

definition publishable :: "Record \<Rightarrow> bool" where
  "publishable r \<longleftrightarrow> recTopic r \<noteq> [] \<and> length (recTopic r) \<le> 65535 \<and> recQoS r \<le> 1"

definition publishing :: "Record \<Rightarrow> event list" where
  "publishing r =
     [Register 0, Send 0 []] @ (if recQoS r = 1 then [Read [] (packetPUBACK, 0, [0, 1]), TakeAck 0] else []) @ [Leave 0]"

lemma publishing_run:
  assumes "publishable r"
  shows "\<exists>c1 c idOpt. step (Enter 0 (publishRequest r)) (newClient conf) = Some c1 \<and> run (publishing r) c1 = Some c \<and>
    Client.calls c 0 = Some (publishRequest r, Client.Returned idOpt None)"
proof -
  have "recQoS r = 0 \<or> recQoS r = 1" using assms byte_le_1_cases by (simp add: publishable_def)
  with assms show ?thesis
    by (auto simp: publishable_def publishing_def publishRequest_def newClient_def enterCall_def requestCheck_def
        registerCall_def nextPacketID.simps [of 0] setPhase_def sendRequest_def requestPacket_def encodePublish_eq
        writePacket_def handlePacket_def handlePuback_def deliverAck_def trySend_def pubackResult_def
        leaveCall_def packetPUBACK_def be16_def split_beta)
qed

text \<open>A drain that has read a record publishes it on a new client.\<close>

lemma link_publishes:
  assumes d: "agDrain (lkAgent s) = Publishing n r" "lkCall s = NoCall"
    and net: "managerPublish (netClients (lkNet s)) (netManager (lkNet s)) = Inr k" "k < netMade (lkNet s)"
      "netClients (lkNet s) k = newClient conf"
    and r: "publishable r"
  shows "\<exists>t conn. linkReach etext s t \<and> lkCall t = NoCall \<and>
    lkAgent t = (lkAgent s)\<lparr>agConnected := conn, agDrain := Acknowledged n r, agAcked := agAcked (lkAgent s) @ [(n, r)]\<rparr>"
proof -
  obtain c1 c idOpt where c: "step (Enter 0 (publishRequest r)) (newClient conf) = Some c1" "run (publishing r) c1 = Some c"
    "Client.calls c 0 = Some (publishRequest r, Client.Returned idOpt None)"
    using publishing_run [OF r] by blast
  let ?net = "moved k (Enter 0 (publishRequest r)) c1 (lkNet s)"
  let ?net' = "clientRan k (publishing r) c ?net"
  let ?s = "s\<lparr>lkCall := Called k 0\<rparr>" and ?c = "s\<lparr>lkCall := Chosen k\<rparr>"
  have "linkStep etext s ?c" by (rule chooses [OF d net(1)])
  then have "linkReach etext s ?c" by (rule link_of_step)
  moreover have "linkStep etext ?c (withNet ?net ?s)"
  proof -
    have "linkStep etext ?c ((withNet (moved k (Enter 0 (publishRequest r)) c1 (lkNet ?c)) ?c)\<lparr>lkCall := Called k 0\<rparr>)"
      by (rule calls) (use d(1) net(3) c(1) in \<open>simp_all del: step.simps\<close>)
    moreover have "(withNet (moved k (Enter 0 (publishRequest r)) c1 (lkNet ?c)) ?c)\<lparr>lkCall := Called k 0\<rparr> = withNet ?net ?s"
      by (cases s) (simp add: withNet_def)
    ultimately show ?thesis by simp
  qed
  ultimately have 1: "linkReach etext s (withNet ?net ?s)" by (rule link_step)
  have "run (publishing r) (netClients ?net k) = Some c" "k < netMade ?net" using c(2) net(2) by (simp_all add: moved_def)
  from linkReach_trans [OF client_runs [OF this] 1] have 2: "linkReach etext s (withNet ?net' ?s)" .
  have "linkStep etext (withNet ?net' ?s) ((withNet ?net' ?s)\<lparr>lkCall := NoCall,
      lkAgent := (lkAgent (withNet ?net' ?s))\<lparr>agDrain := Acknowledged n r,
        agAcked := agAcked (lkAgent (withNet ?net' ?s)) @ [(n, r)]\<rparr>\<rparr>)"
    by (rule returns [of _ n r k 0 idOpt]) (use d(1) c(3) in \<open>simp_all add: withNet_def clientRan_def\<close>)
  from link_step [OF 2 this] show ?thesis
    by (intro exI [of _ "(withNet ?net' ?s)\<lparr>lkCall := NoCall,
      lkAgent := (lkAgent (withNet ?net' ?s))\<lparr>agDrain := Acknowledged n r,
        agAcked := agAcked (lkAgent (withNet ?net' ?s)) @ [(n, r)]\<rparr>\<rparr>"] exI [of _ "netConnected ?net'"] conjI)
      (simp_all add: withNet_def)
qed

text \<open>The manager starts, looks at its context and dials.\<close>

lemma link_connects:
  assumes "lkNet s = newNetwork conf" "lkCall s = NoCall" "agStopped (lkAgent s) = False"
  shows "\<exists>t ms k. linkReach etext s t \<and> lkCall t = NoCall \<and>
    managerPublish (netClients (lkNet t)) (netManager (lkNet t)) = Inr 0 \<and> 0 < netMade (lkNet t) \<and>
    netClients (lkNet t) 0 = newClient (dialDefaults conf) \<and> netConnected (lkNet t) \<and>
    lkAgent t = (lkAgent s)\<lparr>agConnected := True, agSent := ms, agPending := k\<rparr>"
proof -
  let ?m1 = "(NewManager conf)\<lparr>started := True, backoff := minBackoff conf, mphase := Manager.Top\<rparr>"
  let ?m2 = "?m1\<lparr>mphase := Dialing\<rparr>"
  let ?n1 = "(newNetwork conf)\<lparr>netManager := ?m1\<rparr>" and ?n2 = "(newNetwork conf)\<lparr>netManager := ?m2\<rparr>"
  have "netTurn False (newNetwork conf) ((newNetwork conf)\<lparr>netManager := ?m1\<rparr>)"
    by (rule managerTurn [of _ StartRun]) (simp_all add: newNetwork_def NewManager_def)
  with assms have 1: "linkReach etext s (withNet ?n1 s)"
    by (intro link_of_step netTurns) simp
  have "netTurn False ?n1 (?n1\<lparr>netManager := ?m2\<rparr>)"
    by (rule managerTurn [of _ "CheckCtx False"]) (simp_all add: newNetwork_def NewManager_def)
  then have "linkStep etext (withNet ?n1 s) (withNet ?n2 (withNet ?n1 s))"
    using assms by (intro netTurns) (simp add: withNet_def)
  with 1 have 2: "linkReach etext s (withNet ?n2 s)"
    by (rule_tac link_step) (simp_all add: withNet_def)
  obtain net where net: "netDial ?n2 = Some net" by (auto simp: netDial_def Let_def)
  obtain err msgs drains where c: "onMQTTConnect (\<lambda>_. None) ''darwin'' ''arm64'' 0 0 (agApp (lkAgent s)) = (err, msgs, drains)"
    by (metis prod.exhaust)
  let ?a = "(lkAgent s)\<lparr>agConnected := True, agSent := agSent (lkAgent s) @ msgs,
    agPending := agPending (lkAgent s) + (if drains then 1 else 0)\<rparr>"
  have "linkStep etext (withNet ?n2 s) (s\<lparr>lkNet := net, lkAgent := ?a\<rparr>)"
    using dials [of "withNet ?n2 s" net "\<lambda>_. None" "''darwin''" "''arm64''" 0 0 err msgs drains etext] net c
    by (simp add: withNet_def)
  from link_step [OF 2 this] have "linkReach etext s (s\<lparr>lkNet := net, lkAgent := ?a\<rparr>)" .
  moreover from netDial_cases [OF net] have "current (netManager net) = Some 0" "netMade net = 1"
    "netClients net 0 = newClient (dialDefaults (mcfg (netManager net)))" "mcfg (netManager net) = conf"
    by (auto simp: newNetwork_def setClient_def NewManager_def)
  moreover from this have "managerPublish (netClients net) (netManager net) = Inr 0"
    by (simp add: managerPublish_def newClient_def)
  ultimately show ?thesis
    using assms(2) dial_connected [OF net]
    by (intro exI [of _ "s\<lparr>lkNet := net, lkAgent := ?a\<rparr>"] exI conjI) auto
qed

section \<open>Properties\<close>

text \<open>
  C6: The agent on its network is the agent: whatever the goroutines, the reconnect loop, the
  clients and the broker do, what the agent does is a run of the step relation in which a publish
  of the drain succeeds or fails freely; it takes itself for connected exactly while the manager
  serves a client that is; and a record counts as acknowledged only after some connection was
  given its whole PUBLISH packet and, with QoS 1, has received a PUBACK for it without an error.
\<close>
theorem network_refines_agent:
  assumes "linkReach etext (startLinked nanos a) s"
  shows "agentReach etext (startAgent nanos a) (lkAgent s) \<and>
    agConnected (lkAgent s) = netConnected (lkNet s) \<and>
    list_all (\<lambda>(n, r). carried (lkNet s) r) (agAcked (lkAgent s))"
  using forget_reach [OF assms] linkInv_reach [OF assms] by (simp add: linkInv_def net.covers_def)

text \<open>
  C1: From the spool to the broker, at least once. A record that the spool of a running agent
  accepted is, at every moment and whatever happened to the agent's connections, still in the
  directory unchanged, or was pruned to stay within the bounds, or has been carried: written as a
  whole PUBLISH packet on a connection and, with QoS 1, acknowledged there without an error.
\<close>
theorem accepted_reaches_broker:
  assumes "okQueue (appSpool a)" "linkReach etext (startLinked nanos a) s" "(n, r) \<in> set (agAccepted (lkAgent s))"
  shows "parsedRecord (appSpool (agApp (lkAgent s))) n = Some r \<or> n \<in> set (agPruned (lkAgent s)) \<or> carried (lkNet s) r"
  using agent_accounts [OF assms(1) forget_reach [OF assms(2)] assms(3)]
    linkInv_reach [OF assms(2)] net.coversD [of "lkNet s" "agAcked (lkAgent s)" n r]
  by (auto simp: linkInv_def)

section \<open>An instance\<close>

abbreviation linkStart :: linked where
  "linkStart \<equiv> startLinked 0 (probeApp (roomFor refusalRecord))"

lemma probe_topic:
  "topicPrefix (appCfg (probeApp q)) = Join ''/'' [''codexbar'', ''v1'']" "machineID (appCfg (probeApp q)) = ''m4''"
  by (simp_all add: probeApp_def quietApp_def exampleApp_def Defaults_def sanitizeMachineID_def string_eval
      idRune_def Let_def)

lemma probe_slugs:
  "slug ''codexbar''" "slug ''v1''" "slug ''agent''" "slug ''error''" "slug ''m4''" "slug ''events''"
  by (simp_all add: slug_def segRune_def)

lemma probe_eventTopic: "eventTopic (appCfg (probeApp q)) ''agent/error'' = ''codexbar/v1/events/m4/agent/error''"
proof -
  have k: "''agent/error'' = Join ''/'' [''agent'', ''error'']" by simp
  show ?thesis
    unfolding eventTopic_def probe_topic joinTopic_def k
    by (simp add: cleanPart_Join probe_slugs cleanPart_slug del: Join.simps) simp
qed

lemma refusal_message: "recQoS refusalRecord = 1" "recTopic refusalRecord = ''codexbar/v1/events/m4/agent/error''"
proof -
  let ?a = "probeApp demoQueue"
  obtain r0 where r0: "recordsOf ?a (callObservation refusing healthCall ?a) = [r0]"
    using refusal_records(2) by blast
  have "recTopic refusalRecord = recTopic r0" "recQoS refusalRecord = recQoS r0"
    using r0 by (simp_all add: refusalRecord_def newRecords_def completeRecord_def Let_def)
  moreover have "Publish_PublishEvents (Publish (appCfg ?a))" "\<not> Publish_RetainSnapshots (Publish (appCfg ?a))"
    by (simp_all add: probeApp_def quietApp_def exampleApp_def Defaults_def Let_def)
  with r0 have "recQoS r0 = MQTT_QoS (MQTT (appCfg ?a))" "recTopic r0 = eventTopic (appCfg ?a) ''agent/error''"
    by (auto simp: recordsOf_def observationRecords_def refused newErrorObservation_def newObservation_def Let_def
        split: sum.splits)
  moreover have "MQTT_QoS (MQTT (appCfg ?a)) = 1"
    by (simp add: probeApp_def quietApp_def exampleApp_def Defaults_def Let_def)
  ultimately show "recQoS refusalRecord = 1" "recTopic refusalRecord = ''codexbar/v1/events/m4/agent/error''"
    by (simp_all add: probe_eventTopic)
qed

lemma probe_accepted:
  "agAccepted (collect refusing 0 healthCall [] [] probeStart) = [(recordName refusalRecord, refusalRecord)]"
proof -
  have "writtenQueue refusing healthCall (agApp probeStart) = oneFile refusalRecord"
    using probe_written by (simp add: writtenQueue_def probe_app probe_spool)
  then show ?thesis
    unfolding collect_def probe_app
    by (simp add: refusal_records committed_def named_def oneFile_def startAgent_def split: prod.split)
qed

text \<open>The agent collects, connects and reads the record to publish.\<close>

abbreviation drainingAgent :: "message list \<Rightarrow> nat \<Rightarrow> agent" where
  "drainingAgent ms k \<equiv> (withSpool (oneFile refusalRecord) ((collect refusing 0 healthCall [] [] probeStart)
     \<lparr>agConnected := True, agSent := ms, agPending := k, agDraining := True\<rparr>))
     \<lparr>agDrain := Publishing (recordName refusalRecord) refusalRecord\<rparr>"

lemma probe_drains:
  "\<exists>s ms k conf. linkReach etext linkStart s \<and> lkAgent s = drainingAgent ms k \<and> lkCall s = NoCall \<and>
     managerPublish (netClients (lkNet s)) (netManager (lkNet s)) = Inr 0 \<and> 0 < netMade (lkNet s) \<and>
     netClients (lkNet s) 0 = newClient conf \<and> netConnected (lkNet s)"
proof -
  let ?a = "collect refusing 0 healthCall [] [] probeStart"
  let ?s1 = "linkStart\<lparr>lkAgent := ?a\<rparr>"
  have start: "lkAgent linkStart = probeStart" by (simp add: startLinked_def)
  have "localStep etext (lkAgent linkStart) ?a"
    unfolding start by (rule collects [OF _ _ probe_fresh]) (simp_all add: probe_workers)
  from link_of_step [OF agentMoves [OF this]] have 1: "linkReach etext linkStart ?s1" .
  have "lkNet ?s1 = newNetwork (mqttConfig (appCfg (probeApp (roomFor refusalRecord))))" "lkCall ?s1 = NoCall"
    "agStopped (lkAgent ?s1) = False"
    by (simp_all add: startLinked_def) (simp add: collect_def startAgent_def split: prod.split)
  from link_connects [OF this, of etext] obtain s ms k where s: "linkReach etext ?s1 s" "lkCall s = NoCall"
    "managerPublish (netClients (lkNet s)) (netManager (lkNet s)) = Inr 0" "0 < netMade (lkNet s)"
    "netClients (lkNet s) 0 = newClient (dialDefaults (mqttConfig (appCfg (probeApp (roomFor refusalRecord)))))"
    "netConnected (lkNet s)" and "lkAgent s = (lkAgent ?s1)\<lparr>agConnected := True, agSent := ms, agPending := k\<rparr>"
    by blast
  then have a: "lkAgent s = ?a\<lparr>agConnected := True, agSent := ms, agPending := k\<rparr>" by simp
  let ?a3 = "?a\<lparr>agConnected := True, agSent := ms, agPending := k, agDraining := True\<rparr>"
  have "localStep etext (lkAgent s) ((lkAgent s)\<lparr>agDraining := True\<rparr>)"
    by (rule ticks) (simp_all add: a probe_collected)
  from link_step [OF linkReach_trans [OF s(1) 1] agentMoves [OF this]]
  have 3: "linkReach etext linkStart (s\<lparr>lkAgent := ?a3\<rparr>)" by (simp add: a)
  have "localStep etext (lkAgent (s\<lparr>lkAgent := ?a3\<rparr>)) (drainingAgent ms k)"
    using peeks [of ?a3 unixIO "recordName refusalRecord" refusalRecord "oneFile refusalRecord" etext]
    by (simp add: probe_collected probe_enqueues(2) oneFile_peek refusal_name refusal_valid)
  from link_step [OF 3 agentMoves [OF this]]
  have "linkReach etext linkStart (s\<lparr>lkAgent := drainingAgent ms k\<rparr>)" by simp
  with s show ?thesis
    by (intro exI [of _ "s\<lparr>lkAgent := drainingAgent ms k\<rparr>"] exI conjI) (assumption | simp)+
qed

lemma probe_delivers:
  "\<exists>s. linkReach etext linkStart s \<and> agAcked (lkAgent s) = [(recordName refusalRecord, refusalRecord)] \<and>
     agPruned (lkAgent s) = [] \<and> agAccepted (lkAgent s) = [(recordName refusalRecord, refusalRecord)] \<and>
     parsedRecord (appSpool (agApp (lkAgent s))) (recordName refusalRecord) = None"
proof -
  let ?n = "recordName refusalRecord"
  obtain s ms k conf where s: "linkReach etext linkStart s" "lkAgent s = drainingAgent ms k" "lkCall s = NoCall"
    "managerPublish (netClients (lkNet s)) (netManager (lkNet s)) = Inr 0" "0 < netMade (lkNet s)"
    "netClients (lkNet s) 0 = newClient conf" "netConnected (lkNet s)"
    using probe_drains by blast
  have "agDrain (lkAgent s) = Publishing ?n refusalRecord" "publishable refusalRecord"
    using s(2) by (simp_all add: withSpool_def publishable_def refusal_message)
  from link_publishes [OF this(1) s(3-6) this(2), of etext] obtain t conn where t: "linkReach etext s t"
    "lkAgent t = (lkAgent s)\<lparr>agConnected := conn, agDrain := Acknowledged ?n refusalRecord,
       agAcked := agAcked (lkAgent s) @ [(?n, refusalRecord)]\<rparr>"
    by blast
  have "localStep etext (lkAgent t) ((withSpool (removeFile ?n (oneFile refusalRecord)) (lkAgent t))
      \<lparr>agDrain := DrainIdle, agDraining := ((None :: spool_error option) = None)\<rparr>)"
    by (rule removes [where io = unixIO])
      (simp_all add: t(2) s(2) withSpool_def removePublished_def, simp_all add: oneFile_def)
  from link_step [OF linkReach_trans [OF t(1) s(1)] agentMoves [OF this]] show ?thesis
    by (rule_tac exI, rule_tac conjI, assumption)
      (simp add: t(2) s(2) withSpool_def probe_collected probe_accepted parsedRecord_def fileContent_def
        removeFile_def oneFile_def)
qed

theorem network_refines_agent_witness:
  "\<exists>s. linkReach (\<lambda>_. '''') linkStart s \<and> agAcked (lkAgent s) = [(recordName refusalRecord, refusalRecord)] \<and>
     agConnected (lkAgent s) = netConnected (lkNet s) \<and> carried (lkNet s) refusalRecord"
proof -
  obtain s where s: "linkReach (\<lambda>_. '''') linkStart s" "agAcked (lkAgent s) = [(recordName refusalRecord, refusalRecord)]"
    using probe_delivers by blast
  from network_refines_agent [OF s(1)] s show ?thesis by auto
qed

theorem accepted_reaches_broker_witness:
  "\<exists>s. linkReach (\<lambda>_. '''') linkStart s \<and>
     parsedRecord (appSpool (agApp (lkAgent s))) (recordName refusalRecord) = None \<and>
     carried (lkNet s) refusalRecord"
proof -
  obtain s where s: "linkReach (\<lambda>_. '''') linkStart s" "agPruned (lkAgent s) = []"
    "agAccepted (lkAgent s) = [(recordName refusalRecord, refusalRecord)]"
    "parsedRecord (appSpool (agApp (lkAgent s))) (recordName refusalRecord) = None"
    using probe_delivers by blast
  from accepted_reaches_broker [OF probe_ok s(1), of "recordName refusalRecord" refusalRecord] s show ?thesis
    by auto
qed

end
