(* ===== verification/Example.thy ===== *)
theory Example
  imports Settings Envelope
begin

text \<open>
  \<open>WriteExample\<close> of \<open>internal/config/config.go\<close>: the text \<open>json.MarshalIndent\<close> writes for a
  configuration, the file calls of \<open>init\<close>, and what \<open>Load\<close> makes of the file.
\<close>

section \<open>Indented text\<close>

text \<open>\<open>pre\<close> is a line break with the indentation of the value; an empty array or object has none.\<close>

definition deeper :: "string \<Rightarrow> string" where
  "deeper pre = pre @ ''  ''"

fun indentJson :: "string \<Rightarrow> json \<Rightarrow> string" where
  "indentJson pre JNull = ''null''"
| "indentJson pre (JBool b) = (if b then ''true'' else ''false'')"
| "indentJson pre (JNum t) = t"
| "indentJson pre (JStr raw) = quoted raw"
| "indentJson pre (JArr vs) =
     (if vs = [] then ''[]''
      else ''['' @ Join '','' (map (\<lambda>v. deeper pre @ indentJson (deeper pre) v) vs) @ pre @ '']'')"
| "indentJson pre (JObj ms) =
     (if ms = [] then ''{}''
      else ''{'' @ Join '','' (map (\<lambda>(k, v). deeper pre @ quoted k @ '': '' @ indentJson (deeper pre) v) ms) @ pre @ ''}'')"

definition lineBreak :: string where "lineBreak = [CHR 0x0A]"

section \<open>Configurations as text\<close>

definition omitFalse :: "string \<Rightarrow> bool \<Rightarrow> (string \<times> json) list" where
  "omitFalse k b = (if b then [(k, JBool True)] else [])"

definition jint :: "int \<Rightarrow> json" where "jint i = JNum (intString i)"

definition omitInts :: "string \<Rightarrow> int list \<Rightarrow> (string \<times> json) list" where
  "omitInts k is = (if is = [] then [] else [(k, JArr (map jint is))])"

definition machineConfigJson :: "MachineConfig \<Rightarrow> json" where
  "machineConfigJson c =
     JObj ([(''id'', jtext (Machine_ID c))] @ omitText ''name'' (Machine_Name c) @ omitMap ''tags'' (Machine_Tags c))"

definition codexBarJson :: "CodexBarConfig \<Rightarrow> json" where
  "codexBarJson c =
     JObj ([(''base_url'', jtext (CodexBar_BaseURL c))] @ omitText ''binary'' (CodexBar_Binary c) @
       [(''manage_serve'', JBool (CodexBar_ManageServe c)),
        (''serve_port'', jint (CodexBar_ServePort c)),
        (''serve_refresh_interval_seconds'', jint (CodexBar_ServeRefreshIntervalSeconds c)),
        (''serve_request_timeout_seconds'', jint (CodexBar_ServeRequestTimeoutSeconds c)),
        (''http_timeout_seconds'', jint (CodexBar_HTTPTimeoutSeconds c)),
        (''cli_timeout_seconds'', jint (CodexBar_CLITimeoutSeconds c))] @
       omitText ''usage_provider'' (CodexBar_UsageProvider c) @
       omitText ''cost_provider'' (CodexBar_CostProvider c))"

definition tlsJson :: "TLSConfig \<Rightarrow> json" where
  "tlsJson c =
     JObj (omitText ''ca_file'' (TLS_CAFile c) @ omitText ''cert_file'' (TLS_CertFile c) @
       omitText ''key_file'' (TLS_KeyFile c) @ omitText ''server_name'' (TLS_ServerName c) @
       omitFalse ''insecure_skip_verify'' (TLS_InsecureSkipVerify c))"

text \<open>\<open>omitempty\<close> never leaves out the struct \<open>TLS\<close>.\<close>

definition mqttJson :: "MQTTConfig \<Rightarrow> json" where
  "mqttJson c =
     JObj ([(''broker'', jtext (MQTT_Broker c))] @ omitText ''client_id'' (MQTT_ClientID c) @
       omitText ''username'' (MQTT_Username c) @ omitText ''password'' (MQTT_Password c) @
       omitText ''password_env'' (MQTT_PasswordEnv c) @ omitText ''password_file'' (MQTT_PasswordFile c) @
       [(''topic_prefix'', jtext (MQTT_TopicPrefix c)),
        (''qos'', JNum (natString (unat (MQTT_QoS c)))),
        (''keep_alive_seconds'', jint (MQTT_KeepAliveSeconds c)),
        (''connect_timeout_seconds'', jint (MQTT_ConnectTimeoutSeconds c)),
        (''publish_timeout_seconds'', jint (MQTT_PublishTimeoutSeconds c)),
        (''reconnect_min_seconds'', jint (MQTT_ReconnectMinSeconds c)),
        (''reconnect_max_seconds'', jint (MQTT_ReconnectMaxSeconds c)),
        (''tls'', tlsJson (MQTT_TLS c))])"

definition pollJson :: "PollConfig \<Rightarrow> json" where
  "pollJson c =
     JObj ([(''heartbeat_seconds'', jint (Poll_HeartbeatSeconds c)),
        (''health_seconds'', jint (Poll_HealthSeconds c)),
        (''usage_seconds'', jint (Poll_UsageSeconds c)),
        (''cost_seconds'', jint (Poll_CostSeconds c)),
        (''all_providers_seconds'', jint (Poll_AllProvidersSeconds c)),
        (''status_seconds'', jint (Poll_StatusSeconds c))] @
       omitText ''status_provider'' (Poll_StatusProvider c) @
       [(''active_account_probe_seconds'', jint (Poll_ActiveAccountProbeSeconds c))] @
       omitTexts ''active_account_probe_providers'' (Poll_ActiveAccountProbeProviders c) @
       [(''account_catalogue_seconds'', jint (Poll_AccountCatalogueSeconds c))] @
       omitTexts ''account_catalogue_providers'' (Poll_AccountCatalogueProviders c) @
       [(''cost_horizon_seconds'', jint (Poll_CostHorizonSeconds c))] @
       omitInts ''cost_horizons_days'' (Poll_CostHorizonsDays c) @
       [(''config_validate_seconds'', jint (Poll_ConfigValidateSeconds c))])"

definition spoolConfigJson :: "SpoolConfig \<Rightarrow> json" where
  "spoolConfigJson c =
     JObj [(''directory'', jtext (Spool_Directory c)), (''max_messages'', jint (Spool_MaxMessages c)),
           (''max_bytes'', jint (Spool_MaxBytes c))]"

definition publishJson :: "PublishConfig \<Rightarrow> json" where
  "publishJson c =
     JObj [(''retain_snapshots'', JBool (Publish_RetainSnapshots c)), (''publish_events'', JBool (Publish_PublishEvents c)),
           (''include_stderr'', JBool (Publish_IncludeStderr c))]"

definition configJson :: "AppConfig \<Rightarrow> json" where
  "configJson c =
     JObj [(''machine'', machineConfigJson (AppConfig.Machine c)), (''codexbar'', codexBarJson (CodexBar c)),
           (''mqtt'', mqttJson (MQTT c)), (''poll'', pollJson (Poll c)), (''spool'', spoolConfigJson (AppConfig.Spool c)),
           (''publish'', publishJson (Publish c))]"

definition exampleConfig :: "string \<Rightarrow> AppConfig" where
  "exampleConfig hostname =
     (let c = Defaults hostname in c\<lparr>MQTT := (MQTT c)\<lparr>MQTT_PasswordEnv := ''CODEXBAR_MQTT_PASSWORD''\<rparr>\<rparr>)"

definition exampleText :: "string \<Rightarrow> string" where
  "exampleText hostname = indentJson lineBreak (configJson (exampleConfig hostname)) @ lineBreak"

section \<open>WriteExample\<close>

datatype stat = Exists | NotExist | StatErr string

record fileCalls =
  statOf :: "string \<Rightarrow> stat"
  mkdirAll :: "string \<Rightarrow> string option"
  writeFile :: "string \<Rightarrow> string option"

datatype exampleError = ExHome string | ExExists string | ExStat string | ExMkdir string | ExWrite string

text \<open>\<open>filepath.Dir\<close> on Unix.\<close>

definition dirOf :: "string \<Rightarrow> string" where
  "dirOf p = cleanPath (rev (dropWhile (\<lambda>c. c \<noteq> CHR ''/'') (rev p)))"

text \<open>The result, and the file it has written with its contents.\<close>

definition WriteExample ::
    "env \<Rightarrow> fileCalls \<Rightarrow> string \<Rightarrow> bool \<Rightarrow> (exampleError + string) \<times> (string \<times> string) option" where
  "WriteExample e fs path force =
     (case ExpandPath e path of
        Inl err \<Rightarrow> (Inl (ExHome err), None)
      | Inr expanded \<Rightarrow>
          (let refused =
             (if force then None
              else (case statOf fs expanded of
                Exists \<Rightarrow> Some (ExExists expanded)
              | StatErr err \<Rightarrow> Some (ExStat err)
              | NotExist \<Rightarrow> None))
           in case refused of
                Some err \<Rightarrow> (Inl err, None)
              | None \<Rightarrow>
                  (case mkdirAll fs (dirOf expanded) of
                     Some err \<Rightarrow> (Inl (ExMkdir err), None)
                   | None \<Rightarrow>
                       (case writeFile fs expanded of
                          Some err \<Rightarrow> (Inl (ExWrite err), None)
                        | None \<Rightarrow> (Inr expanded, Some (expanded, exampleText (hostName e)))))))"

section \<open>Indented text is read back\<close>

definition gap :: "string \<Rightarrow> bool" where
  "gap s \<longleftrightarrow> list_all jsonSpace s"

lemma skipSpace_gap: "gap s \<Longrightarrow> skipSpace (s @ t) = skipSpace t"
  unfolding gap_def skipSpace_def by (induction s) auto

lemma gap_deeper: "gap pre \<Longrightarrow> gap (deeper pre)"
  by (simp add: gap_def deeper_def jsonSpace_def)

lemma delimiter_gap: "gap s \<Longrightarrow> s \<noteq> [] \<Longrightarrow> delimiter (s @ t)"
  by (cases s) (auto simp: gap_def delimiter_def jsonSpace_def)

definition ireads :: "nat \<Rightarrow> string \<Rightarrow> json \<Rightarrow> bool" where
  "ireads d pre v \<longleftrightarrow>
     (\<forall>sp u n. gap sp \<longrightarrow> delimiter u \<longrightarrow> 2 * length (indentJson pre v) + 1 \<le> n \<longrightarrow>
        scanValue n d (sp @ indentJson pre v @ u) = Some (v, u))"

lemma ireadsI:
  assumes "\<And>sp u m. gap sp \<Longrightarrow> delimiter u \<Longrightarrow> 2 * length (indentJson pre v) \<le> m \<Longrightarrow>
    scanValue (Suc m) d (sp @ indentJson pre v @ u) = Some (v, u)"
  shows "ireads d pre v"
  unfolding ireads_def
proof (intro allI impI)
  fix sp u n assume "gap sp" "delimiter u" "2 * length (indentJson pre v) + 1 \<le> n"
  then show "scanValue n d (sp @ indentJson pre v @ u) = Some (v, u)"
    using assms [of sp u "n - 1"] by (cases n) auto
qed

lemma ireadsD:
  "ireads d pre v \<Longrightarrow> gap sp \<Longrightarrow> delimiter u \<Longrightarrow> 2 * length (indentJson pre v) + 1 \<le> n \<Longrightarrow>
   scanValue n d (sp @ indentJson pre v @ u) = Some (v, u)"
  by (simp add: ireads_def)

lemma skip_close: "gap q \<Longrightarrow> \<not> jsonSpace c \<Longrightarrow> skipSpace (q @ c # u) = c # u"
  by (simp add: skipSpace_gap skipSpace_id)

lemma iscan_elements:
  assumes "gap p" "gap q" "q \<noteq> []"
  shows "vs \<noteq> [] \<Longrightarrow> list_all (ireads d p) vs \<Longrightarrow>
    2 * length (Join '','' (map (\<lambda>v. p @ indentJson p v) vs)) + 2 \<le> n \<Longrightarrow>
    scanElements n d (Join '','' (map (\<lambda>v. p @ indentJson p v) vs) @ q @ CHR '']'' # u) = Some (vs, u)"
proof (induction vs arbitrary: n)
  case (Cons v vs)
  then obtain m where n: "n = Suc m" by (cases n) auto
  show ?case
  proof (cases vs)
    case Nil
    with Cons.prems n have "scanValue m d (p @ indentJson p v @ q @ CHR '']'' # u) = Some (v, q @ CHR '']'' # u)"
      by (intro ireadsD [OF _ assms(1) delimiter_gap [OF assms(2,3)]]) simp_all
    with Nil n show ?thesis by (simp add: scan_unfold(2) skip_close [OF assms(2)] jsonSpace_def)
  next
    case (Cons w ws)
    let ?rest = "Join '','' (map (\<lambda>v. p @ indentJson p v) vs) @ q @ CHR '']'' # u"
    have "scanValue m d (p @ indentJson p v @ CHR '','' # ?rest) = Some (v, CHR '','' # ?rest)"
      using Cons.prems n Cons by (intro ireadsD [OF _ assms(1)]) (simp_all add: delimiter_def)
    with Cons Cons.prems n Cons.IH [of m] show ?thesis
      by (simp add: scan_unfold(2) skipSpace_id jsonSpace_def)
  qed
qed simp

abbreviation indentMember :: "string \<Rightarrow> string \<times> json \<Rightarrow> string" where
  "indentMember p m \<equiv> (case m of (k, v) \<Rightarrow> p @ quoted k @ '': '' @ indentJson p v)"

lemma iscan_members:
  assumes "gap p" "gap q" "q \<noteq> []"
  shows "ms \<noteq> [] \<Longrightarrow> list_all (\<lambda>(k, v). wfStr k \<and> ireads d p v) ms \<Longrightarrow>
    2 * length (Join '','' (map (indentMember p) ms)) + 2 \<le> n \<Longrightarrow>
    scanMembers n d (Join '','' (map (indentMember p) ms) @ q @ CHR ''}'' # u) = Some (ms, u)"
proof (induction ms arbitrary: n)
  case (Cons m ms)
  obtain k v where m: "m = (k, v)" by (cases m)
  from Cons.prems obtain l where n: "n = Suc l" by (cases n) auto
  have sp: "gap '' ''" by (simp add: gap_def jsonSpace_def)
  have key: "skipSpace (p @ CHR 0x22 # t) = CHR 0x22 # t" for t
    by (rule skip_close [OF assms(1)]) (simp add: jsonSpace_def)
  show ?case
  proof (cases ms)
    case Nil
    with Cons.prems n m have "scanValue l d ('' '' @ indentJson p v @ q @ CHR ''}'' # u) = Some (v, q @ CHR ''}'' # u)"
      by (intro ireadsD [OF _ sp delimiter_gap [OF assms(2,3)]]) (simp_all add: quoted_def)
    with Nil Cons.prems n m show ?thesis
      by (simp add: scan_unfold(3) skip_close [OF assms(2)] jsonSpace_def quoted_def wfStr_scan key skipSpace_id)
  next
    case (Cons w ws)
    let ?rest = "Join '','' (map (indentMember p) ms) @ q @ CHR ''}'' # u"
    have "scanValue l d ('' '' @ indentJson p v @ CHR '','' # ?rest) = Some (v, CHR '','' # ?rest)"
      using Cons.prems n m Cons by (intro ireadsD [OF _ sp]) (simp_all add: delimiter_def quoted_def)
    with Cons Cons.prems n m Cons.IH [of l] show ?thesis
      by (simp add: scan_unfold(3) jsonSpace_def quoted_def wfStr_scan key skipSpace_id)
  qed
qed simp

lemma indent_head: "wfJson d j \<Longrightarrow> \<exists>c cs. indentJson pre j = c # cs \<and> \<not> jsonSpace c \<and> byteval c \<noteq> 93"
proof (cases j)
  case (JNum t)
  assume "wfJson d j"
  with JNum obtain c cs where "t = c # cs" "byteval c = 45 \<or> digit c"
    using wfNum_head by force
  with JNum show ?thesis by (auto simp: jsonSpace_def digit_def)
qed (simp_all add: jsonSpace_def quoted_def)

lemma scan_indent: "wfJson d j \<Longrightarrow> gap pre \<Longrightarrow> pre \<noteq> [] \<Longrightarrow> ireads d pre j"
proof (induction j arbitrary: d pre)
  case JNull
  show ?case
    by (rule ireadsI) (simp add: scan_unfold(1) skip_close jsonSpace_def HasPrefix_def)
next
  case (JBool b)
  show ?case
    by (rule ireadsI) (simp add: scan_unfold(1) skip_close jsonSpace_def HasPrefix_def)
next
  case (JNum t)
  then obtain c cs where t: "t = c # cs" "byteval c = 45 \<or> digit c" using wfNum_head by force
  then have c: "\<not> jsonSpace c" by (auto simp: jsonSpace_def digit_def)
  have "scanValue (Suc m) d (sp @ t @ u) = scanValue (Suc m) d (t @ u)" if "gap sp" for sp u m
    using that t c by (simp add: scan_unfold(1) skip_close skipSpace_id)
  with JNum show ?case by (intro ireadsI) (simp add: scan_num)
next
  case (JStr raw)
  then show ?case
    by (intro ireadsI) (simp add: scan_unfold(1) skip_close jsonSpace_def quoted_def wfStr_scan)
next
  case (JArr vs)
  note pre = gap_deeper [OF JArr.prems(2)]
  have ih: "list_all (ireads (d - 1) (deeper pre)) vs" and d: "0 < d"
    using JArr by (auto simp: list_all_iff deeper_def gap_def jsonSpace_def)
  show ?case
  proof (rule ireadsI)
    fix sp u m assume sp: "gap sp" and n: "2 * length (indentJson pre (JArr vs)) \<le> m"
    show "scanValue (Suc m) d (sp @ indentJson pre (JArr vs) @ u) = Some (JArr vs, u)"
    proof (cases vs)
      case Nil
      with d sp show ?thesis by (simp add: scan_unfold(1) skip_close skipSpace_id jsonSpace_def)
    next
      case (Cons w ws)
      let ?s = "Join '','' (map (\<lambda>v. deeper pre @ indentJson (deeper pre) v) vs)"
      from Cons JArr.prems have "wfJson (d - 1) w" by simp
      then obtain c cs where c: "indentJson (deeper pre) w = c # cs" "\<not> jsonSpace c" "byteval c \<noteq> 93"
        using indent_head by blast
      then have "\<exists>cs'. ?s = deeper pre @ c # cs'"
        using Cons by (cases ws) auto
      then obtain cs' where s: "?s = deeper pre @ c # cs'" ..
      have "scanElements m (d - 1) (?s @ pre @ CHR '']'' # u) = Some (vs, u)"
        using Cons ih n by (intro iscan_elements pre JArr.prems) (simp_all del: Join.simps)
      moreover have "skipSpace (?s @ pre @ CHR '']'' # u) = c # cs' @ pre @ CHR '']'' # u"
        unfolding s using c(2) by (simp add: skip_close pre)
      ultimately show ?thesis
        using c d sp Cons by (simp add: scan_unfold(1) skip_close jsonSpace_def del: Join.simps)
    qed
  qed
next
  case (JObj ms)
  note pre = gap_deeper [OF JObj.prems(2)]
  have ih: "list_all (\<lambda>(k, v). wfStr k \<and> ireads (d - 1) (deeper pre) v) ms" and d: "0 < d"
    using JObj by (fastforce simp: list_all_iff deeper_def gap_def jsonSpace_def)+
  show ?case
  proof (rule ireadsI)
    fix sp u m assume sp: "gap sp" and n: "2 * length (indentJson pre (JObj ms)) \<le> m"
    show "scanValue (Suc m) d (sp @ indentJson pre (JObj ms) @ u) = Some (JObj ms, u)"
    proof (cases ms)
      case Nil
      with d sp show ?thesis by (simp add: scan_unfold(1) skip_close skipSpace_id jsonSpace_def)
    next
      case (Cons w ws)
      let ?s = "Join '','' (map (indentMember (deeper pre)) ms)"
      have "\<exists>cs'. ?s = deeper pre @ CHR 0x22 # cs'"
        using Cons by (cases ws; cases w) (auto simp: quoted_def)
      then obtain cs' where s: "?s = deeper pre @ CHR 0x22 # cs'" ..
      have "scanMembers m (d - 1) (?s @ pre @ CHR ''}'' # u) = Some (ms, u)"
        using Cons ih n by (intro iscan_members pre JObj.prems) (simp_all del: Join.simps)
      moreover have "skipSpace (?s @ pre @ CHR ''}'' # u) = CHR 0x22 # cs' @ pre @ CHR ''}'' # u"
        unfolding s by (simp add: skip_close pre jsonSpace_def)
      ultimately show ?thesis
        using d sp Cons by (simp add: scan_unfold(1) skip_close jsonSpace_def del: Join.simps)
    qed
  qed
qed

section \<open>The decoder takes the text over the defaults\<close>

definition fieldName :: "string \<Rightarrow> bool" where
  "fieldName s \<longleftrightarrow> list_all (\<lambda>c. plain c \<and> asciiChar c \<and> \<not> (65 \<le> byteval c \<and> byteval c \<le> 90)) s"

lemma fieldNames [simp]:
  "fieldName ''machine''" "fieldName ''codexbar''" "fieldName ''mqtt''" "fieldName ''poll''" "fieldName ''spool''"
  "fieldName ''publish''" "fieldName ''id''" "fieldName ''name''" "fieldName ''tags''" "fieldName ''base_url''"
  "fieldName ''binary''" "fieldName ''manage_serve''" "fieldName ''serve_port''"
  "fieldName ''serve_refresh_interval_seconds''" "fieldName ''serve_request_timeout_seconds''"
  "fieldName ''http_timeout_seconds''" "fieldName ''cli_timeout_seconds''" "fieldName ''usage_provider''"
  "fieldName ''cost_provider''" "fieldName ''broker''" "fieldName ''client_id''" "fieldName ''username''"
  "fieldName ''password''" "fieldName ''password_env''" "fieldName ''password_file''" "fieldName ''topic_prefix''"
  "fieldName ''qos''" "fieldName ''keep_alive_seconds''" "fieldName ''connect_timeout_seconds''"
  "fieldName ''publish_timeout_seconds''" "fieldName ''reconnect_min_seconds''" "fieldName ''reconnect_max_seconds''"
  "fieldName ''tls''" "fieldName ''ca_file''" "fieldName ''cert_file''" "fieldName ''key_file''"
  "fieldName ''server_name''" "fieldName ''insecure_skip_verify''" "fieldName ''heartbeat_seconds''"
  "fieldName ''health_seconds''" "fieldName ''usage_seconds''" "fieldName ''cost_seconds''"
  "fieldName ''all_providers_seconds''" "fieldName ''status_seconds''" "fieldName ''status_provider''"
  "fieldName ''active_account_probe_seconds''" "fieldName ''active_account_probe_providers''"
  "fieldName ''account_catalogue_seconds''" "fieldName ''account_catalogue_providers''"
  "fieldName ''cost_horizon_seconds''" "fieldName ''cost_horizons_days''" "fieldName ''config_validate_seconds''"
  "fieldName ''directory''" "fieldName ''max_messages''" "fieldName ''max_bytes''" "fieldName ''retain_snapshots''"
  "fieldName ''publish_events''" "fieldName ''include_stderr''"
  by (simp_all add: fieldName_def plain_def asciiChar_def)

lemma wfStr_field: "fieldName s \<Longrightarrow> wfStr s"
  by (rule wfStr_literal) (auto simp: fieldName_def list_all_iff)

lemma decode_member:
  "fieldName k \<Longrightarrow> decodeMember ((n, f) # fds) (k, v) r = (if k = n then f r v else decodeMember fds (k, v) r)"
  by (simp add: decodeMember_def fieldName_def names_field)

lemma parseInt_intString: "- (2 ^ 63) \<le> i \<Longrightarrow> i < 2 ^ 63 \<Longrightarrow> parseInt (intString i) = Some i"
proof (cases "i < 0")
  case True
  moreover assume "- (2 ^ 63) \<le> i" "i < 2 ^ 63"
  ultimately have "nat (- i) \<le> 2 ^ 63" "nat (- i) < 2 ^ 64" "int (nat (- i)) = - i" by simp_all
  with True show ?thesis by (simp add: parseInt_def intString_def parseUint_natString)
next
  case False
  moreover assume "- (2 ^ 63) \<le> i" "i < 2 ^ 63"
  ultimately have n: "nat i < 2 ^ 63" "nat i < 2 ^ 64" "int (nat i) = i" by simp_all
  obtain c cs where s: "natString (nat i) = c # cs" "digit c"
    using natString_digits [of "nat i"] by (cases "natString (nat i)") auto
  then have "c \<noteq> CHR ''-''" by (auto simp: digit_def)
  moreover have "parseUint (c # cs) = Some (nat i)" using parseUint_natString [OF n(2)] s by simp
  ultimately show ?thesis
    using False n(1) s by (simp add: parseInt_def intString_def)
qed

lemma decode_int: "- (2 ^ 63) \<le> i \<Longrightarrow> i < 2 ^ 63 \<Longrightarrow> decodeInt (jint i) old = Some i"
  by (simp add: decodeInt_def jint_def parseInt_intString)

lemma those_map: "(\<And>i. i \<in> set is \<Longrightarrow> f i = Some (g i)) \<Longrightarrow> those (map f is) = Some (map g is)"
  by (induction "is") auto

lemma decode_list:
  assumes "\<And>i old. i < length xs \<Longrightarrow> dec (enc (xs ! i)) old = Some (xs ! i)"
  shows "decodeList dec zero (JArr (map enc xs)) olds = Some xs"
proof -
  have "those (map (\<lambda>i. dec (map enc xs ! i) (if i < length olds then olds ! i else zero)) [0..<length xs]) =
      Some (map ((!) xs) [0..<length xs])"
    using assms by (intro those_map) simp
  then show ?thesis by (simp add: decodeList_def map_nth)
qed

lemma decode_texts: "list_all validText ss \<Longrightarrow> decodeList decodeString zero (JArr (map jtext ss)) olds = Some ss"
  by (rule decode_list) (simp add: list_all_length decode_fields(1))

lemma decode_ints:
  "list_all (\<lambda>i. - (2 ^ 63) \<le> i \<and> i < 2 ^ 63) is \<Longrightarrow> decodeList decodeInt zero (JArr (map jint is)) olds = Some is"
  by (rule decode_list) (simp add: list_all_length decode_int)

lemmas decode_parts =
  decodeStruct_def decode_member decode_fields(1) decode_fields(3) decode_int decode_texts decode_ints
  omitText_def omitMap_def omitTexts_def omitInts_def omitFalse_def

lemma ascii_texts:
  "validText ''http://127.0.0.1:8080''" "validText ''both''" "validText ''mqtt://homeassistant:1883''"
  "validText ''codexbar/v1''" "validText ''all''" "validText ''codex''" "validText ''claude''"
  "validText ''~/Library/Application Support/codexbar-mqtt/spool''" "validText ''CODEXBAR_MQTT_PASSWORD''"
  by (simp_all add: validText_ascii asciiChar_def)

lemma decode_lists:
  "decodeList decodeString '''' (JArr [jtext ''codex'', jtext ''claude'']) olds = Some [''codex'', ''claude'']"
  "decodeList decodeInt 0 (JArr [jint 1, jint 7, jint 30, jint 90]) oldis = Some [1, 7, 30, 90]"
  using decode_texts [of "[''codex'', ''claude'']" "''''" olds] decode_ints [of "[1, 7, 30, 90]" 0 oldis]
  by (simp_all add: ascii_texts)

lemma validText_machineID: "validText (sanitizeMachineID host)"
proof (rule validText_ascii)
  have "list_all asciiChar s" if "machineIDPattern s" for s
    using that by (auto simp: machineIDPattern_def alnumRune_def idRune_def asciiChar_def list_all_iff split: list.splits)
  then show "list_all asciiChar (sanitizeMachineID host)" using sanitizeMachineID_matches by blast
qed

lemma decode_example:
  assumes "validText hostname"
  shows "decodeStruct configFields (configJson (exampleConfig hostname)) (Defaults hostname) = Some (exampleConfig hostname)"
proof -
  let ?d = "Defaults hostname" and ?e = "exampleConfig hostname"
  have "validText (if hostname = '''' then ''mac'' else hostname)"
    using assms by (simp add: validText_ascii asciiChar_def)
  then have m: "decodeStruct machineFields (machineConfigJson (AppConfig.Machine ?e)) (AppConfig.Machine ?d) = Some (AppConfig.Machine ?e)"
    by (simp add: machineConfigJson_def machineFields_def exampleConfig_def Defaults_def Let_def decode_parts validText_machineID)
  have c: "decodeStruct codexBarFields (codexBarJson (CodexBar ?e)) (CodexBar ?d) = Some (CodexBar ?e)"
    by (simp add: codexBarJson_def codexBarFields_def exampleConfig_def Defaults_def Let_def decode_parts ascii_texts)
  have q: "decodeStruct mqttFields (mqttJson (MQTT ?e)) (MQTT ?d) = Some (MQTT ?e)"
    using decode_fields(2) [of "1 :: byte"]
    by (simp add: mqttJson_def mqttFields_def tlsJson_def tlsFields_def exampleConfig_def Defaults_def Let_def decode_parts ascii_texts)
  have p: "decodeStruct pollFields (pollJson (Poll ?e)) (Poll ?d) = Some (Poll ?e)"
    by (simp add: pollJson_def pollFields_def exampleConfig_def Defaults_def Let_def decode_parts ascii_texts decode_lists)
  have s: "decodeStruct spoolFields (spoolConfigJson (AppConfig.Spool ?e)) (AppConfig.Spool ?d) = Some (AppConfig.Spool ?e)"
    by (simp add: spoolConfigJson_def spoolFields_def exampleConfig_def Defaults_def Let_def decode_parts ascii_texts)
  have b: "decodeStruct publishFields (publishJson (Publish ?e)) (Publish ?d) = Some (Publish ?e)"
    by (simp add: publishJson_def publishFields_def exampleConfig_def Defaults_def Let_def decode_parts)
  show ?thesis
    unfolding configJson_def configFields_def
    by (simp add: decodeStruct_def [of "_ :: AppConfig field list"] decode_member m c q p s b)
qed

lemma wf_omit:
  "wfStr k \<Longrightarrow> list_all (\<lambda>(k, v). wfStr k \<and> wfJson d v) (omitFalse k b)"
  "wfStr k \<Longrightarrow> 0 < d \<Longrightarrow> list_all (\<lambda>(k, v). wfStr k \<and> wfJson d v) (omitInts k js)"
  by (simp_all add: omitFalse_def omitInts_def jint_def wfNum_intString list_all_iff)

lemma wf_configJson: "wfJson (Suc (Suc (Suc d))) (configJson c)"
  by (simp add: configJson_def machineConfigJson_def codexBarJson_def mqttJson_def tlsJson_def pollJson_def
      spoolConfigJson_def publishJson_def jint_def wfMembers_omit wf_omit wfStr_field wfStr_quoteText
      wfNum_intString wfNum_natString)

lemma gap_lineBreak: "gap lineBreak" "lineBreak \<noteq> []"
  by (simp_all add: gap_def lineBreak_def jsonSpace_def)

lemma decode_exampleText:
  assumes "validText hostname"
  shows "decodeConfig (exampleText hostname) (Defaults hostname) = Some (exampleConfig hostname)"
proof -
  let ?j = "configJson (exampleConfig hostname)"
  have depth: "maxNestingDepth = Suc (Suc (Suc 9997))" by (simp add: maxNestingDepth_def)
  have "ireads maxNestingDepth lineBreak ?j"
    unfolding depth by (rule scan_indent [OF wf_configJson gap_lineBreak])
  moreover have "gap []" "delimiter lineBreak"
    using delimiter_gap [OF gap_lineBreak, of "[]"] by (simp_all add: gap_def)
  ultimately have "scanValue (2 * length (exampleText hostname) + 2) maxNestingDepth ([] @ indentJson lineBreak ?j @ lineBreak) =
      Some (?j, lineBreak)"
    by (intro ireadsD) (simp_all add: exampleText_def)
  then show ?thesis using decode_example [OF assms] by (simp add: decodeConfig_def exampleText_def)
qed

section \<open>Nothing in the text is an environment variable\<close>

text \<open>No dollar sign.\<close>

definition plainText :: "string \<Rightarrow> bool" where
  "plainText s \<longleftrightarrow> CHR ''$'' \<notin> set s"

lemma plainText_simps [simp]:
  "plainText []" "plainText (c # s) \<longleftrightarrow> c \<noteq> CHR ''$'' \<and> plainText s" "plainText (s @ t) \<longleftrightarrow> plainText s \<and> plainText t"
  by (auto simp: plainText_def)

lemma ExpandEnv_plain: "plainText s \<Longrightarrow> ExpandEnv e s = s"
  by (induction s) (simp_all add: ExpandEnv.simps(2))

lemma plainText_quoteASCII: "c \<noteq> CHR ''$'' \<Longrightarrow> plainText (quoteASCII (byteval c))"
proof -
  have "hexDigit n \<noteq> CHR ''$''" if "n < 16" for n
    using hexDigit_hexChar [OF that] by (auto simp: hexChar_def digit_def)
  then have "plainText (hexPair (byteval c))"
    using byteval_nibbles [of c] by (simp add: hexPair_def)
  moreover assume "c \<noteq> CHR ''$''"
  ultimately show ?thesis by (simp add: quoteASCII_def)
qed

lemma plainText_quoteText: "plainText s \<Longrightarrow> plainText (quoteText s)"
proof (induction s rule: chunk_induct)
  case (ascii c t)
  then show ?case by (simp add: quoteText_ascii plainText_quoteASCII)
next
  case (multi p r t)
  then show ?case by (simp add: quoteText_multi)
next
  case (invalid c t)
  then show ?case by (simp add: quoteText_invalid)
qed simp

fun dollarless :: "json \<Rightarrow> bool" where
  "dollarless JNull = True"
| "dollarless (JBool b) = True"
| "dollarless (JNum t) = plainText t"
| "dollarless (JStr raw) = plainText raw"
| "dollarless (JArr vs) = list_all dollarless vs"
| "dollarless (JObj ms) = list_all (\<lambda>(k, v). plainText k \<and> dollarless v) ms"

lemma plainText_Join: "plainText sep \<Longrightarrow> list_all plainText ss \<Longrightarrow> plainText (Join sep ss)"
  by (induction sep ss rule: Join.induct) simp_all

lemma plainText_indent: "dollarless j \<Longrightarrow> plainText pre \<Longrightarrow> plainText (indentJson pre j)"
proof (induction j arbitrary: pre)
  case (JArr vs)
  then have "list_all plainText (map (\<lambda>v. deeper pre @ indentJson (deeper pre) v) vs)"
    by (auto simp: list_all_iff deeper_def)
  with JArr.prems show ?case by (auto intro: plainText_Join simp: list_all_iff)
next
  case (JObj ms)
  then have "list_all plainText (map (indentMember (deeper pre)) ms)"
    by (fastforce simp: list_all_iff deeper_def quoted_def)
  with JObj.prems show ?case by (auto intro: plainText_Join simp: list_all_iff)
qed (simp_all add: quoted_def)

lemma plainText_digits: "plainText (natString n)" "plainText (intString i)"
proof -
  show n: "plainText (natString n)" for n
    using natString_digits [of n] by (auto simp: plainText_def list_all_iff digit_def)
  show "plainText (intString i)" using n by (simp add: intString_def)
qed

lemma dollarless_parts:
  "plainText s \<Longrightarrow> dollarless (jtext s)" "dollarless (jint i)"
  "plainText k \<Longrightarrow> plainText s \<Longrightarrow> list_all (\<lambda>(k, v). plainText k \<and> dollarless v) (omitText k s)"
  "plainText k \<Longrightarrow> list_all plainText ss \<Longrightarrow> list_all (\<lambda>(k, v). plainText k \<and> dollarless v) (omitTexts k ss)"
  "plainText k \<Longrightarrow> list_all (\<lambda>(k, v). plainText k \<and> dollarless v) (omitInts k js)"
  "plainText k \<Longrightarrow> list_all (\<lambda>(k, v). plainText k \<and> dollarless v) (omitFalse k b)"
  by (auto simp: plainText_quoteText jint_def plainText_digits omitText_def omitTexts_def omitInts_def omitFalse_def list_all_iff)

lemma plainText_machineID: "plainText (sanitizeMachineID host)"
proof -
  have "plainText s" if "machineIDPattern s" for s
    using that by (auto simp: machineIDPattern_def plainText_def alnumRune_def idRune_def list_all_iff split: list.splits)
  then show ?thesis using sanitizeMachineID_matches by blast
qed

lemma plain_exampleText:
  assumes "plainText hostname" shows "plainText (exampleText hostname)"
proof -
  have "dollarless (configJson (exampleConfig hostname))"
    using assms
    by (simp add: configJson_def machineConfigJson_def codexBarJson_def mqttJson_def tlsJson_def pollJson_def
        spoolConfigJson_def publishJson_def exampleConfig_def Defaults_def Let_def dollarless_parts plainText_machineID
        plainText_digits omitMap_def plainText_quoteText)
  moreover have "plainText lineBreak" by (simp add: lineBreak_def)
  ultimately show ?thesis by (simp add: exampleText_def plainText_indent)
qed

section \<open>What \<open>init\<close> writes, \<open>Load\<close> reads\<close>

lemma cleanPath_nonempty: "cleanPath p \<noteq> []"
  by (simp add: cleanPath_def Let_def)

text \<open>The configuration that \<open>Load\<close> makes of the example.\<close>

definition loadedExample :: "env \<Rightarrow> string \<Rightarrow> AppConfig" where
  "loadedExample e home =
     (let c = exampleConfig (hostName e);
          dir = joinPath home ''Library/Application Support/codexbar-mqtt/spool'';
          c = normalise (c\<lparr>AppConfig.Spool := (AppConfig.Spool c)\<lparr>Spool_Directory := dir\<rparr>\<rparr>)
      in case getenv e ''CODEXBAR_MQTT_PASSWORD'' of None \<Rightarrow> c | Some p \<Rightarrow> setPassword p c)"

lemma trimmed_prefix: "Trim ''/ '' ''codexbar/v1'' = ''codexbar/v1''"
  by (simp add: Trim_no)

lemma acceptable_setPassword: "acceptable (setPassword p c) = acceptable c"
  by (simp add: acceptable_def setPassword_def)

lemma acceptable_example: "acceptable (loadedExample e home)"
proof -
  let ?c = "exampleConfig (hostName e)"
  let ?dir = "joinPath home ''Library/Application Support/codexbar-mqtt/spool''"
  have "?dir \<noteq> ''''" by (simp add: joinPath_def cleanPath_nonempty)
  then have "acceptable (normalise (?c\<lparr>AppConfig.Spool := (AppConfig.Spool ?c)\<lparr>Spool_Directory := ?dir\<rparr>\<rparr>))"
    using acceptable_defaults [of "hostName e"]
    by (simp add: acceptable_def normalise_def exampleConfig_def Let_def sanitizeMachineID_matches)
      (simp add: Defaults_def Let_def trimmed_prefix ContainsAny_def)
  then show ?thesis
    by (simp only: loadedExample_def Let_def acceptable_setPassword split: option.split) simp
qed

lemma load_example:
  assumes "ExpandPath e path = Inr p" "readFile e p = Inr (exampleText (hostName e))"
    and "validText (hostName e)" "plainText (hostName e)" "homeDir e = Inr home" "\<not> windows e"
  shows "Load e path = Inr (loadedExample e home)"
proof -
  let ?c = "exampleConfig (hostName e)"
  let ?dir = "joinPath home ''Library/Application Support/codexbar-mqtt/spool''"
  have dir: "ExpandPath e (Spool_Directory (AppConfig.Spool ?c)) = Inr ?dir"
    using assms(5,6) ExpandEnv_plain [of "''~/Library/Application Support/codexbar-mqtt/spool''" e]
    by (simp add: ExpandPath_def exampleConfig_def Defaults_def Let_def HasPrefix_def TrimPrefix_def del: ExpandEnv.simps)
  let ?d = "?c\<lparr>AppConfig.Spool := (AppConfig.Spool ?c)\<lparr>Spool_Directory := ?dir\<rparr>\<rparr>"
  have fields: "expandFields e ?d = Inr ?d"
    by (simp add: expandFields_def expandField_def exampleConfig_def Defaults_def Let_def)
  have env: "MQTT_PasswordFile (MQTT (normalise ?d)) = ''''"
    "MQTT_PasswordEnv (MQTT (normalise ?d)) = ''CODEXBAR_MQTT_PASSWORD''"
    by (simp_all add: normalise_def exampleConfig_def Defaults_def Let_def)
  have pw: "loadPassword e (normalise ?d) = Inr (loadedExample e home)"
    by (simp add: loadPassword_def env) (simp add: loadedExample_def Let_def split: option.split)
  have dec: "decodeConfig (ExpandEnv e (exampleText (hostName e))) (Defaults (hostName e)) = Some ?c"
    by (simp only: ExpandEnv_plain plain_exampleText assms(3,4) decode_exampleText)
  have ok: "Validate (loadedExample e home) = Returns None"
    by (simp only: validate_accepts acceptable_example)
  show ?thesis
    unfolding Load_def assms(1,2) sum.case dec option.case dir fields pw ok validation.case ..
qed

lemma ExpandEnv_cong: "getenv e' = getenv e \<Longrightarrow> ExpandEnv e' s = ExpandEnv e s"
proof (induction s rule: length_induct)
  case (1 s)
  then show ?case
  proof (cases s)
    case (Cons c cs)
    with 1 have "ExpandEnv e' cs = ExpandEnv e cs" "ExpandEnv e' (drop w cs) = ExpandEnv e (drop w cs)" for w
      by simp_all
    with 1(2) Cons show ?thesis by (simp add: ExpandEnv.simps(2) split: prod.split)
  qed simp
qed

lemma ExpandPath_readFile: "ExpandPath (e\<lparr>readFile := f\<rparr>) path = ExpandPath e path"
  using ExpandEnv_cong [of "e\<lparr>readFile := f\<rparr>" e] by (simp add: ExpandPath_def Let_def split: sum.split)

text \<open>
  C37: What \<open>init\<close> writes, the agent can run with. When \<open>WriteExample\<close> has written a file, it was
  asked to overwrite or there was none, and \<open>Load\<close> of the same path then succeeds: it decodes the
  indented text to the very defaults it was made from, with the password taken from the
  environment variable that the example names and the spool below the home directory.
\<close>
theorem init_then_load:
  assumes "WriteExample e fs path force = (res, Some (p, data))"
    and "validText (hostName e)" "CHR ''$'' \<notin> set (hostName e)" "homeDir e = Inr home" "\<not> windows e"
  shows "res = Inr p \<and> (force \<or> statOf fs p = NotExist) \<and>
    Load (e\<lparr>readFile := (readFile e)(p := Inr data)\<rparr>) path = Inr (loadedExample e home)"
proof -
  from assms(1) have w: "ExpandPath e path = Inr p" "res = Inr p" "data = exampleText (hostName e)"
    "force \<or> statOf fs p = NotExist"
    by (auto simp: WriteExample_def Let_def split: sum.splits option.splits if_splits stat.splits)
  let ?e = "e\<lparr>readFile := (readFile e)(p := Inr data)\<rparr>"
  have "Load ?e path = Inr (loadedExample ?e home)"
    using assms w by (intro load_example [where p = p]) (simp_all add: ExpandPath_readFile plainText_def)
  moreover have "loadedExample ?e home = loadedExample e home" by (simp add: loadedExample_def)
  ultimately show ?thesis using w by simp
qed

theorem init_then_load_witness:
  "\<exists>data. Load (bareEnv\<lparr>readFile := (readFile bareEnv)(''config.json'' := Inr data)\<rparr>) ''config.json'' =
       Inr (loadedExample bareEnv ''/home/a'') \<and>
     WriteExample bareEnv \<lparr>statOf = (\<lambda>_. NotExist), mkdirAll = (\<lambda>_. None), writeFile = (\<lambda>_. None)\<rparr> ''config.json'' False =
       (Inr ''config.json'', Some (''config.json'', data))"
proof -
  let ?fs = "\<lparr>statOf = (\<lambda>_. NotExist), mkdirAll = (\<lambda>_. None), writeFile = (\<lambda>_. None)\<rparr> :: fileCalls"
  have "ExpandPath bareEnv ''config.json'' = Inr ''config.json''"
    by (simp add: ExpandPath_def bareEnv_def ExpandEnv.simps string_eval)
  then have w: "WriteExample bareEnv ?fs ''config.json'' False =
      (Inr ''config.json'', Some (''config.json'', exampleText (hostName bareEnv)))"
    by (simp add: WriteExample_def)
  have "validText (hostName bareEnv)" "CHR ''$'' \<notin> set (hostName bareEnv)" "homeDir bareEnv = Inr ''/home/a''"
    "\<not> windows bareEnv"
    by (simp_all add: bareEnv_def validText_ascii asciiChar_def)
  from init_then_load [OF w this] w show ?thesis by blast
qed

end
