(* ===== verification/CommandLine.thy ===== *)
theory CommandLine
  imports Agent Example
begin

text \<open>
  \<open>cmd/codexbar-mqtt/main.go\<close>: the flags, the commands and the exit status of the program. The
  lines \<open>flag\<close> and \<open>printUsage\<close> write to standard error are not modelled.
\<close>

section \<open>Flags\<close>

text \<open>\<open>FlagSet.Parse\<close> of the standard library, for string and boolean flags.\<close>

datatype flagKind = StringFlag | BoolFlag

datatype flagError =
    BadSyntax string
  | NotDefined string
  | HelpRequested
  | InvalidBool string string
  | NeedsArgument string

definition ParseBool :: "string \<Rightarrow> bool option" where
  "ParseBool s =
     (if s \<in> {''1'', ''t'', ''T'', ''true'', ''TRUE'', ''True''} then Some True
      else if s \<in> {''0'', ''f'', ''F'', ''false'', ''FALSE'', ''False''} then Some False
      else None)"

text \<open>The name of a flag without its dashes, and its value if it has an equals sign.\<close>

definition flagParts :: "string \<Rightarrow> string \<times> string option" where
  "flagParts body =
     (let key = takeWhile (\<lambda>c. c \<noteq> CHR ''='') (tl body)
      in (hd body # key, if length key < length (tl body) then Some (drop (length key + 1) (tl body)) else None))"

type_synonym flagValues = "(string \<times> string) list"

fun parseFlags :: "(string \<times> flagKind) list \<Rightarrow> flagValues \<Rightarrow> string list \<Rightarrow> flagError + flagValues \<times> string list" where
  "parseFlags fs vals [] = Inr (vals, [])"
| "parseFlags fs vals (s # args) =
     (if length s < 2 \<or> hd s \<noteq> CHR ''-'' then Inr (vals, s # args)
      else if s = ''--'' then Inr (vals, args)
      else
        (let body = (if s ! 1 = CHR ''-'' then drop 2 s else drop 1 s)
         in if hd body = CHR ''-'' \<or> hd body = CHR ''='' then Inl (BadSyntax s)
            else (case flagParts body of
              (name, value) \<Rightarrow>
                (case map_of fs name of
                   None \<Rightarrow> Inl (if name = ''help'' \<or> name = ''h'' then HelpRequested else NotDefined name)
                 | Some BoolFlag \<Rightarrow>
                     (case value of
                        None \<Rightarrow> parseFlags fs ((name, ''true'') # vals) args
                      | Some v \<Rightarrow>
                          (case ParseBool v of
                             None \<Rightarrow> Inl (InvalidBool v name)
                           | Some b \<Rightarrow> parseFlags fs ((name, if b then ''true'' else ''false'') # vals) args))
                 | Some StringFlag \<Rightarrow>
                     (case value of
                        Some v \<Rightarrow> parseFlags fs ((name, v) # vals) args
                      | None \<Rightarrow>
                          (case args of
                             [] \<Rightarrow> Inl (NeedsArgument name)
                           | v # rest \<Rightarrow> parseFlags fs ((name, v) # vals) rest))))))"

definition flagValue :: "flagValues \<Rightarrow> string \<Rightarrow> string \<Rightarrow> string" where
  "flagValue vals name fallback = (case map_of vals name of None \<Rightarrow> fallback | Some v \<Rightarrow> v)"

definition DefaultConfigPath :: string where
  "DefaultConfigPath = ''~/Library/Application Support/codexbar-mqtt/config.json''"

section \<open>The logger\<close>

datatype level = LevelDebug | LevelInfo | LevelWarn | LevelError
datatype logger_error = InvalidLevel string | InvalidFormat string

text \<open>The level, and whether the lines are JSON.\<close>

definition newLogger :: "string \<Rightarrow> string \<Rightarrow> logger_error + level \<times> bool" where
  "newLogger level format =
     (let name = ToLower level;
          parsed =
            (if name = ''debug'' then Some LevelDebug
             else if name = ''info'' then Some LevelInfo
             else if name = ''warn'' \<or> name = ''warning'' then Some LevelWarn
             else if name = ''error'' then Some LevelError
             else None)
      in case parsed of
           None \<Rightarrow> Inl (InvalidLevel level)
         | Some l \<Rightarrow>
             if format = ''json'' then Inr (l, True)
             else if format \<noteq> ''text'' then Inl (InvalidFormat format)
             else Inr (l, False))"

section \<open>The commands\<close>

datatype mainError =
    ErrHelp
  | UnknownCommand string
  | FlagErr flagError
  | LoggerErr logger_error
  | InitErr exampleError
  | LoadErr configError
  | NewErr new_error
  | FailedOnce once_error
  | FailedDoctor

text \<open>What the program finds outside.\<close>

record world =
  wEnv :: env
  wFiles :: fileCalls
  wHost :: host
  wVersionRun :: "duration \<Rightarrow> string list \<Rightarrow> string + string"
  wSpoolDir :: "string \<Rightarrow> (string \<times> entry) list"
  wNow :: instant
  wNanos :: int
  wOnce :: onceWorld
  wDoctor :: doctorWorld

text \<open>
  How a command ends: with an error or none and what it wrote to standard output, or as a running
  agent, or not at all.
\<close>

datatype ending = Exits "mainError option" string | Serves agent | NeverEnds

definition exitStatus :: "ending \<Rightarrow> nat option" where
  "exitStatus e =
     (case e of Exits None _ \<Rightarrow> Some 0 | Exits (Some _) _ \<Rightarrow> Some 1 | Serves _ \<Rightarrow> None | NeverEnds \<Rightarrow> None)"

definition lineOf :: "string \<Rightarrow> string" where
  "lineOf s = s @ lineBreak"

definition runInit :: "world \<Rightarrow> string list \<Rightarrow> ending \<times> (string \<times> string) option" where
  "runInit w args =
     (case parseFlags [(''config'', StringFlag), (''force'', BoolFlag)] [] args of
        Inl e \<Rightarrow> (Exits (Some (FlagErr e)) '''', None)
      | Inr (vals, _) \<Rightarrow>
          (case WriteExample (wEnv w) (wFiles w) (flagValue vals ''config'' DefaultConfigPath)
                  (flagValue vals ''force'' ''false'' = ''true'') of
             (Inl e, file) \<Rightarrow> (Exits (Some (InitErr e)) '''', file)
           | (Inr path, file) \<Rightarrow> (Exits None (lineOf path), file)))"

text \<open>What \<open>runAgent\<close> and \<open>runDoctor\<close> have in common: the logger, the configuration, \<open>New\<close>.\<close>

definition prepare :: "world \<Rightarrow> string \<Rightarrow> string \<Rightarrow> string \<Rightarrow> mainError + App" where
  "prepare w path level format =
     (case newLogger level format of
        Inl e \<Rightarrow> Inl (LoggerErr e)
      | Inr logger \<Rightarrow>
          (case Load (wEnv w) path of
             Inl e \<Rightarrow> Inl (LoadErr e)
           | Inr c \<Rightarrow>
               (case newApp (wHost w) (wVersionRun w) (mkdirAll (wFiles w) (Spool_Directory (AppConfig.Spool c)) \<noteq> None)
                       (wSpoolDir w (Spool_Directory (AppConfig.Spool c))) (hostName (wEnv w)) (wNow w) c of
                  Inl e \<Rightarrow> Inl (NewErr e)
                | Inr a \<Rightarrow> Inr a)))"

definition runAgent :: "world \<Rightarrow> string list \<Rightarrow> bool \<Rightarrow> ending" where
  "runAgent w args once =
     (case parseFlags [(''config'', StringFlag), (''log-level'', StringFlag), (''log-format'', StringFlag)] [] args of
        Inl e \<Rightarrow> Exits (Some (FlagErr e)) ''''
      | Inr (vals, _) \<Rightarrow>
          (case prepare w (flagValue vals ''config'' DefaultConfigPath) (flagValue vals ''log-level'' ''info'')
                  (flagValue vals ''log-format'' ''text'') of
             Inl e \<Rightarrow> Exits (Some e) ''''
           | Inr a \<Rightarrow>
               if once then
                 (case RunOnce (wOnce w) a of
                    None \<Rightarrow> NeverEnds
                  | Some (err, _, _) \<Rightarrow> Exits (map_option FailedOnce err) '''')
               else Serves (startAgent (wNanos w) a)))"

definition checkJson :: "DoctorCheck \<Rightarrow> json" where
  "checkJson c =
     JObj ([(''ok'', JBool (checkOK c))] @ omitText ''detail'' (checkDetail c) @ omitText ''error'' (checkError c))"

definition reportJson :: "DoctorReport \<Rightarrow> json" where
  "reportJson r =
     JObj [(''ok'', JBool (reportOK r)), (''machine_id'', jtext (reportMachineID r)),
           (''checks'', JObj (map (\<lambda>(k, c). (quoteText k, checkJson c)) (sort_key fst (reportChecks r))))]"

definition runDoctor :: "world \<Rightarrow> string list \<Rightarrow> ending" where
  "runDoctor w args =
     (case parseFlags [(''config'', StringFlag), (''log-level'', StringFlag)] [] args of
        Inl e \<Rightarrow> Exits (Some (FlagErr e)) ''''
      | Inr (vals, _) \<Rightarrow>
          (case prepare w (flagValue vals ''config'' DefaultConfigPath) (flagValue vals ''log-level'' ''warn'') ''text'' of
             Inl e \<Rightarrow> Exits (Some e) ''''
           | Inr a \<Rightarrow>
               (let report = Doctor (wDoctor w) a
                in Exits (if reportOK report then None else Some FailedDoctor)
                     (lineOf (indentJson lineBreak (reportJson report))))))"

definition schemaKinds :: "string list" where
  "schemaKinds =
     [''serve/health'', ''serve/usage'', ''serve/cost'', ''cli/usage-status'', ''cli/active-account-probe'',
      ''cli/account-catalogue'', ''cli/cost-horizon'', ''cli/config-validation'', ''agent/error'']"

definition schemaJson :: json where
  "schemaJson =
     JObj [(''contract_major'', JNum (intString 1)),
           (''discovery_schema'', jtext ''io.github.mplummeridge.codexbar_mqtt.discovery.v1''),
           (''kinds'', JArr (map jtext schemaKinds)),
           (''observation_schema'', jtext Schema),
           (''topic_layout'', JObj
             [(''availability'', jtext ''<prefix>/nodes/<machine-id>/availability''),
              (''discovery'', jtext ''codexbar/discovery/v1/<fleet-id>/<machine-id>''),
              (''events'', jtext ''<prefix>/events/<machine-id>/<kind>''),
              (''heartbeat'', jtext ''<prefix>/nodes/<machine-id>/heartbeat''),
              (''meta'', jtext ''<prefix>/nodes/<machine-id>/meta''),
              (''snapshots'', jtext ''<prefix>/nodes/<machine-id>/snapshots/<kind>/<scope>'')])]"

definition versionLine :: string where
  "versionLine = lineOf (''codexbar-mqtt '' @ appVersionText @ '' ('' @ appCommit @ '', '' @ appDate @ '')'')"

text \<open>\<open>run\<close>, on the arguments after the program's name; and the file that \<open>init\<close> writes.\<close>

definition runMain :: "world \<Rightarrow> string list \<Rightarrow> ending \<times> (string \<times> string) option" where
  "runMain w args =
     (case args of
        [] \<Rightarrow> (Exits (Some ErrHelp) '''', None)
      | command # rest \<Rightarrow>
          if command = ''init'' then runInit w rest
          else if command = ''run'' then (runAgent w rest False, None)
          else if command = ''once'' then (runAgent w rest True, None)
          else if command = ''doctor'' then (runDoctor w rest, None)
          else if command \<in> {''version'', ''--version'', ''-v''} then (Exits None versionLine, None)
          else if command = ''schema'' then (Exits None (lineOf (indentJson lineBreak schemaJson)), None)
          else if command \<in> {''help'', ''--help'', ''-h''} then (Exits None '''', None)
          else (Exits (Some (UnknownCommand command)) '''', None))"

section \<open>Flags are read as they are written\<close>

text \<open>The four ways to write a string flag.\<close>

datatype flagStyle = DoubleEquals | DoubleSpace | SingleEquals | SingleSpace

fun renderFlag :: "flagStyle \<times> string \<times> string \<Rightarrow> string list" where
  "renderFlag (DoubleEquals, n, v) = [''--'' @ n @ ''='' @ v]"
| "renderFlag (DoubleSpace, n, v) = [''--'' @ n, v]"
| "renderFlag (SingleEquals, n, v) = [''-'' @ n @ ''='' @ v]"
| "renderFlag (SingleSpace, n, v) = [''-'' @ n, v]"

definition properName :: "string \<Rightarrow> bool" where
  "properName n \<longleftrightarrow> n \<noteq> '''' \<and> CHR ''='' \<notin> set n \<and> hd n \<noteq> CHR ''-''"

lemma flagParts_name:
  assumes "properName n"
  shows "flagParts n = (n, None)" "flagParts (n @ CHR ''='' # v) = (n, Some v)"
proof -
  obtain c cs where n: "n = c # cs" "CHR ''='' \<notin> set cs"
    using assms by (cases n) (auto simp: properName_def)
  have k: "takeWhile (\<lambda>c. c \<noteq> CHR ''='') cs = cs"
    using n(2) by (subst takeWhile_eq_all_conv) auto
  show "flagParts n = (n, None)" "flagParts (n @ CHR ''='' # v) = (n, Some v)"
    by (simp_all add: flagParts_def Let_def n k takeWhile_sep)
qed

lemma parse_flag:
  assumes "properName n" "map_of fs n = Some StringFlag"
  shows "parseFlags fs vals (renderFlag (st, n, v) @ args) = parseFlags fs ((n, v) # vals) args"
proof -
  obtain c cs where n: "n = c # cs" "c \<noteq> CHR ''-''" "c \<noteq> CHR ''=''"
    using assms by (cases n) (auto simp: properName_def)
  with assms flagParts_name [OF assms(1)] show ?thesis
    by (cases st) (auto simp: Let_def)
qed

text \<open>
  The flags of a command line are read as they are written: whatever the values are, in any of
  the four styles and any order, parsing gives every flag its value, a later one of the same name
  before an earlier one, and leaves the arguments after the terminator alone.
\<close>
theorem flags_roundtrip:
  assumes "list_all (\<lambda>(st, n, v). properName n \<and> map_of fs n = Some StringFlag) kvs"
  shows "parseFlags fs [] (concat (map renderFlag kvs) @ ''--'' # rest) = Inr (rev (map snd kvs), rest)"
proof -
  have "parseFlags fs vals (concat (map renderFlag kvs) @ ''--'' # rest) = Inr (rev (map snd kvs) @ vals, rest)" for vals
    using assms by (induction kvs arbitrary: vals) (auto simp: parse_flag)
  then show ?thesis by simp
qed

theorem flags_roundtrip_witness:
  "parseFlags [(''config'', StringFlag), (''log-level'', StringFlag)] []
     [''--config=a=b'', ''-log-level'', ''--x'', ''--'', ''more''] =
   Inr ([(''log-level'', ''--x''), (''config'', ''a=b'')], [''more''])"
  using flags_roundtrip [of "[(''config'', StringFlag), (''log-level'', StringFlag)]"
      "[(DoubleEquals, ''config'', ''a=b''), (SingleSpace, ''log-level'', ''--x'')]" "[''more'']"]
  by (simp add: properName_def)

section \<open>The schema names what is published\<close>

lemma callObservation_kind:
  "Kind (callObservation w (HTTPCall kind scope sem path query meta) a) \<in> {kind, ''agent/error''}"
  "Kind (callObservation w (CLICall kind scope sem args meta) a) \<in> {kind, ''agent/error''}"
  by (auto simp: collectedObservation_def observation_defs split: prod.splits)

definition callKind :: "call \<Rightarrow> string" where
  "callKind c = (case c of HTTPCall kind _ _ _ _ _ \<Rightarrow> kind | CLICall kind _ _ _ _ \<Rightarrow> kind)"

fun taskKinds :: "task \<Rightarrow> string list" where
  "taskKinds (HTTPTask kind _ _ _ _) = [kind]"
| "taskKinds (CLITask kind _ _ _) = [kind]"
| "taskKinds (CostCycle _ _) = [''cli/active-account-probe'', ''serve/cost'']"

lemma task_kinds: "list_all (\<lambda>call. callKind call \<in> set (taskKinds t)) (taskCalls c nanos t)"
  by (cases t) (auto simp: Let_def bracket_def callKind_def list_all_iff)

lemma addJob_kinds:
  "list_all (\<lambda>j. set (taskKinds (jobTask j)) \<subseteq> set schemaKinds) (addJob name seconds delay t) \<longleftrightarrow>
     seconds \<le> 0 \<or> set (taskKinds t) \<subseteq> set schemaKinds"
  by (auto simp: addJob_def)

lemma job_kinds: "list_all (\<lambda>j. set (taskKinds (jobTask j)) \<subseteq> set schemaKinds) (buildJobs c)"
proof -
  let ?ok = "\<lambda>j. set (taskKinds (jobTask j)) \<subseteq> set schemaKinds"
  have loop: "list_all ?ok (concat (map f xs))" if "\<And>x. list_all ?ok (f x)" for f :: "'x \<Rightarrow> job list" and xs
    using that by (induction xs) simp_all
  have kinds: "''serve/health'' \<in> set schemaKinds" "''serve/usage'' \<in> set schemaKinds" "''serve/cost'' \<in> set schemaKinds"
    "''cli/usage-status'' \<in> set schemaKinds" "''cli/active-account-probe'' \<in> set schemaKinds"
    "''cli/account-catalogue'' \<in> set schemaKinds" "''cli/cost-horizon'' \<in> set schemaKinds"
    "''cli/config-validation'' \<in> set schemaKinds"
    by (simp_all add: schemaKinds_def)
  show ?thesis
    unfolding buildJobs_def activeAccountJobs_def accountCatalogueJobs_def costHorizonJobs_def Let_def
    by (auto simp only: list_all_append intro!: loop split: prod.splits)
      (auto simp: addJob_kinds kinds)
qed

text \<open>
  C38: The \<open>schema\<close> command tells consumers every kind there is: whatever the configuration, an
  observation that a job makes, of a response or of an error, has one of the kinds in the list.
\<close>
theorem schema_lists_kinds:
  "list_all (\<lambda>j. list_all (\<lambda>call. Kind (callObservation w call a) \<in> set schemaKinds) (taskCalls c nanos (jobTask j)))
     (buildJobs c)"
proof -
  have err: "''agent/error'' \<in> set schemaKinds" by (simp add: schemaKinds_def)
  have "Kind (callObservation w call a) \<in> {callKind call, ''agent/error''}" for call
    using callObservation_kind by (cases call) (simp_all add: callKind_def)
  with err have ok: "Kind (callObservation w call a) \<in> set schemaKinds" if "callKind call \<in> set schemaKinds" for call
    using that by (metis empty_iff insert_iff)
  show ?thesis
    using job_kinds [of c] task_kinds ok unfolding list_all_iff by blast
qed

section \<open>What is printed can be read\<close>

lemma parse_indent:
  assumes "wfJson maxNestingDepth j" shows "parseJson (lineOf (indentJson lineBreak j)) = Some j"
proof -
  have "gap []" "delimiter lineBreak" "skipSpace lineBreak = []"
    using delimiter_gap [OF gap_lineBreak, of "[]"] skipSpace_gap [OF gap_lineBreak(1), of "[]"]
    by (simp_all add: gap_def skipSpace_def)
  moreover from this have "scanValue (2 * length (lineOf (indentJson lineBreak j)) + 2) maxNestingDepth
      ([] @ indentJson lineBreak j @ lineBreak) = Some (j, lineBreak)"
    by (intro ireadsD [OF scan_indent [OF assms gap_lineBreak]]) (simp_all add: lineOf_def)
  ultimately show ?thesis by (simp add: parseJson_def lineOf_def)
qed

lemma wf_checkJson: "wfJson (Suc d) (checkJson c)"
  by (simp add: checkJson_def wfMembers_omit wfStr_literal plain_def)

lemma wf_reportJson: "wfJson (Suc (Suc (Suc d))) (reportJson r)"
  by (simp add: reportJson_def wfStr_quoteText wfStr_literal plain_def) (simp add: list_all_iff wf_checkJson wfStr_quoteText split_beta)

lemma wf_schemaJson: "wfJson (Suc (Suc d)) schemaJson"
  by (simp add: schemaJson_def wfStr_quoteText wfStr_literal plain_def wfNum_intString list_all_iff)

text \<open>
  C39: A script can rely on the doctor. What it prints, when it gets as far as printing, is a JSON
  document whose \<open>ok\<close> tells the verdict, and the exit status is 0 exactly when that is true.
\<close>
theorem doctor_output:
  assumes "runMain w (''doctor'' # args) = (Exits err out, file)" "out \<noteq> ''''"
  shows "\<exists>ok. member ''ok'' (parseJson out) = Some (JBool ok) \<and>
    exitStatus (Exits err out) = Some (if ok then 0 else 1) \<and> file = None"
proof -
  from assms obtain r where out: "out = lineOf (indentJson lineBreak (reportJson r))"
    and err: "err = (if reportOK r then None else Some FailedDoctor)" "file = None"
    by (auto simp: runMain_def runDoctor_def Let_def split: sum.splits prod.splits)
  have depth: "maxNestingDepth = Suc (Suc (Suc 9997))" by (simp add: maxNestingDepth_def)
  have "parseJson out = Some (reportJson r)"
    unfolding out by (rule parse_indent) (simp only: depth wf_reportJson)
  then show ?thesis using err by (simp add: member_def reportJson_def exitStatus_def)
qed

section \<open>What the program runs\<close>

lemma prepare_runs:
  assumes "prepare w path level format = Inr a" "\<forall>dir. distinct (map fst (wSpoolDir w dir))"
  shows "acceptable (appCfg a)" "okQueue (appSpool a)" "executable (wHost w) (runBinary (appRunner a))"
    "0 < maxMessages (appSpool a)" "observed a = []" "appJobs a = []"
proof -
  from assms(1) obtain c where c: "Load (wEnv w) path = Inr c"
    and n: "newApp (wHost w) (wVersionRun w) (mkdirAll (wFiles w) (Spool_Directory (AppConfig.Spool c)) \<noteq> None)
      (wSpoolDir w (Spool_Directory (AppConfig.Spool c))) (hostName (wEnv w)) (wNow w) c = Inr a"
    by (auto simp: prepare_def split: sum.splits prod.splits)
  from c have acc: "acceptable c" by (rule loaded_from) (simp add: validate_accepts)
  from n obtain b where b: "DiscoverBinary (wHost w) (CodexBar_Binary (CodexBar c)) = Some b"
    "appCfg a = c" "runBinary (appRunner a) = b" "observed a = []" "appJobs a = []"
    "appSpool a = \<lparr>maxMessages = Spool_MaxMessages (AppConfig.Spool c), maxBytes = Spool_MaxBytes (AppConfig.Spool c),
       entries = wSpoolDir w (Spool_Directory (AppConfig.Spool c)), dropped = 0\<rparr>"
    by (auto simp: newApp_def New_def Let_def split: option.splits sum.splits if_splits)
  from b(1) have "executable (wHost w) b" by (auto simp: discover_first find_Some_iff)
  with b acc assms(2) show "acceptable (appCfg a)" "okQueue (appSpool a)" "executable (wHost w) (runBinary (appRunner a))"
    "0 < maxMessages (appSpool a)" "observed a = []" "appJobs a = []"
    by (simp_all add: okQueue_def wfQueue_def) (simp_all add: acceptable_def)
qed

text \<open>
  C40: Only \<open>run\<close> serves, and what it serves is fit to: the configuration is one the program can run
  with, the binary is a file it may execute, the spool has positive limits, and no job has run. From
  there on, whatever the goroutines do, what the process delivers from its spool was in the
  directory before it, or is the record of an observation it has made itself.
\<close>
theorem served_agent:
  assumes "runMain w args = (Serves s, file)" "\<forall>dir. distinct (map fst (wSpoolDir w dir))"
  shows "hd args = ''run'' \<and> file = None \<and> s = startAgent (wNanos w) (agApp s) \<and>
    acceptable (appCfg (agApp s)) \<and> executable (wHost w) (runBinary (appRunner (agApp s))) \<and>
    0 < maxMessages (appSpool (agApp s)) \<and> observed (agApp s) = [] \<and> appJobs (agApp s) = [] \<and>
    (\<forall>etext u n r. agentReach etext s u \<and> (n, r) \<in> set (agAcked u) \<longrightarrow>
       parsedRecord (appSpool (agApp s)) n = Some r \<or> list_ex (recordOf (appCfg (agApp s)) r) (observed (agApp u)))"
proof -
  from assms(1) obtain path level format a where a: "prepare w path level format = Inr a" "s = startAgent (wNanos w) a"
    and "hd args = ''run''" "file = None"
    by (cases args) (auto simp: runMain_def runAgent_def runInit_def runDoctor_def Let_def
        split: sum.splits prod.splits if_splits option.splits)
  moreover from a(2) have app: "agApp s = a" by (simp add: startAgent_def)
  moreover note ready = prepare_runs [OF a(1) assms(2)]
  moreover have "\<forall>etext u n r. agentReach etext s u \<and> (n, r) \<in> set (agAcked u) \<longrightarrow>
      parsedRecord (appSpool a) n = Some r \<or> list_ex (recordOf (appCfg a) r) (observed (agApp u))"
    unfolding a(2) by (intro allI impI delivered_source [OF ready(2)]) (erule conjunct1, erule conjunct2)
  ultimately show ?thesis using a(2) by simp
qed

text \<open>A host on which every file is executable.\<close>

definition readyWorld :: world where
  "readyWorld =
     \<lparr>wEnv = bareEnv,
      wFiles = \<lparr>statOf = (\<lambda>_. Exists), mkdirAll = (\<lambda>_. None), writeFile = (\<lambda>_. None)\<rparr>,
      wHost = \<lparr>lookPath = Some ''/usr/bin/codexbar'', darwin = False, absPath = Some,
               statFile = (\<lambda>_. Some \<lparr>infoIsDir = False, infoMode = 73\<rparr>)\<rparr>,
      wVersionRun = (\<lambda>_ _. Inl ''not run''), wSpoolDir = (\<lambda>_. []), wNow = 0, wNanos = 0, wOnce = quietWorld,
      wDoctor =
        \<lparr>dwVersion = (\<lambda>_ _. Inl ''not run''), dwHealth = server fullDisk, dwUsage = server fullDisk,
         dwRowsErr = '''', dwConnect = Some ''refused'', dwPublish = (\<lambda>_. None), dwClock = 0,
         dwSpoolIO = unixIO, dwSpoolText = (\<lambda>_. ''''), dwMarshalText = (\<lambda>_. '''')\<rparr>\<rparr>"

lemma ready_prepares:
  assumes "level = ''info'' \<or> level = ''warn''"
  shows "\<exists>a. prepare readyWorld ''config.json'' level ''text'' = Inr a"
proof -
  have env: "wEnv readyWorld = bareEnv" by (simp add: readyWorld_def)
  obtain c where c: "Load bareEnv ''config.json'' = Inr c" using bare_load by blast
  then have "acceptable c" by (rule loaded_from) (simp add: validate_accepts)
  then have dir: "Spool_Directory (AppConfig.Spool c) \<noteq> ''''" by (simp add: acceptable_def)
  obtain b where b: "DiscoverBinary (wHost readyWorld) (CodexBar_Binary (CodexBar c)) = Some b"
    by (cases "CodexBar_Binary (CodexBar c) = ''''")
      (auto simp: discover_first binaryCandidates_def readyWorld_def map_filter_simps executable_def)
  have mk: "mkdirAll (wFiles readyWorld) d = None" for d by (simp add: readyWorld_def)
  obtain l where l: "newLogger level ''text'' = Inr (l, False)"
    using assms by (auto simp: newLogger_def string_eval)
  show ?thesis using c b dir by (simp add: prepare_def env l newApp_def New_def mk Let_def)
qed

theorem doctor_output_witness:
  "\<exists>err out ok. runMain readyWorld [''doctor'', ''--config=config.json''] = (Exits err out, None) \<and>
     member ''ok'' (parseJson out) = Some (JBool ok) \<and> exitStatus (Exits err out) = Some (if ok then 0 else 1)"
proof -
  obtain a where a: "prepare readyWorld ''config.json'' ''warn'' ''text'' = Inr a" using ready_prepares by blast
  let ?out = "lineOf (indentJson lineBreak (reportJson (Doctor (wDoctor readyWorld) a)))"
  obtain err where "runMain readyWorld [''doctor'', ''--config=config.json''] = (Exits err ?out, None)"
    using a by (simp add: runMain_def runDoctor_def flagParts_def flagValue_def Let_def)
  moreover have "?out \<noteq> ''''" by (simp add: lineOf_def lineBreak_def)
  ultimately show ?thesis using doctor_output by blast
qed

theorem served_agent_witness:
  "\<exists>s. runMain readyWorld [''run'', ''--config=config.json''] = (Serves s, None) \<and> acceptable (appCfg (agApp s)) \<and>
     observed (agApp s) = []"
proof -
  obtain a where a: "prepare readyWorld ''config.json'' ''info'' ''text'' = Inr a" using ready_prepares by blast
  then have r: "runMain readyWorld [''run'', ''--config=config.json''] = (Serves (startAgent 0 a), None)"
    by (simp add: runMain_def runAgent_def flagParts_def flagValue_def Let_def) (simp add: readyWorld_def)
  have "\<forall>dir. distinct (map fst (wSpoolDir readyWorld dir))" by (simp add: readyWorld_def)
  from served_agent [OF r this] r show ?thesis by blast
qed

end
