(* ===== verification/Spec2Isabelle.thy ===== *)
theory Spec2Isabelle
  imports Wire_Spec Delivery CommandLine
begin

text \<open>
  \<^bold>\<open>codexbar-mqtt\<close>: a collector that asks CodexBar, over its local HTTP server and its command line,
  for usage and cost data, wraps every answer in an observation, spools the observation on disk and
  publishes it to an MQTT 5 broker. The development models the Go code of the repository, from the
  bytes on the wire to the exit status of the process, and proves what makes it correct.

  \<^bold>\<open>How the parts work together.\<close> \<open>cmd/codexbar-mqtt/main.go\<close> reads the flags, loads and validates the
  configuration and makes the application. \<open>App.Run\<close> starts a goroutine per job, the heartbeat, the
  drain of the spool, the reconnect loop of the MQTT manager and, if it manages the server, its
  supervisor. A job makes collections; a collection becomes an observation, the observation one or
  two records, and \<open>Enqueue\<close> writes each record to a file of its own. The drain reads the oldest file,
  publishes it through the manager's current client, and removes it when the broker has
  acknowledged it.

  \<^bold>\<open>Theories and code\<close> (files under \<open>internal/\<close>, \<open>cmd/\<close>):

  \<^item> \<open>Prelude\<close>: bytes and words, the collection \<open>byte_simps\<close>, the locale \<open>self_delimiting\<close> of formats that
    are read back from the front of a stream.
  \<^item> \<open>Wire\<close>, \<open>Wire_Spec\<close> (\<open>mqttclient/client.go\<close>): the encoders and parsers of packets, with Go's slice
    bounds written out as an error; a broker's own reading of CONNECT, as the standard lays it out.
  \<^item> \<open>Client\<close> (\<open>mqttclient/client.go\<close>): \<open>Publish\<close>, \<open>Subscribe\<close>, \<open>Disconnect\<close>, the read and ping loops and
    \<open>fail\<close> as a step function over events, one for each point where goroutines synchronise.
  \<^item> \<open>Manager\<close> (\<open>mqttclient/manager.go\<close>): the reconnect loop as a machine over the points where it waits,
    the current client, \<open>WaitConnected\<close>.
  \<^item> \<open>GoStrings\<close>, \<open>GoTime\<close>, \<open>Sha256\<close>, \<open>Url\<close>, \<open>Json\<close>, \<open>Codec\<close>, \<open>Compact\<close>: what the code uses of Go's
    standard library: strings and their case and trimming, times in RFC 3339, SHA-256, \<open>net/url\<close>,
    \<open>encoding/json\<close> (scanner, encoder, decoder into structs, compaction, indentation).
  \<^item> \<open>AppConfig\<close>, \<open>Settings\<close>, \<open>Example\<close> (\<open>config/config.go\<close>): the configuration, its defaults, \<open>Load\<close>,
    \<open>Validate\<close>, and \<open>WriteExample\<close>.
  \<^item> \<open>Topics\<close> (\<open>app/topics.go\<close>, \<open>app/discovery.go\<close>, \<open>envelope/envelope.go\<close>): segments and topics.
  \<^item> \<open>Envelope\<close> (\<open>envelope/envelope.go\<close>): observations and their JSON text.
  \<^item> \<open>SpoolRecord\<close>, \<open>Spool\<close>, \<open>SpoolLog\<close> (\<open>spool/spool.go\<close>): records and their text; the directory with
    every system call a possible failure; the spool through any order of operations and restarts,
    with what was accepted, acknowledged and pruned as ghosts.
  \<^item> \<open>Broker\<close> (\<open>mqttclient/client.go\<close>): the broker URL, the TLS configuration, \<open>Dial\<close>.
  \<^item> \<open>CodexBar\<close> (\<open>codexbar/client.go\<close>, \<open>runner.go\<close>, \<open>supervisor.go\<close>): requests to the server, runs of
    the command, the search for the binary, the supervisor.
  \<^item> \<open>Jobs\<close> (\<open>app/jobs.go\<close>, parts of \<open>app/app.go\<close>): the jobs, their schedules, the collections, the cost
    attribution cycle, the table of job states, what an observation puts into the spool.
  \<^item> \<open>Application\<close> (\<open>app/app.go\<close>, \<open>app/doctor.go\<close>): \<open>New\<close>, the connection callback, the payloads, \<open>RunOnce\<close>
    and \<open>Doctor\<close>.
  \<^item> \<open>Agent\<close> (\<open>app/app.go\<close>, \<open>app/jobs.go\<close>): \<open>Run\<close> as a step relation of the interleaved goroutines; the
    network may connect, disconnect, take or refuse a message at any time.
  \<^item> \<open>Delivery\<close> (\<open>app/app.go\<close>, \<open>manager.go\<close>, \<open>client.go\<close>, \<open>spool.go\<close>): \<open>Run\<close> with the manager, every client it
    dials and the supervisor; the locale \<open>publisher\<close> is the contract of the Go interface \<open>Publisher\<close>.
  \<^item> \<open>CommandLine\<close> (\<open>cmd/codexbar-mqtt/main.go\<close>): commands, flags, output and exit status.

  \<^bold>\<open>What is shown.\<close>

  \<^item> \<^emph>\<open>Wire and client.\<close> Packets are read back as they were written, and no input makes a parser index
    out of range. In every interleaving a QoS 1 publish that returns without an error had its packet
    written and its own PUBACK read; after a failure no byte is written and every call returns.
  \<^item> \<^emph>\<open>Spool.\<close> However system calls fail, \<open>Enqueue\<close> commits whole records; pruning keeps a suffix and
    counts its losses; \<open>Drain\<close> refines a walk over the list of records; an accepted record is in the
    directory, acknowledged or pruned, through restarts.
  \<^item> \<^emph>\<open>The agent.\<close> Every step of the goroutines is a step of the spool or leaves it alone, so what was
    observed and accepted survives, and what is delivered was observed. The system of theory
    \<open>Delivery\<close> refines it: forgetting the network gives a run of the agent, and what the agent counts
    as acknowledged was written whole on a connection and, with QoS 1, acknowledged there. Together:
    an accepted record is in the directory, or was pruned, or has reached the broker.
  \<^item> \<^emph>\<open>Data.\<close> Records, observations, the configuration, its example file and the URLs' queries make round
    trips; topics of one fleet do not collide for identifiers that are slugs.
  \<^item> \<^emph>\<open>Configuration and commands.\<close> \<open>Validate\<close> decides the predicate \<open>acceptable\<close>; what \<open>Load\<close> returns is
    acceptable; \<open>Dial\<close> understands an accepted URL with a host; only \<open>run\<close> serves; the doctor's verdict is a
    condition on what it found, and agrees with the exit status.
  \<^item> \<^emph>\<open>Failures of the code\<close> have theorems too: a spool over its byte limit is emptied
    (\<open>prune_over_bytes_empties\<close>), a malformed file that cannot be removed hangs the reader
    (\<open>peek_never_returns\<close>), a base URL that does not parse panics (\<open>panicking_config\<close>), an accepted broker URL
    can be one that \<open>Dial\<close> refuses (\<open>hostless_broker\<close>), neither the doctor nor a failed single run says
    offline (\<open>doctor_never_offline\<close>, \<open>failed_once_never_offline\<close>), and distinct machines can share their
    topics (\<open>machine_topics_collide\<close>).

  \<^bold>\<open>Conventions.\<close> Bytes, packet identifiers and counters are words of their width; Go's \<open>int\<close>, \<open>int64\<close> and
  durations are integers, since no value here comes near \<open>2 ^ 62\<close>. A Go string is the list of its bytes
  as characters. An error is a value of a sum or option type, a panic a value of its own. A loop that
  need not end is a \<open>partial_function\<close> over \<open>option\<close>, and where it ends a theorem says so. The JSON
  scanner counts down a bound of twice the length of its input and two, which \<open>Json\<close> and \<open>Codec\<close> show
  to be enough. Files, processes, servers, clocks, random bytes and the network are parameters: what a
  call returns is chosen by the environment, and a theorem holds for every choice it does not exclude.
  Fresh identifiers are a hypothesis (\<open>freshRecords\<close>): they come from a nanosecond clock and 48 random bits.
  Goroutines interleave between the points where they synchronise: channels, mutexes, system calls.

  \<^bold>\<open>Not modelled.\<close> Log lines, and what \<open>flag\<close> and \<open>printUsage\<close> write to standard error; \<open>logPipe\<close>, which
  only logs; signal handling, which is the event of cancellation here; the TLS handshake and
  certificates beyond which files \<open>buildTLSConfig\<close> reads and when it fails; the partial writes of
  \<open>os.WriteFile\<close>, whose temporary file is never listed. The messages of the connection callback and of
  the heartbeat are lists of what was handed to the client, and the outcome of the last offline is
  ignored, as the code does. The rounding of \<open>uptime_seconds\<close> through a float is a parameter's choice.
  Tests, scripts, the launchd files and the documents are not Go code of the program.
\<close>

end
